(* ===== verification/Prelude.thy ===== *)
theory Prelude
  imports Main "HOL-Library.Word" "HOL-Library.Sublist" "HOL-Library.AList"
begin

text \<open>
  Shared ground of the development: machine integers with their wrap-around, paths as lists of
  components with the operations of std::path the code uses, keyed tables (the shape every SQLite
  table and every hash map of the code takes), and the collections of rewrite rules that the
  component theories extend.

  A relative path is the list of its components (\<open>[]\<close> is the empty path); an absolute path is the
  list of its components below the root. A path and its text are identified: file names are taken to
  be valid UTF-8, so that to_string_lossy followed by PathBuf::from gives the path back.
\<close>

named_theorems path_simps \<open>evaluation of path operations\<close>
named_theorems table_simps \<open>lookups in keyed tables after an update\<close>
named_theorems int_casts \<open>casts between machine integers\<close>

section \<open>Machine integers\<close>

text \<open>
  A u64 is a natural number below \<open>2^64\<close>, an i64 an integer between \<open>-2^63\<close> and \<open>2^63\<close>; addition
  wraps, as in a release build; casts follow Rust's \<open>as\<close>. Bit masks and flags are words.
\<close>

type_synonym u8 = "8 word"
type_synonym u32 = "32 word"

unbundle bit_operations_syntax

definition u64_max :: nat where
  "u64_max = 2 ^ 64 - 1"

definition add64 :: "nat \<Rightarrow> nat \<Rightarrow> nat" where
  "add64 a b = (a + b) mod 2 ^ 64"

definition mul64 :: "nat \<Rightarrow> nat \<Rightarrow> nat" where
  "mul64 a b = (a * b) mod 2 ^ 64"

definition sat_add64 :: "nat \<Rightarrow> nat \<Rightarrow> nat" where
  "sat_add64 a b = min (a + b) u64_max"

definition as_i64 :: "nat \<Rightarrow> int" where
  "as_i64 n = (if n mod 2 ^ 64 < 2 ^ 63 then int (n mod 2 ^ 64) else int (n mod 2 ^ 64) - 2 ^ 64)"

definition as_u64 :: "int \<Rightarrow> nat" where
  "as_u64 i = nat (i mod 2 ^ 64)"

text \<open>The recurring pattern \<open>row.get::<_, i64>(n)?.max(0) as u64\<close>.\<close>

definition max0_u64 :: "int \<Rightarrow> nat" where
  "max0_u64 i = nat (max i 0)"

definition max0_u32 :: "int \<Rightarrow> u32" where
  "max0_u32 i = word_of_int (max i 0)"

lemma add64_small [int_casts]: "a + b < 2 ^ 64 \<Longrightarrow> add64 a b = a + b"
  by (simp add: add64_def)

lemma add64_less [int_casts]: "add64 a b < 2 ^ 64"
  by (simp add: add64_def)

lemma mul64_small [int_casts]: "a * b < 2 ^ 64 \<Longrightarrow> mul64 a b = a * b"
  by (simp add: mul64_def)

lemma as_i64_small [int_casts]: "n < 2 ^ 63 \<Longrightarrow> as_i64 n = int n"
  by (simp add: as_i64_def)

lemma as_u64_nonneg [int_casts]: "0 \<le> i \<Longrightarrow> i < 2 ^ 64 \<Longrightarrow> as_u64 i = nat i"
  by (simp add: as_u64_def)

lemma max0_as_i64 [int_casts]: "n < 2 ^ 63 \<Longrightarrow> max0_u64 (as_i64 n) = n"
  by (simp add: max0_u64_def int_casts)

lemma max0_u32_uint [int_casts]: "max0_u32 (uint w) = w"
  by (simp add: max0_u32_def max_def)

lemma max0_u64_int [int_casts, simp]: "max0_u64 (int n) = n"
  by (simp add: max0_u64_def)

lemma max0_u64_0 [int_casts, simp]: "max0_u64 0 = 0"
  by (simp add: max0_u64_def)

section \<open>Paths\<close>

type_synonym path = "string list"

abbreviation join :: "path \<Rightarrow> path \<Rightarrow> path" where
  "join p q \<equiv> p @ q"

fun parent :: "path \<Rightarrow> path option" where
  "parent [] = None"
| "parent (c # cs) = Some (butlast (c # cs))"

fun file_name :: "path \<Rightarrow> string option" where
  "file_name [] = None"
| "file_name (c # cs) = Some (last (c # cs))"

definition parent_or_empty :: "path \<Rightarrow> path" where
  "parent_or_empty p = (case parent p of None \<Rightarrow> [] | Some d \<Rightarrow> d)"

definition starts_with :: "path \<Rightarrow> path \<Rightarrow> bool" where
  "starts_with p base = prefix base p"

definition strip_prefix :: "path \<Rightarrow> path \<Rightarrow> path option" where
  "strip_prefix p base = (if prefix base p then Some (drop (length base) p) else None)"

text \<open>Path::extension: what follows the last dot of the file name, unless that dot comes first.\<close>

definition name_extension :: "string \<Rightarrow> string option" where
  "name_extension n =
     (let e = rev (takeWhile (\<lambda>c. c \<noteq> CHR ''.'') (rev n))
      in if length n \<le> Suc (length e) then None else Some e)"

definition extension :: "path \<Rightarrow> string option" where
  "extension p = (case file_name p of None \<Rightarrow> None | Some n \<Rightarrow> name_extension n)"

definition ends_with :: "string \<Rightarrow> string \<Rightarrow> bool" where
  "ends_with s t = (length t \<le> length s \<and> drop (length s - length t) s = t)"

lemma parent_eq [path_simps]: "parent p = (if p = [] then None else Some (butlast p))"
  by (cases p) auto

lemma file_name_eq [path_simps]: "file_name p = (if p = [] then None else Some (last p))"
  by (cases p) auto

lemma parent_or_empty_eq [path_simps]: "parent_or_empty p = butlast p"
  by (cases p) (auto simp: parent_or_empty_def)

lemma parent_join_name [path_simps]: "parent (d @ [n]) = Some d" "file_name (d @ [n]) = Some n"
  by (simp_all add: path_simps)

lemma strip_prefix_join [path_simps, simp]: "strip_prefix (d @ p) d = Some p"
  by (simp add: strip_prefix_def)

lemma strip_prefix_Some: "strip_prefix p d = Some q \<longleftrightarrow> p = d @ q"
  by (auto simp: strip_prefix_def prefix_def)

lemma strip_prefix_None: "strip_prefix p d = None \<longleftrightarrow> \<not> starts_with p d"
  by (auto simp: strip_prefix_def starts_with_def)

lemma starts_with_iff: "starts_with p d \<longleftrightarrow> (\<exists>q. p = d @ q)"
  by (auto simp: starts_with_def prefix_def)

lemma ends_with_append [simp]: "ends_with (s @ t) t"
  by (simp add: ends_with_def)

lemma name_extension_dot:
  assumes "CHR ''.'' \<notin> set e" and "s \<noteq> []"
  shows "name_extension (s @ CHR ''.'' # e) = Some e"
proof -
  have "\<forall>c \<in> set (rev e). c \<noteq> CHR ''.''"
    using assms(1) by auto
  then have "takeWhile (\<lambda>c. c \<noteq> CHR ''.'') (rev e @ CHR ''.'' # rev s) = rev e"
    by (subst takeWhile_append2) auto
  then show ?thesis using assms(2) by (simp add: name_extension_def)
qed

section \<open>Keyed tables\<close>

text \<open>
  A table is a list of rows in insertion order with a unique key. These four operations are the
  statement shapes of the code's SQL: INSERT OR REPLACE, DELETE ... WHERE key, UPDATE ... WHERE key
  and SELECT ... WHERE key.
\<close>

definition row_replace :: "('r \<Rightarrow> 'k) \<Rightarrow> 'r \<Rightarrow> 'r list \<Rightarrow> 'r list" where
  "row_replace key r t = filter (\<lambda>x. key x \<noteq> key r) t @ [r]"

definition row_delete :: "('r \<Rightarrow> 'k) \<Rightarrow> 'k \<Rightarrow> 'r list \<Rightarrow> 'r list" where
  "row_delete key k t = filter (\<lambda>x. key x \<noteq> k) t"

definition row_update :: "('r \<Rightarrow> 'k) \<Rightarrow> 'k \<Rightarrow> ('r \<Rightarrow> 'r) \<Rightarrow> 'r list \<Rightarrow> 'r list" where
  "row_update key k f t = map (\<lambda>x. if key x = k then f x else x) t"

definition row_lookup :: "('r \<Rightarrow> 'k) \<Rightarrow> 'k \<Rightarrow> 'r list \<Rightarrow> 'r option" where
  "row_lookup key k t = find (\<lambda>x. key x = k) t"

definition unique_key :: "('r \<Rightarrow> 'k) \<Rightarrow> 'r list \<Rightarrow> bool" where
  "unique_key key t = distinct (map key t)"

lemma row_lookup_Nil [table_simps]: "row_lookup key k [] = None"
  by (simp add: row_lookup_def)

lemma row_lookup_Cons [table_simps]:
  "row_lookup key k (r # t) = (if key r = k then Some r else row_lookup key k t)"
  by (simp add: row_lookup_def)

lemma row_lookup_append:
  "row_lookup key k (t @ u) =
     (case row_lookup key k t of None \<Rightarrow> row_lookup key k u | Some r \<Rightarrow> Some r)"
  by (induction t) (auto simp: table_simps)

lemma row_lookup_delete [table_simps]:
  "row_lookup key k (row_delete key k' t) = (if k = k' then None else row_lookup key k t)"
  by (induction t) (auto simp: row_lookup_def row_delete_def)

lemma row_replace_alt: "row_replace key r t = row_delete key (key r) t @ [r]"
  by (simp add: row_replace_def row_delete_def)

lemma row_lookup_replace [table_simps]:
  "row_lookup key k (row_replace key r t) = (if k = key r then Some r else row_lookup key k t)"
  by (auto simp: row_replace_alt row_lookup_append row_lookup_delete row_lookup_Cons
        row_lookup_Nil split: option.splits)

lemma row_lookup_update [table_simps]:
  assumes "\<And>x. key (f x) = key x"
  shows "row_lookup key k (row_update key k' f t) =
     (if k = k' then map_option f (row_lookup key k t) else row_lookup key k t)"
  using assms by (induction t) (auto simp: row_lookup_def row_update_def)

lemma unique_key_delete [table_simps, intro]: "unique_key key t \<Longrightarrow> unique_key key (row_delete key k t)"
  by (induction t) (auto simp: unique_key_def row_delete_def)

lemma unique_key_filter [intro]: "unique_key key t \<Longrightarrow> unique_key key (filter P t)"
  by (induction t) (auto simp: unique_key_def)

lemma unique_key_replace [table_simps, intro]:
  "unique_key key t \<Longrightarrow> unique_key key (row_replace key r t)"
  by (induction t) (auto simp: unique_key_def row_replace_def)

lemma unique_key_update [table_simps, intro]:
  assumes "\<And>x. key (f x) = key x" and "unique_key key t"
  shows "unique_key key (row_update key k f t)"
proof -
  have "map key (row_update key k f t) = map key t"
    using assms(1) by (simp add: row_update_def)
  with assms(2) show ?thesis by (simp add: unique_key_def)
qed

lemma unique_key_Nil [simp]: "unique_key key []"
  by (simp add: unique_key_def)

lemma row_lookup_Some_in: "row_lookup key k t = Some r \<Longrightarrow> r \<in> set t \<and> key r = k"
  by (induction t) (auto simp: table_simps split: if_splits)

lemma row_lookup_None: "row_lookup key k t = None \<longleftrightarrow> k \<notin> key ` set t"
  by (induction t) (auto simp: table_simps)

lemma row_lookup_unique:
  "unique_key key t \<Longrightarrow> r \<in> set t \<Longrightarrow> row_lookup key (key r) t = Some r"
  by (induction t) (auto simp: table_simps unique_key_def)

lemma set_row_delete: "set (row_delete key k t) = {r \<in> set t. key r \<noteq> k}"
  by (auto simp: row_delete_def)

lemma set_row_replace: "set (row_replace key r t) = insert r {x \<in> set t. key x \<noteq> key r}"
  by (auto simp: row_replace_def)

text \<open>
  What a client of such a table relies on, whatever the table holds: what a lookup returns after a
  replacement or a deletion, and that the key stays unique. The tables of the cache database and
  the pending buffer of the access filter provide it.
\<close>

locale keyed_store =
  fixes lookup_of :: "'k \<Rightarrow> 's \<Rightarrow> 'v option"
    and put :: "'k \<Rightarrow> 'v \<Rightarrow> 's \<Rightarrow> 's"
    and del :: "'k \<Rightarrow> 's \<Rightarrow> 's"
    and inv :: "'s \<Rightarrow> bool"
    and good :: "'v \<Rightarrow> bool"
  assumes lookup_put: "inv s \<Longrightarrow> good v \<Longrightarrow>
      lookup_of k (put k' v s) = (if k = k' then Some v else lookup_of k s)"
    and lookup_del: "inv s \<Longrightarrow> lookup_of k (del k' s) = (if k = k' then None else lookup_of k s)"
    and inv_put: "inv s \<Longrightarrow> inv (put k v s)"
    and inv_del: "inv s \<Longrightarrow> inv (del k s)"
begin

lemma lookup_put_same: "inv s \<Longrightarrow> good v \<Longrightarrow> lookup_of k (put k v s) = Some v"
  by (simp add: lookup_put)

lemma lookup_put_other: "inv s \<Longrightarrow> good v \<Longrightarrow> k \<noteq> k' \<Longrightarrow> lookup_of k (put k' v s) = lookup_of k s"
  by (simp add: lookup_put)

lemma del_put: "inv s \<Longrightarrow> good v \<Longrightarrow> lookup_of j (del k (put k v s)) = lookup_of j (del k s)"
  by (simp add: lookup_put lookup_del inv_put)

lemma put_put: "inv s \<Longrightarrow> good v \<Longrightarrow> good v' \<Longrightarrow>
    lookup_of j (put k v' (put k v s)) = lookup_of j (put k v' s)"
  by (simp add: lookup_put inv_put)

lemma inv_del_all: "inv s \<Longrightarrow> inv (fold del ks s)"
  by (induction ks arbitrary: s) (auto intro: inv_del)

lemma lookup_del_all: "inv s \<Longrightarrow> lookup_of k (fold del ks s) = (if k \<in> set ks then None else lookup_of k s)"
  by (induction ks arbitrary: s) (auto simp: lookup_del inv_del)

text \<open>The clean-up loops: delete the keys that fail a test, as the code does one by one.\<close>

lemma inv_sweep: "inv s \<Longrightarrow> inv (foldl (\<lambda>s k. if P k then del k s else s) s ks)"
  by (induction ks arbitrary: s) (auto intro: inv_del)

lemma lookup_sweep: "inv s \<Longrightarrow>
    lookup_of k (foldl (\<lambda>s k. if P k then del k s else s) s ks) =
      (if k \<in> set ks \<and> P k then None else lookup_of k s)"
  by (induction ks arbitrary: s) (auto simp: lookup_del inv_del)

end

text \<open>Hash maps are association lists.\<close>

lemma alist_map_of:
  "map_of (AList.update k v m) p = (if p = k then Some v else map_of m p)"
  "map_of (AList.delete k m) p = (if p = k then None else map_of m p)"
  by (simp_all add: AList.update_conv' AList.delete_conv')

section \<open>Lists\<close>

lemma sum_list_filter_split:
  "sum_list (map f (filter P xs)) + sum_list (map f (filter (\<lambda>x. \<not> P x) xs)) =
   (sum_list (map f xs) :: 'b :: comm_monoid_add)"
  by (induction xs) (simp_all add: algebra_simps)

lemma sorted_wrt_sort_key:
  "sorted_wrt (\<lambda>a b. f a \<le> f b) (sort_key (f :: 'a \<Rightarrow> 'b :: linorder) xs)"
  using sorted_sort_key [of f xs] by (simp add: sorted_map)

end
