(* ===== verification/Text.thy ===== *)
theory Text
  imports Prelude
begin

text \<open>
  The string operations of the Rust standard library that several components use: parsing of
  unsigned numbers, splitting at a separator, lines, trimming, ASCII classes. Strings are lists of
  bytes; the classes are the ASCII ones.
\<close>

section \<open>Numbers\<close>

text \<open>
  str::parse for an unsigned type: an optional leading plus, then one or more ASCII digits, below
  the type's bound; a lone sign, an empty string, a minus or any other character is an error.
\<close>

definition code_of :: "char \<Rightarrow> nat" where
  "code_of c = of_char c"

definition is_digit :: "char \<Rightarrow> bool" where
  "is_digit c = (48 \<le> code_of c \<and> code_of c \<le> 57)"

definition digit_val :: "char \<Rightarrow> nat" where
  "digit_val c = code_of c - 48"

definition digits_val :: "string \<Rightarrow> nat" where
  "digits_val s = foldl (\<lambda>acc c. 10 * acc + digit_val c) 0 s"

definition parse_unsigned :: "nat \<Rightarrow> string \<Rightarrow> nat option" where
  "parse_unsigned bound s =
     (let ds = (case s of c # cs \<Rightarrow> if c = CHR ''+'' then cs else s | [] \<Rightarrow> s)
      in if ds = [] \<or> \<not> list_all is_digit ds then None
         else if digits_val ds < bound then Some (digits_val ds) else None)"

definition parse_u8 :: "string \<Rightarrow> u8 option" where
  "parse_u8 s = map_option of_nat (parse_unsigned 256 s)"

definition parse_u32 :: "string \<Rightarrow> nat option" where
  "parse_u32 s = parse_unsigned (2 ^ 32) s"

section \<open>Classes\<close>

definition is_ascii_alphanumeric :: "char \<Rightarrow> bool" where
  "is_ascii_alphanumeric c =
     (is_digit c \<or> (65 \<le> code_of c \<and> code_of c \<le> 90) \<or> (97 \<le> code_of c \<and> code_of c \<le> 122))"

definition is_space :: "char \<Rightarrow> bool" where
  "is_space c = (code_of c = 32 \<or> (9 \<le> code_of c \<and> code_of c \<le> 13))"

definition to_lower :: "char \<Rightarrow> char" where
  "to_lower c = (if 65 \<le> code_of c \<and> code_of c \<le> 90 then char_of (code_of c + 32) else c)"

section \<open>Splitting\<close>

text \<open>\<open>splitn(2, c)\<close>: the text before the first separator, and the rest if there is one.\<close>

fun split_once :: "char \<Rightarrow> string \<Rightarrow> string \<times> string option" where
  "split_once c [] = ([], None)"
| "split_once c (x # xs) =
     (if x = c then ([], Some xs)
      else (case split_once c xs of (a, b) \<Rightarrow> (x # a, b)))"

text \<open>\<open>split\<close> at every separator: one piece more than there are separators.\<close>

fun split_at :: "('a \<Rightarrow> bool) \<Rightarrow> 'a list \<Rightarrow> 'a list list" where
  "split_at sep [] = [[]]"
| "split_at sep (x # xs) =
     (if sep x then [] # split_at sep xs
      else (case split_at sep xs of [] \<Rightarrow> [[x]] | p # ps \<Rightarrow> (x # p) # ps))"

definition strip_cr :: "string \<Rightarrow> string" where
  "strip_cr l = (if l \<noteq> [] \<and> code_of (last l) = 13 then butlast l else l)"

text \<open>\<open>lines\<close>: pieces at newlines, a trailing newline ends the last line, a carriage return
  before the newline is dropped.\<close>

definition lines :: "string \<Rightarrow> string list" where
  "lines s =
     (let ps = split_at (\<lambda>c. code_of c = 10) s
      in map strip_cr (if last ps = [] then butlast ps else ps))"

definition trim :: "string \<Rightarrow> string" where
  "trim s = rev (dropWhile is_space (rev (dropWhile is_space s)))"

definition split_whitespace :: "string \<Rightarrow> string list" where
  "split_whitespace s = filter (\<lambda>p. p \<noteq> []) (split_at is_space s)"

definition strip_text_prefix :: "string \<Rightarrow> string \<Rightarrow> string option" where
  "strip_text_prefix p s = (if prefix p s then Some (drop (length p) s) else None)"

fun join_with :: "string \<Rightarrow> string list \<Rightarrow> string" where
  "join_with sep [] = []"
| "join_with sep [s] = s"
| "join_with sep (s # t # ss) = s @ sep @ join_with sep (t # ss)"

section \<open>Lemmas\<close>

lemma split_at_not_Nil [simp]: "split_at sep xs \<noteq> []"
  by (induction xs) (auto split: list.splits)

lemma split_at_pieces: "p \<in> set (split_at sep xs) \<Longrightarrow> x \<in> set p \<Longrightarrow> \<not> sep x \<and> x \<in> set xs"
proof (induction xs arbitrary: p)
  case Nil
  then show ?case by simp
next
  case (Cons y ys)
  then show ?case by (auto split: if_splits list.splits) blast+
qed

lemma concat_split_at: "concat (split_at sep xs) = filter (\<lambda>x. \<not> sep x) xs"
  by (induction xs) (auto split: list.splits)

lemma split_at_append_sep:
  "sep c \<Longrightarrow> split_at sep (xs @ c # ys) = split_at sep xs @ split_at sep ys"
  by (induction xs) (auto split: list.splits)

lemma split_at_none: "\<forall>x \<in> set xs. \<not> sep x \<Longrightarrow> split_at sep xs = [xs]"
  by (induction xs) auto

lemma digits_val_snoc: "digits_val (s @ [c]) = 10 * digits_val s + digit_val c"
  by (simp add: digits_val_def)

lemma digit_val_less: "is_digit c \<Longrightarrow> digit_val c < 10"
  unfolding is_digit_def digit_val_def by linarith

lemma digits_val_bound: "list_all is_digit s \<Longrightarrow> digits_val s < 10 ^ length s"
proof (induction s rule: rev_induct)
  case Nil
  then show ?case by (simp add: digits_val_def)
next
  case (snoc c s)
  then have "digits_val s < 10 ^ length s" "digit_val c < 10"
    by (auto intro: digit_val_less)
  then show ?case by (simp add: digits_val_snoc)
qed

end
