(* ===== verification/Disk.thy ===== *)
theory Disk
  imports Text
begin

text \<open>
  The cache directory as the program sees it through std::fs: a tree of directories and regular
  files (no symbolic links), given as a list of entries in the order readdir yields them, and the
  walks of src/src/utils.rs and src/src/cache/db.rs over it. The disk also names the paths whose
  unlink the kernel refuses (permission, immutable flag), so that every error branch is reachable.
\<close>

section \<open>The tree\<close>

record disk_file =
  f_data :: "u8 list"
  f_mode :: u32
  f_uid :: u32
  f_gid :: u32
  f_atime :: "int \<times> int"
  f_mtime :: "int \<times> int"

datatype node = DDir | DFile disk_file

record disk =
  ents :: "(path \<times> node) list"
  stuck :: "path list"

datatype io_error = NotFound | OtherIo

definition node_at :: "disk \<Rightarrow> path \<Rightarrow> node option" where
  "node_at d p = (if p = [] then Some DDir else map_of (ents d) p)"

definition path_exists :: "disk \<Rightarrow> path \<Rightarrow> bool" where
  "path_exists d p = (node_at d p \<noteq> None)"

definition is_dir_at :: "disk \<Rightarrow> path \<Rightarrow> bool" where
  "is_dir_at d p = (node_at d p = Some DDir)"

definition file_at :: "disk \<Rightarrow> path \<Rightarrow> disk_file option" where
  "file_at d p = (case node_at d p of Some (DFile f) \<Rightarrow> Some f | _ \<Rightarrow> None)"

definition is_file_at :: "disk \<Rightarrow> path \<Rightarrow> bool" where
  "is_file_at d p = (file_at d p \<noteq> None)"

text \<open>\<open>fs::metadata(p).map(|m| m.len())\<close>; a directory's length is the file system's business and
  taken as 0.\<close>

definition metadata_len :: "disk \<Rightarrow> path \<Rightarrow> nat option" where
  "metadata_len d p =
     (case node_at d p of None \<Rightarrow> None | Some DDir \<Rightarrow> Some 0 | Some (DFile f) \<Rightarrow> Some (length (f_data f)))"

definition read_dir :: "disk \<Rightarrow> path \<Rightarrow> path list" where
  "read_dir d p =
     (if is_dir_at d p then filter (\<lambda>q. q \<noteq> [] \<and> butlast q = p) (map fst (ents d)) else [])"

text \<open>A path below a regular file: the kernel answers ENOTDIR.\<close>

definition below_file :: "disk \<Rightarrow> path \<Rightarrow> bool" where
  "below_file d p = list_ex (is_file_at d) (map (\<lambda>i. take i p) [0..<length p])"

definition unlink_node :: "path \<Rightarrow> disk \<Rightarrow> disk" where
  "unlink_node p d = d\<lparr>ents := filter (\<lambda>e. fst e \<noteq> p) (ents d)\<rparr>"

definition put_node :: "path \<Rightarrow> node \<Rightarrow> disk \<Rightarrow> disk" where
  "put_node p n d = d\<lparr>ents := AList.update p n (ents d)\<rparr>"

definition remove_file :: "path \<Rightarrow> disk \<Rightarrow> io_error + disk" where
  "remove_file p d =
     (case node_at d p of
        None \<Rightarrow> Inl (if below_file d p then OtherIo else NotFound)
      | Some DDir \<Rightarrow> Inl OtherIo
      | Some (DFile _) \<Rightarrow> if p \<in> set (stuck d) then Inl OtherIo else Inr (unlink_node p d))"

text \<open>\<open>let _ = fs::remove_file(p)\<close>.\<close>

definition try_remove :: "path \<Rightarrow> disk \<Rightarrow> disk" where
  "try_remove p d = (case remove_file p d of Inl _ \<Rightarrow> d | Inr d' \<Rightarrow> d')"

text \<open>fs::create_dir_all: every missing directory from the root down; a file in the way is an
  error, the directories made before it stay.\<close>

fun make_dirs :: "path list \<Rightarrow> disk \<Rightarrow> bool \<times> disk" where
  "make_dirs [] d = (True, d)"
| "make_dirs (p # ps) d =
     (case node_at d p of
        Some DDir \<Rightarrow> make_dirs ps d
      | Some (DFile _) \<Rightarrow> (False, d)
      | None \<Rightarrow> make_dirs ps (put_node p DDir d))"

definition create_dir_all :: "path \<Rightarrow> disk \<Rightarrow> bool \<times> disk" where
  "create_dir_all p d = make_dirs (map (\<lambda>i. take i p) [0..<Suc (length p)]) d"

text \<open>OpenOptions write, create, truncate; \<open>fresh\<close> is the file the kernel makes for this process.\<close>

definition open_truncate :: "disk_file \<Rightarrow> path \<Rightarrow> disk \<Rightarrow> disk option" where
  "open_truncate fresh p d =
     (case node_at d p of
        Some DDir \<Rightarrow> None
      | Some (DFile f) \<Rightarrow> Some (put_node p (DFile (f\<lparr>f_data := []\<rparr>)) d)
      | None \<Rightarrow> if is_dir_at d (butlast p) then Some (put_node p (DFile (fresh\<lparr>f_data := []\<rparr>)) d) else None)"

definition modify_file :: "path \<Rightarrow> (disk_file \<Rightarrow> disk_file) \<Rightarrow> disk \<Rightarrow> disk" where
  "modify_file p g d = (case file_at d p of None \<Rightarrow> d | Some f \<Rightarrow> put_node p (DFile (g f)) d)"

definition rename_file :: "path \<Rightarrow> path \<Rightarrow> disk \<Rightarrow> disk option" where
  "rename_file p q d =
     (case file_at d p of
        None \<Rightarrow> None
      | Some f \<Rightarrow> if is_dir_at d q \<or> \<not> is_dir_at d (butlast q) then None
                 else Some (if p = q then d else put_node q (DFile f) (unlink_node p d)))"

text \<open>Well-formedness: each path once, and every entry in a directory.\<close>

definition disk_ok :: "disk \<Rightarrow> bool" where
  "disk_ok d = (distinct (map fst (ents d)) \<and>
     (\<forall>e \<in> set (ents d). fst e \<noteq> [] \<and> is_dir_at d (butlast (fst e))))"

section \<open>Walks\<close>

definition is_non_media_file :: "path \<Rightarrow> bool" where
  "is_non_media_file p =
     (let name = (case file_name p of None \<Rightarrow> [] | Some n \<Rightarrow> n)
      in ends_with name ''.partial'' \<or> ends_with name ''.db'' \<or> ends_with name ''.db-wal''
         \<or> ends_with name ''.db-shm'')"

definition height :: "disk \<Rightarrow> nat" where
  "height d = Max (insert 0 (set (map (length \<circ> fst) (ents d))))"

lemma length_le_height: "p \<in> set (map fst (ents d)) \<Longrightarrow> length p \<le> height d"
  by (auto simp: height_def intro!: Max_ge)

lemma read_dir_child: "q \<in> set (read_dir d p) \<Longrightarrow> length q = Suc (length p) \<and> length q \<le> height d"
  by (auto simp: read_dir_def length_le_height split: if_splits)

text \<open>The recursive walk of collect_cache_files_inner, with \<open>out\<close> as the result.\<close>

function collect_cache_files_inner :: "disk \<Rightarrow> path \<Rightarrow> path list" where
  "collect_cache_files_inner d p =
     concat (map (\<lambda>q. if is_dir_at d q then collect_cache_files_inner d q
                       else if \<not> is_non_media_file q then [q] else []) (read_dir d p))"
  by pat_completeness auto
termination
  by (relation "measure (\<lambda>(d, p). Suc (height d) - length p)") (auto dest: read_dir_child)

declare collect_cache_files_inner.simps [simp del]

definition collect_cache_files :: "disk \<Rightarrow> path \<Rightarrow> path list" where
  "collect_cache_files d dir = collect_cache_files_inner d dir"

text \<open>
  remove_partials deletes while it walks; the depth bound is the height of the tree, which no
  deletion increases.
\<close>

fun remove_partials_at :: "nat \<Rightarrow> path \<Rightarrow> disk \<Rightarrow> nat \<times> disk" where
  "remove_partials_at 0 p d = (0, d)"
| "remove_partials_at (Suc n) p d =
     foldl (\<lambda>(count, d) q.
        if is_dir_at d q
        then (case remove_partials_at n q d of (c, d') \<Rightarrow> (count + c, d'))
        else if extension q = Some ''partial''
             then (case remove_file q d of Inl _ \<Rightarrow> (count, d) | Inr d' \<Rightarrow> (Suc count, d'))
             else (count, d))
      (0, d) (read_dir d p)"

definition remove_partials :: "path \<Rightarrow> disk \<Rightarrow> nat \<times> disk" where
  "remove_partials p d = remove_partials_at (Suc (height d)) p d"

section \<open>Lemmas\<close>

lemma node_at_put [table_simps]:
  "p \<noteq> [] \<Longrightarrow> node_at (put_node p n d) q = (if q = p then Some n else node_at d q)"
  by (auto simp: node_at_def put_node_def update_conv')

lemma map_of_filter_fst: "map_of (filter (\<lambda>e. P (fst e)) xs) k = (if P k then map_of xs k else None)"
  by (induction xs) auto

lemma node_at_unlink [table_simps]:
  "p \<noteq> [] \<Longrightarrow> node_at (unlink_node p d) q = (if q = p then None else node_at d q)"
  by (auto simp: node_at_def unlink_node_def map_of_filter_fst [where P = "\<lambda>x. x \<noteq> p"])

lemma node_at_in: "p \<noteq> [] \<Longrightarrow> node_at d p = Some n \<Longrightarrow> (p, n) \<in> set (ents d)"
  by (auto simp: node_at_def map_of_SomeD)

lemma in_ents_node_at: "disk_ok d \<Longrightarrow> (p, n) \<in> set (ents d) \<Longrightarrow> node_at d p = Some n"
  by (force simp: node_at_def disk_ok_def)

lemma node_at_fst: "p \<noteq> [] \<Longrightarrow> node_at d p \<noteq> None \<longleftrightarrow> p \<in> set (map fst (ents d))"
  by (simp add: node_at_def map_of_eq_None_iff)

lemma read_dir_iff:
  "q \<in> set (read_dir d p) \<longleftrightarrow> is_dir_at d p \<and> q \<noteq> [] \<and> butlast q = p \<and> path_exists d q"
  using node_at_fst [of q d] by (auto simp: read_dir_def path_exists_def)

lemma disk_ok_parent: "disk_ok d \<Longrightarrow> path_exists d p \<Longrightarrow> p \<noteq> [] \<Longrightarrow> is_dir_at d (butlast p)"
  by (auto simp: path_exists_def disk_ok_def dest!: node_at_in)

lemma disk_ok_prefix:
  "disk_ok d \<Longrightarrow> path_exists d (p @ q) \<Longrightarrow> q \<noteq> [] \<Longrightarrow> is_dir_at d p"
proof (induction q rule: rev_induct)
  case Nil
  then show ?case by simp
next
  case (snoc x q)
  have dir: "is_dir_at d (p @ q)"
    using disk_ok_parent [OF snoc.prems(1,2)] by (simp add: butlast_append)
  show ?case
  proof (cases "q = []")
    case True
    with dir show ?thesis by simp
  next
    case False
    moreover have "path_exists d (p @ q)" using dir by (simp add: is_dir_at_def path_exists_def)
    ultimately show ?thesis using snoc.IH snoc.prems(1) by blast
  qed
qed

lemma dir_not_file: "is_dir_at d p \<Longrightarrow> \<not> is_file_at d p"
  by (simp add: is_dir_at_def is_file_at_def file_at_def)

lemma exists_dir_or_file: "path_exists d p \<longleftrightarrow> is_dir_at d p \<or> is_file_at d p"
  by (auto simp: path_exists_def is_dir_at_def is_file_at_def file_at_def
        split: option.splits node.splits)

text \<open>One level of a walk: a file below \<open>p\<close> is a child of \<open>p\<close> or below a child that is a directory.\<close>

lemma below_child:
  assumes "disk_ok d" and "is_dir_at d p"
  shows "strict_prefix p r \<and> is_file_at d r \<longleftrightarrow>
    (\<exists>q \<in> set (read_dir d p). if is_dir_at d q then strict_prefix q r \<and> is_file_at d r else r = q)"
    (is "?L \<longleftrightarrow> ?R")
proof
  assume ?R
  then obtain q where q: "q \<in> set (read_dir d p)"
    "if is_dir_at d q then strict_prefix q r \<and> is_file_at d r else r = q" by blast
  have "q \<noteq> []" "butlast q = p" "path_exists d q" using q(1) by (simp_all add: read_dir_iff)
  then have "strict_prefix p q"
    by (metis append_butlast_last_id strict_prefixI' append_Cons)
  with q(2) \<open>path_exists d q\<close> show ?L
    by (auto simp: exists_dir_or_file split: if_splits intro: prefix_order.less_trans)
next
  assume L: ?L
  then obtain x xs where r: "r = p @ x # xs" by (auto elim: strict_prefixE')
  have ex: "path_exists d r" using L by (simp add: exists_dir_or_file)
  let ?q = "p @ [x]"
  have dir: "is_dir_at d ?q" if "xs \<noteq> []"
    using disk_ok_prefix [of d ?q xs] assms(1) ex r that by simp
  have "path_exists d ?q"
    using dir r ex by (cases "xs = []") (auto simp: exists_dir_or_file)
  then have child: "?q \<in> set (read_dir d p)" using assms(2) by (simp add: read_dir_iff)
  have "if is_dir_at d ?q then strict_prefix ?q r \<and> is_file_at d r else r = ?q"
  proof (cases "is_dir_at d ?q")
    case True
    then have "?q \<noteq> r" using L dir_not_file by metis
    with True L r show ?thesis by (simp add: strict_prefix_def prefix_def)
  next
    case False
    with dir r show ?thesis by auto
  qed
  with child show ?R by blast
qed

lemma set_collect:
  assumes "disk_ok d" and "is_dir_at d p"
  shows "set (collect_cache_files d p) =
           {q. strict_prefix p q \<and> is_file_at d q \<and> \<not> is_non_media_file q}"
  using assms unfolding collect_cache_files_def
proof (induction d p rule: collect_cache_files_inner.induct)
  case (1 d p)
  have rec: "set (collect_cache_files_inner d q) =
      {r. strict_prefix q r \<and> is_file_at d r \<and> \<not> is_non_media_file r}"
    if "q \<in> set (read_dir d p)" "is_dir_at d q" for q
    using "1.IH" [of q] that "1.prems" by blast
  have "r \<in> set (collect_cache_files_inner d p) \<longleftrightarrow>
      (\<exists>q \<in> set (read_dir d p). if is_dir_at d q
          then strict_prefix q r \<and> is_file_at d r \<and> \<not> is_non_media_file r
          else \<not> is_non_media_file q \<and> r = q)" for r
    using rec by (subst collect_cache_files_inner.simps) (auto split: if_splits)
  moreover have "\<dots> r \<longleftrightarrow> strict_prefix p r \<and> is_file_at d r \<and> \<not> is_non_media_file r" for r
    using below_child [OF "1.prems", of r] by (auto split: if_splits)
  ultimately show ?case by blast
qed

text \<open>collect_cache_files lists exactly the regular files below the directory, at any depth,
  that are neither copies in progress nor database files.\<close>

theorem collect_cache_files_spec:
  assumes "disk_ok d" and "is_dir_at d p"
  shows "set (collect_cache_files d p) =
           {q. strict_prefix p q \<and> is_file_at d q \<and> \<not> is_non_media_file q}"
  using assms by (rule set_collect)

text \<open>Removing a set of files at once: what remove_partials amounts to.\<close>

definition purge :: "path set \<Rightarrow> disk \<Rightarrow> disk" where
  "purge S d = d\<lparr>ents := filter (\<lambda>e. fst e \<notin> S) (ents d)\<rparr>"

definition doomed_partial :: "disk \<Rightarrow> path \<Rightarrow> bool" where
  "doomed_partial d q = (is_file_at d q \<and> extension q = Some ''partial'' \<and> q \<notin> set (stuck d))"

lemma node_at_purge: "node_at (purge S d) q = (if q \<noteq> [] \<and> q \<in> S then None else node_at d q)"
  by (auto simp: node_at_def purge_def map_of_filter_fst [where P = "\<lambda>x. x \<notin> S"])

lemma purge_purge: "purge S (purge T d) = purge (T \<union> S) d"
  by (simp add: purge_def conj_commute)

lemma unlink_purge: "unlink_node q (purge S d) = purge (insert q S) d"
proof -
  have "unlink_node q e = purge {q} e" for e by (simp add: unlink_node_def purge_def)
  then show ?thesis by (simp add: purge_purge)
qed

lemma is_dir_purge: "\<forall>q \<in> S. is_file_at d q \<Longrightarrow> is_dir_at (purge S d) q = is_dir_at d q"
  by (auto simp: is_dir_at_def node_at_purge is_file_at_def file_at_def)

lemma purge_id: "purge {} d = d"
  by (simp add: purge_def)

lemma remove_purged:
  assumes "\<forall>r \<in> S. doomed_partial d r" and "extension q = Some ''partial''" and "\<not> is_dir_at d q"
    and "path_exists d q"
  shows "try_remove q (purge S d) = purge (S \<union> (if doomed_partial d q then {q} else {})) d"
proof (cases "q \<in> S")
  case True
  then have "doomed_partial d q" "q \<noteq> []" using assms by (auto simp: extension_def)
  then show ?thesis using True
    by (simp add: try_remove_def remove_file_def node_at_purge insert_absorb)
next
  case False
  have "is_file_at d q" using assms(3,4) by (simp add: exists_dir_or_file)
  then obtain f where "node_at d q = Some (DFile f)"
    by (auto simp: is_file_at_def file_at_def split: option.splits node.splits)
  then show ?thesis using False assms(2) \<open>is_file_at d q\<close>
    by (simp add: try_remove_def remove_file_def node_at_purge doomed_partial_def unlink_purge)
      (simp add: purge_def)
qed

text \<open>The body of the loop, named for the induction.\<close>

definition partials_step :: "nat \<Rightarrow> nat \<times> disk \<Rightarrow> path \<Rightarrow> nat \<times> disk" where
  "partials_step n = (\<lambda>(count, d) q.
        if is_dir_at d q
        then (case remove_partials_at n q d of (c, d') \<Rightarrow> (count + c, d'))
        else if extension q = Some ''partial''
             then (case remove_file q d of Inl _ \<Rightarrow> (count, d) | Inr d' \<Rightarrow> (Suc count, d'))
             else (count, d))"

lemma remove_partials_at_Suc:
  "remove_partials_at (Suc n) p d = foldl (partials_step n) (0, d) (read_dir d p)"
  by (simp add: partials_step_def)

definition below_doomed :: "disk \<Rightarrow> path \<Rightarrow> path set" where
  "below_doomed d p = {r. strict_prefix p r \<and> doomed_partial d r}"

definition child_doomed :: "disk \<Rightarrow> path \<Rightarrow> path set" where
  "child_doomed d q = (if is_dir_at d q then below_doomed d q
                       else if doomed_partial d q then {q} else {})"

lemma partials_step_purge:
  assumes "\<forall>r \<in> S. doomed_partial d r" and "path_exists d q"
    and "is_dir_at d q \<Longrightarrow> snd (remove_partials_at n q (purge S d)) = purge (S \<union> below_doomed d q) d"
  shows "snd (partials_step n (c, purge S d) q) = purge (S \<union> child_doomed d q) d"
proof -
  have files: "\<forall>r \<in> S. is_file_at d r" using assms(1) by (simp add: doomed_partial_def)
  show ?thesis
  proof (cases "is_dir_at d q")
    case True
    with assms(3) files show ?thesis
      by (auto simp: partials_step_def is_dir_purge child_doomed_def split: prod.split)
  next
    case False
    show ?thesis
    proof (cases "extension q = Some ''partial''")
      case True
      have "\<not> is_dir_at (purge S d) q" using False is_dir_purge [OF files] by simp
      with True have "snd (partials_step n (c, purge S d) q) = try_remove q (purge S d)"
        by (simp add: partials_step_def try_remove_def split: sum.splits)
      with remove_purged [OF assms(1) True False assms(2)] False show ?thesis
        by (simp add: child_doomed_def)
    next
      case False
      with \<open>\<not> is_dir_at d q\<close> files show ?thesis
        by (simp add: partials_step_def is_dir_purge child_doomed_def doomed_partial_def)
    qed
  qed
qed

lemma below_doomed_children:
  assumes "disk_ok d" and "is_dir_at d p"
  shows "below_doomed d p = (\<Union>q \<in> set (read_dir d p). child_doomed d q)"
proof -
  have "r \<in> below_doomed d p \<longleftrightarrow> (\<exists>q \<in> set (read_dir d p). r \<in> child_doomed d q)" for r
    using below_child [OF assms, of r]
    by (auto simp: below_doomed_def child_doomed_def doomed_partial_def split: if_splits)
  then show ?thesis by blast
qed

lemma child_doomed_doomed: "r \<in> child_doomed d q \<Longrightarrow> doomed_partial d r"
  by (auto simp: child_doomed_def below_doomed_def split: if_splits)

lemma remove_partials_at_spec:
  assumes "disk_ok d" and "is_dir_at d p" and "height d < n + length p"
    and "\<forall>r \<in> S. doomed_partial d r"
  shows "snd (remove_partials_at n p (purge S d)) = purge (S \<union> below_doomed d p) d"
  using assms(2-4)
proof (induction n arbitrary: p S)
  case 0
  have "read_dir d p = []"
    using 0 read_dir_child [of _ d p] by (cases "read_dir d p") force+
  then show ?case using below_doomed_children [OF assms(1) 0(1)] by simp
next
  case (Suc n)
  have fold: "snd (foldl (partials_step n) (c, purge T d) qs) =
      purge (T \<union> (\<Union>q \<in> set qs. child_doomed d q)) d"
    if "set qs \<subseteq> set (read_dir d p)" "\<forall>r \<in> T. doomed_partial d r" for qs c T
    using that
  proof (induction qs arbitrary: c T)
    case Nil
    then show ?case by simp
  next
    case (Cons q qs)
    have q: "q \<in> set (read_dir d p)" using Cons.prems by simp
    then have "path_exists d q" "height d < n + length q"
      using Suc.prems(2) read_dir_child [of q d p] by (simp_all add: read_dir_iff)
    have "snd (remove_partials_at n q (purge T d)) = purge (T \<union> below_doomed d q) d"
      if "is_dir_at d q"
      using Suc.IH [OF that \<open>height d < n + length q\<close> Cons.prems(2)] .
    then have "snd (partials_step n (c, purge T d) q) = purge (T \<union> child_doomed d q) d"
      using partials_step_purge [OF Cons.prems(2) \<open>path_exists d q\<close>] by blast
    then obtain c' where step: "partials_step n (c, purge T d) q = (c', purge (T \<union> child_doomed d q) d)"
      by (cases "partials_step n (c, purge T d) q") auto
    have "\<forall>r \<in> T \<union> child_doomed d q. doomed_partial d r"
      using Cons.prems(2) child_doomed_doomed by blast
    from Cons.IH [OF _ this] Cons.prems(1) show ?case
      by (simp only: foldl_Cons step) (simp add: Un_assoc)
  qed
  have files: "\<forall>r \<in> S. is_file_at d r" using Suc.prems(3) by (simp add: doomed_partial_def)
  have dirp: "is_dir_at (purge S d) p" using Suc.prems(1) files by (simp add: is_dir_purge)
  have sub: "set (read_dir (purge S d) p) \<subseteq> set (read_dir d p)"
    using dirp Suc.prems(1) by (auto simp: read_dir_def purge_def)
  have rest: "child_doomed d q \<subseteq> S" if "q \<in> set (read_dir d p)" "q \<notin> set (read_dir (purge S d) p)" for q
  proof -
    have "q \<in> S" using that dirp by (auto simp: read_dir_iff path_exists_def node_at_purge split: if_splits)
    with files dir_not_file show ?thesis by (auto simp: child_doomed_def)
  qed
  have "S \<union> (\<Union>q \<in> set (read_dir (purge S d) p). child_doomed d q) = S \<union> below_doomed d p"
    unfolding below_doomed_children [OF assms(1) Suc.prems(1)] using sub rest by blast
  with fold [OF sub Suc.prems(3), of 0] show ?case
    by (simp only: remove_partials_at_Suc)
qed

lemma remove_partials_eq:
  "disk_ok d \<Longrightarrow> is_dir_at d p \<Longrightarrow> snd (remove_partials p d) = purge (below_doomed d p) d"
  using remove_partials_at_spec [of d p "Suc (height d)" "{}"] by (simp add: remove_partials_def purge_id)

text \<open>The start-up sweep removes every copy in progress below the cache directory, at any depth,
  whose unlink the kernel allows, and touches nothing else; the depth bound is always enough.\<close>

theorem remove_partials_spec:
  assumes "disk_ok d" and "is_dir_at d p"
  shows "snd (remove_partials p d) =
    d\<lparr>ents := filter (\<lambda>e. \<not> (strict_prefix p (fst e) \<and> doomed_partial d (fst e))) (ents d)\<rparr>"
  using remove_partials_eq [OF assms] by (simp add: purge_def below_doomed_def)

lemma disk_ok_purge:
  assumes "disk_ok d" and "\<forall>r \<in> S. is_file_at d r"
  shows "disk_ok (purge S d)"
proof -
  have "is_dir_at (purge S d) (butlast (fst e))" if "e \<in> set (ents d)" for e
    using assms that by (simp add: is_dir_purge disk_ok_def)
  then show ?thesis using assms(1)
    by (auto simp: disk_ok_def purge_def distinct_map inj_on_def)
qed

lemma disk_ok_unlink: "disk_ok d \<Longrightarrow> is_file_at d p \<Longrightarrow> disk_ok (unlink_node p d)"
  using disk_ok_purge [of d "{p}"] unlink_purge [of p "{}" d] by (simp add: purge_id)

lemma remove_file_Inr: "remove_file p d = Inr d' \<Longrightarrow> is_file_at d p \<and> d' = unlink_node p d"
  by (auto simp: remove_file_def is_file_at_def file_at_def split: option.splits node.splits if_splits)

lemma disk_ok_remove_file: "disk_ok d \<Longrightarrow> remove_file p d = Inr d' \<Longrightarrow> disk_ok d'"
  by (auto dest!: remove_file_Inr intro: disk_ok_unlink)

lemma disk_ok_put_file:
  assumes "disk_ok d" and "p \<noteq> []" and "is_dir_at d (butlast p)" and "\<not> is_dir_at d p"
  shows "disk_ok (put_node p (DFile f) d)"
proof -
  have "distinct (map fst (AList.update p (DFile f) (ents d)))"
    using assms(1) by (simp add: disk_ok_def distinct_update)
  moreover have "fst e \<noteq> [] \<and> is_dir_at d (butlast (fst e))"
    if "e \<in> set (AList.update p (DFile f) (ents d))" for e
  proof (cases "fst e = p")
    case True
    with assms show ?thesis by simp
  next
    case False
    then have "map_of (ents d) (fst e) \<noteq> None"
      using that calculation map_of_is_SomeI [of "AList.update p (DFile f) (ents d)" "fst e" "snd e"]
      by (simp add: update_conv')
    then show ?thesis using assms(1) by (force simp: disk_ok_def map_of_eq_None_iff)
  qed
  moreover have "is_dir_at (put_node p (DFile f) d) q" if "is_dir_at d q" for q
    using assms that by (auto simp: is_dir_at_def node_at_put)
  ultimately show ?thesis by (simp add: disk_ok_def put_node_def)
qed

section \<open>A cache directory\<close>

text \<open>A cache directory with a nested file, a database file and two copies in progress, one of
  which the kernel will not unlink.\<close>

definition sample_file :: "u8 list \<Rightarrow> disk_file" where
  "sample_file bs = \<lparr>f_data = bs, f_mode = 0x1A4, f_uid = 0, f_gid = 0, f_atime = (0, 0), f_mtime = (0, 0)\<rparr>"

definition sample_disk :: disk where
  "sample_disk = \<lparr>ents =
     [([''c''], DDir), ([''c'', ''tv''], DDir), ([''c'', ''tv'', ''a.mkv''], DFile (sample_file [1, 2, 3])),
      ([''c'', ''tv'', ''b.mkv.partial''], DFile (sample_file [1])),
      ([''c'', ''d.mkv.partial''], DFile (sample_file [])),
      ([''c'', ''fscache.db''], DFile (sample_file [7]))],
     stuck = [[''c'', ''d.mkv.partial'']]\<rparr>"

lemma sample_disk_ok: "disk_ok sample_disk" "is_dir_at sample_disk [''c'']"
  by (simp_all add: disk_ok_def sample_disk_def is_dir_at_def node_at_def)

theorem collect_cache_files_spec_witness:
  "set (collect_cache_files sample_disk [''c'']) =
     {q. strict_prefix [''c''] q \<and> is_file_at sample_disk q \<and> \<not> is_non_media_file q}"
  by (rule collect_cache_files_spec [OF sample_disk_ok])

theorem remove_partials_spec_witness:
  "map fst (ents (snd (remove_partials [''c''] sample_disk))) =
     [[''c''], [''c'', ''tv''], [''c'', ''tv'', ''a.mkv''], [''c'', ''d.mkv.partial''], [''c'', ''fscache.db'']]"
  by (subst remove_partials_spec [OF sample_disk_ok])
    (simp add: sample_disk_def doomed_partial_def is_file_at_def file_at_def node_at_def extension_def
      name_extension_def strict_prefix_def)

end
