(* ===== verification/BackingStore.thy ===== *)
theory BackingStore
  imports Prelude
begin

text \<open>
  The backing store (src/src/backing_store.rs), read side: lookups relative to the O_PATH descriptor
  taken before the overmount. The kernel is not part of the program: its answers are the fields of a
  record that every definition takes as an argument, and they may change between two calls.
\<close>

type_synonym errno = int
type_synonym fd = nat

record stat =
  st_size :: int
  st_blocks :: int
  st_atime :: int
  st_atime_nsec :: int
  st_mtime :: int
  st_mtime_nsec :: int
  st_ctime :: int
  st_ctime_nsec :: int
  st_mode :: u32
  st_nlink :: nat
  st_uid :: u32
  st_gid :: u32
  st_rdev :: nat
  st_blksize :: int

definition S_IFMT :: u32 where "S_IFMT = 0xF000"
definition S_IFDIR :: u32 where "S_IFDIR = 0x4000"
definition S_IFREG :: u32 where "S_IFREG = 0x8000"
definition S_IFLNK :: u32 where "S_IFLNK = 0xA000"
definition S_IFBLK :: u32 where "S_IFBLK = 0x6000"
definition S_IFCHR :: u32 where "S_IFCHR = 0x2000"
definition S_IFIFO :: u32 where "S_IFIFO = 0x1000"
definition S_IFSOCK :: u32 where "S_IFSOCK = 0xC000"
definition S_ISGID :: u32 where "S_ISGID = 0x400"

text \<open>
  \<open>k_fstatat\<close>: the stat of a path, links not followed; \<open>k_openat\<close>: a read-only descriptor or an
  errno; \<open>k_fstat\<close>: the stat behind a descriptor; \<open>k_readdir\<close>: the names readdir yields for a
  directory, dot entries included, None when openat or fdopendir fails.
\<close>

record backing_kernel =
  k_fstatat :: "path \<Rightarrow> stat option"
  k_openat :: "path \<Rightarrow> errno + fd"
  k_fstat :: "fd \<Rightarrow> stat option"
  k_readdir :: "path \<Rightarrow> string list option"

definition bs_stat :: "backing_kernel \<Rightarrow> path \<Rightarrow> stat option" where
  "bs_stat k rel = k_fstatat k rel"

definition open_file :: "backing_kernel \<Rightarrow> path \<Rightarrow> errno + fd" where
  "open_file k rel = k_openat k rel"

definition file_size :: "backing_kernel \<Rightarrow> path \<Rightarrow> nat option" where
  "file_size k rel =
     (case open_file k rel of
        Inl _ \<Rightarrow> None
      | Inr fd \<Rightarrow> map_option (\<lambda>st. as_u64 (st_size st)) (k_fstat k fd))"

definition file_size_or_0 :: "backing_kernel \<Rightarrow> path \<Rightarrow> nat" where
  "file_size_or_0 k rel = (case file_size k rel of None \<Rightarrow> 0 | Some n \<Rightarrow> n)"

definition is_dir :: "backing_kernel \<Rightarrow> path \<Rightarrow> bool" where
  "is_dir k rel =
     (case bs_stat k rel of None \<Rightarrow> False | Some s \<Rightarrow> st_mode s AND S_IFMT = S_IFDIR)"

definition list_dir :: "backing_kernel \<Rightarrow> path \<Rightarrow> string list" where
  "list_dir k rel_dir =
     (case k_readdir k rel_dir of
        None \<Rightarrow> []
      | Some names \<Rightarrow> filter (\<lambda>n. n \<noteq> ''.'' \<and> n \<noteq> ''..'') names)"

lemma list_dir_no_dots: "n \<in> set (list_dir k d) \<Longrightarrow> n \<noteq> ''.'' \<and> n \<noteq> ''..''"
  by (auto simp: list_dir_def split: option.splits)

lemma file_size_or_0_less: "file_size_or_0 k p < 2 ^ 64"
proof -
  have "as_u64 i < 2 ^ 64" for i by (simp add: as_u64_def nat_less_iff)
  then show ?thesis
    by (auto simp: file_size_or_0_def file_size_def split: option.splits sum.splits)
qed

end
