(* ===== verification/CacheDb.thy ===== *)
theory CacheDb
  imports Disk BackingStore "HOL-Library.List_Lexorder" "HOL-Library.Char_ord" "HOL-Library.Multiset"
begin

text \<open>
  The metadata database (src/src/cache/db.rs). A table is the list of its rows in rowid order; every
  statement of the code is the list operation it denotes. INTEGER columns hold i64 values (int), and
  the casts of the code between u64, u32 and i64 are written out. A statement fails when the
  database is unusable, a write also when the connection is query_only; the code then takes its
  fallback (an empty result, or the error is dropped). The clock is the argument \<open>now\<close>.
\<close>

section \<open>Source metadata\<close>

record fingerprint =
  fp_mtime_secs :: int
  fp_mtime_nsecs :: int
  fp_size_bytes :: nat

record source_metadata =
  sm_size :: nat
  sm_blocks :: nat
  sm_atime_sec :: int
  sm_atime_nsec :: int
  sm_mtime_sec :: int
  sm_mtime_nsec :: int
  sm_ctime_sec :: int
  sm_ctime_nsec :: int
  sm_mode :: u32
  sm_nlink :: nat
  sm_uid :: u32
  sm_gid :: u32
  sm_rdev :: nat
  sm_blksize :: u32

text \<open>std's Metadata is the fstat of the descriptor: unsigned readings of the same fields.\<close>

definition from_metadata :: "stat \<Rightarrow> source_metadata" where
  "from_metadata m =
     \<lparr>sm_size = as_u64 (st_size m), sm_blocks = as_u64 (st_blocks m),
      sm_atime_sec = st_atime m, sm_atime_nsec = st_atime_nsec m,
      sm_mtime_sec = st_mtime m, sm_mtime_nsec = st_mtime_nsec m,
      sm_ctime_sec = st_ctime m, sm_ctime_nsec = st_ctime_nsec m,
      sm_mode = st_mode m, sm_nlink = st_nlink m, sm_uid = st_uid m, sm_gid = st_gid m,
      sm_rdev = st_rdev m, sm_blksize = word_of_int (st_blksize m)\<rparr>"

definition from_stat :: "stat \<Rightarrow> source_metadata" where
  "from_stat st =
     \<lparr>sm_size = max0_u64 (st_size st), sm_blocks = max0_u64 (st_blocks st),
      sm_atime_sec = st_atime st, sm_atime_nsec = st_atime_nsec st,
      sm_mtime_sec = st_mtime st, sm_mtime_nsec = st_mtime_nsec st,
      sm_ctime_sec = st_ctime st, sm_ctime_nsec = st_ctime_nsec st,
      sm_mode = st_mode st, sm_nlink = st_nlink st, sm_uid = st_uid st, sm_gid = st_gid st,
      sm_rdev = st_rdev st, sm_blksize = word_of_int (st_blksize st)\<rparr>"

definition has_snapshot :: "source_metadata \<Rightarrow> bool" where
  "has_snapshot m = (sm_mode m \<noteq> 0)"

definition attrs_match :: "source_metadata \<Rightarrow> source_metadata \<Rightarrow> bool" where
  "attrs_match a b =
     (sm_mode a = sm_mode b \<and> sm_uid a = sm_uid b \<and> sm_gid a = sm_gid b \<and>
      sm_nlink a = sm_nlink b \<and> sm_ctime_sec a = sm_ctime_sec b \<and>
      sm_ctime_nsec a = sm_ctime_nsec b)"

definition test_file :: "nat \<Rightarrow> int \<Rightarrow> int \<Rightarrow> source_metadata" where
  "test_file sz mtime_sec mtime_nsec =
     \<lparr>sm_size = sz, sm_blocks = (sz + 511) div 512,
      sm_atime_sec = mtime_sec, sm_atime_nsec = mtime_nsec,
      sm_mtime_sec = mtime_sec, sm_mtime_nsec = mtime_nsec,
      sm_ctime_sec = mtime_sec, sm_ctime_nsec = mtime_nsec,
      sm_mode = S_IFREG OR 0x1A4, sm_nlink = 1, sm_uid = 0, sm_gid = 0, sm_rdev = 0,
      sm_blksize = 4096\<rparr>"

section \<open>Tables\<close>

record source_columns =
  c_mtime_secs :: int
  c_mtime_nsecs :: int
  c_size_bytes :: int
  c_blocks :: int
  c_atime_sec :: int
  c_atime_nsec :: int
  c_ctime_sec :: int
  c_ctime_nsec :: int
  c_mode :: int
  c_nlink :: int
  c_uid :: int
  c_gid :: int
  c_rdev :: int
  c_blksize :: int

record cache_row =
  r_rel_path :: path
  r_mount_id :: path
  r_size_bytes :: int
  r_cached_at :: int
  r_last_hit_at :: int
  r_hit_count :: int
  r_source :: source_columns

record deferred_row =
  d_key :: path
  d_path :: path
  d_timestamp :: int

record access_row =
  a_bucket_epoch :: int
  a_process_name :: string
  a_op_kind :: string
  a_count :: int
  a_first_seen :: int
  a_last_seen :: int
  a_sample_cmdline :: "string option"
  a_sample_ancestors :: "string option"

record cache_db =
  cache_files :: "cache_row list"
  deferred_events :: "deferred_row list"
  process_access :: "access_row list"
  db_usable :: bool
  db_query_only :: bool

definition row_key :: "cache_row \<Rightarrow> path \<times> path" where
  "row_key r = (r_rel_path r, r_mount_id r)"

definition access_key :: "access_row \<Rightarrow> int \<times> string \<times> string" where
  "access_key r = (a_bucket_epoch r, a_process_name r, a_op_kind r)"

text \<open>\<open>prepare_cached(..).and_then(execute)\<close>, with the result dropped.\<close>

definition execute :: "(cache_db \<Rightarrow> cache_db) \<Rightarrow> cache_db \<Rightarrow> cache_db" where
  "execute f db = (if db_usable db \<and> \<not> db_query_only db then f db else db)"

definition no_columns :: source_columns where
  "no_columns = \<lparr>c_mtime_secs = 0, c_mtime_nsecs = 0, c_size_bytes = 0, c_blocks = 0,
     c_atime_sec = 0, c_atime_nsec = 0, c_ctime_sec = 0, c_ctime_nsec = 0, c_mode = 0,
     c_nlink = 0, c_uid = 0, c_gid = 0, c_rdev = 0, c_blksize = 0\<rparr>"

definition columns_of :: "source_metadata \<Rightarrow> source_columns" where
  "columns_of s = \<lparr>c_mtime_secs = sm_mtime_sec s, c_mtime_nsecs = sm_mtime_nsec s,
     c_size_bytes = as_i64 (sm_size s), c_blocks = as_i64 (sm_blocks s),
     c_atime_sec = sm_atime_sec s, c_atime_nsec = sm_atime_nsec s,
     c_ctime_sec = sm_ctime_sec s, c_ctime_nsec = sm_ctime_nsec s,
     c_mode = uint (sm_mode s), c_nlink = as_i64 (sm_nlink s), c_uid = uint (sm_uid s),
     c_gid = uint (sm_gid s), c_rdev = as_i64 (sm_rdev s), c_blksize = uint (sm_blksize s)\<rparr>"

definition metadata_of :: "source_columns \<Rightarrow> source_metadata" where
  "metadata_of c = \<lparr>sm_size = max0_u64 (c_size_bytes c), sm_blocks = max0_u64 (c_blocks c),
     sm_atime_sec = c_atime_sec c, sm_atime_nsec = c_atime_nsec c,
     sm_mtime_sec = c_mtime_secs c, sm_mtime_nsec = c_mtime_nsecs c,
     sm_ctime_sec = c_ctime_sec c, sm_ctime_nsec = c_ctime_nsec c,
     sm_mode = max0_u32 (c_mode c), sm_nlink = max0_u64 (c_nlink c), sm_uid = max0_u32 (c_uid c),
     sm_gid = max0_u32 (c_gid c), sm_rdev = max0_u64 (c_rdev c), sm_blksize = max0_u32 (c_blksize c)\<rparr>"

section \<open>Cached files\<close>

definition db_mark_cached :: "nat \<Rightarrow> path \<Rightarrow> path \<Rightarrow> source_metadata \<Rightarrow> cache_db \<Rightarrow> cache_db" where
  "db_mark_cached now rel mount s = execute (\<lambda>db. db\<lparr>cache_files :=
     row_replace row_key
       \<lparr>r_rel_path = rel, r_mount_id = mount, r_size_bytes = as_i64 (sm_size s),
        r_cached_at = as_i64 now, r_last_hit_at = as_i64 now, r_hit_count = 1,
        r_source = columns_of s\<rparr> (cache_files db)\<rparr>)"

definition db_update_source_metadata :: "path \<Rightarrow> path \<Rightarrow> source_metadata \<Rightarrow> cache_db \<Rightarrow> cache_db" where
  "db_update_source_metadata rel mount s = execute (\<lambda>db. db\<lparr>cache_files :=
     row_update row_key (rel, mount) (\<lambda>r. r\<lparr>r_source := columns_of s\<rparr>) (cache_files db)\<rparr>)"

definition db_mark_hit :: "nat \<Rightarrow> path \<Rightarrow> path \<Rightarrow> cache_db \<Rightarrow> cache_db" where
  "db_mark_hit now rel mount = execute (\<lambda>db. db\<lparr>cache_files :=
     row_update row_key (rel, mount)
       (\<lambda>r. r\<lparr>r_last_hit_at := as_i64 now, r_hit_count := r_hit_count r + 1\<rparr>) (cache_files db)\<rparr>)"

definition db_remove :: "path \<Rightarrow> path \<Rightarrow> cache_db \<Rightarrow> cache_db" where
  "db_remove rel mount = execute (\<lambda>db. db\<lparr>cache_files :=
     row_delete row_key (rel, mount) (cache_files db)\<rparr>)"

definition set_last_hit_at :: "path \<Rightarrow> path \<Rightarrow> int \<Rightarrow> cache_db \<Rightarrow> cache_db" where
  "set_last_hit_at rel mount ts = execute (\<lambda>db. db\<lparr>cache_files :=
     row_update row_key (rel, mount) (\<lambda>r. r\<lparr>r_last_hit_at := ts\<rparr>) (cache_files db)\<rparr>)"

definition mount_rows :: "path \<Rightarrow> cache_db \<Rightarrow> cache_row list" where
  "mount_rows mount db = filter (\<lambda>r. r_mount_id r = mount) (cache_files db)"

definition path_size :: "cache_row \<Rightarrow> path \<times> nat" where
  "path_size r = (r_rel_path r, max0_u64 (r_size_bytes r))"

text \<open>LIMIT with a negative bound is no limit; \<open>usize::MAX as i64\<close> is negative.\<close>

definition sql_limit :: "nat \<Rightarrow> 'a list \<Rightarrow> 'a list" where
  "sql_limit n rows = (if as_i64 n < 0 then rows else take (nat (as_i64 n)) rows)"

definition eviction_candidates :: "path \<Rightarrow> nat \<Rightarrow> cache_db \<Rightarrow> (path \<times> nat) list" where
  "eviction_candidates mount limit db =
     (if db_usable db
      then map path_size (sql_limit limit (sort_key r_last_hit_at (mount_rows mount db))) else [])"

definition expired_files :: "nat \<Rightarrow> path \<Rightarrow> nat \<Rightarrow> cache_db \<Rightarrow> (path \<times> nat) list" where
  "expired_files now mount expiry_secs db =
     (let cutoff = as_i64 (now - expiry_secs)
      in if db_usable db
         then map path_size (filter (\<lambda>r. r_last_hit_at r < cutoff) (mount_rows mount db)) else [])"

text \<open>SQLite's SUM over integers is an error as soon as the running sum leaves i64.\<close>

fun sql_sum :: "int \<Rightarrow> int list \<Rightarrow> int option" where
  "sql_sum acc [] = Some acc"
| "sql_sum acc (x # xs) =
     (if - (2 ^ 63) \<le> acc + x \<and> acc + x < 2 ^ 63 then sql_sum (acc + x) xs else None)"

definition sum_bytes :: "cache_db \<Rightarrow> cache_row list \<Rightarrow> nat" where
  "sum_bytes db rows =
     max0_u64 (case (if db_usable db then sql_sum 0 (map r_size_bytes rows) else None) of
                 None \<Rightarrow> 0 | Some s \<Rightarrow> s)"

definition total_cached_bytes :: "path \<Rightarrow> cache_db \<Rightarrow> nat" where
  "total_cached_bytes mount db = sum_bytes db (mount_rows mount db)"

definition total_cached_bytes_global :: "cache_db \<Rightarrow> nat" where
  "total_cached_bytes_global db = sum_bytes db (cache_files db)"

definition find_row :: "path \<Rightarrow> path \<Rightarrow> cache_db \<Rightarrow> cache_row option" where
  "find_row rel mount db =
     (if db_usable db then row_lookup row_key (rel, mount) (cache_files db) else None)"

definition source_metadata_row :: "path \<Rightarrow> path \<Rightarrow> cache_db \<Rightarrow> source_metadata option" where
  "source_metadata_row rel mount db =
     (case find_row rel mount db of
        None \<Rightarrow> None
      | Some r \<Rightarrow> (let meta = metadata_of (r_source r) in if has_snapshot meta then Some meta else None))"

definition row_fingerprint :: "cache_row \<Rightarrow> fingerprint" where
  "row_fingerprint r = \<lparr>fp_mtime_secs = c_mtime_secs (r_source r),
     fp_mtime_nsecs = c_mtime_nsecs (r_source r), fp_size_bytes = max0_u64 (r_size_bytes r)\<rparr>"

definition fingerprint_row :: "path \<Rightarrow> path \<Rightarrow> cache_db \<Rightarrow> fingerprint option" where
  "fingerprint_row rel mount db = map_option row_fingerprint (find_row rel mount db)"

definition all_fingerprints :: "path \<Rightarrow> cache_db \<Rightarrow> (path \<times> fingerprint) list" where
  "all_fingerprints mount db =
     (if db_usable db then map (\<lambda>r. (r_rel_path r, row_fingerprint r)) (mount_rows mount db) else [])"

definition client_files_for_mount :: "path \<Rightarrow> cache_db \<Rightarrow> nat \<times> (path \<times> nat \<times> nat \<times> nat) list" where
  "client_files_for_mount mount db =
     (if \<not> db_usable db then (0, [])
      else let rows = map (\<lambda>r. (r_rel_path r, max0_u64 (r_size_bytes r), max0_u64 (r_cached_at r),
                                 max0_u64 (r_last_hit_at r))) (mount_rows mount db)
           in (foldl (\<lambda>acc (_, s, _, _). add64 acc s) 0 rows, rows))"

definition file_timestamps :: "path \<Rightarrow> cache_db \<Rightarrow> path \<rightharpoonup> nat \<times> nat" where
  "file_timestamps mount db =
     (if \<not> db_usable db then Map.empty
      else foldl (\<lambda>m r. m(r_rel_path r \<mapsto> (max0_u64 (r_cached_at r), max0_u64 (r_last_hit_at r))))
             Map.empty (mount_rows mount db))"

section \<open>Start-up reconciliation\<close>

text \<open>The three passes of reconcile_with_disk: purge partials, purge orphan rows, insert rows for
  files that have none.\<close>

definition purge_orphans :: "disk \<Rightarrow> path \<Rightarrow> path \<Rightarrow> cache_db \<Rightarrow> cache_db" where
  "purge_orphans d cache_dir mount db =
     foldl (\<lambda>db rel. if \<not> path_exists d (join cache_dir rel) then db_remove rel mount db else db)
       db (map r_rel_path (mount_rows mount db))"

definition recover_file :: "nat \<Rightarrow> disk \<Rightarrow> path \<Rightarrow> path \<Rightarrow> cache_db \<Rightarrow> path \<Rightarrow> cache_db" where
  "recover_file now d cache_dir mount db abs_path =
     (case strip_prefix abs_path cache_dir of
        None \<Rightarrow> db
      | Some rel \<Rightarrow>
          if find_row rel mount db \<noteq> None then db
          else (let size = (case metadata_len d abs_path of None \<Rightarrow> 0 | Some n \<Rightarrow> n)
                in execute (\<lambda>db. db\<lparr>cache_files := cache_files db @
                     [\<lparr>r_rel_path = rel, r_mount_id = mount, r_size_bytes = as_i64 size,
                       r_cached_at = as_i64 now, r_last_hit_at = as_i64 now, r_hit_count = 0,
                       r_source = no_columns\<rparr>]\<rparr>) db))"

definition reconcile_with_disk :: "nat \<Rightarrow> path \<Rightarrow> path \<Rightarrow> disk \<Rightarrow> cache_db \<Rightarrow> disk \<times> cache_db" where
  "reconcile_with_disk now cache_dir mount d db =
     (let d1 = snd (remove_partials cache_dir d)
      in if \<not> db_usable db then (d1, db)
         else (d1, foldl (recover_file now d1 cache_dir mount) (purge_orphans d1 cache_dir mount db)
                     (collect_cache_files d1 cache_dir)))"

section \<open>Deferred events\<close>

definition save_deferred :: "path \<Rightarrow> path \<Rightarrow> nat \<Rightarrow> cache_db \<Rightarrow> cache_db" where
  "save_deferred key p ts = execute (\<lambda>db. db\<lparr>deferred_events :=
     row_replace d_key \<lparr>d_key = key, d_path = p, d_timestamp = as_i64 ts\<rparr> (deferred_events db)\<rparr>)"

definition load_deferred :: "nat \<Rightarrow> nat \<Rightarrow> cache_db \<Rightarrow> (path \<times> path \<times> nat) list" where
  "load_deferred now ttl_minutes db =
     (let cutoff = as_i64 (now - mul64 ttl_minutes 60)
      in if db_usable db
         then map (\<lambda>r. (d_key r, d_path r, as_u64 (d_timestamp r)))
                (filter (\<lambda>r. d_timestamp r \<ge> cutoff) (deferred_events db))
         else [])"

definition remove_deferred :: "path \<Rightarrow> cache_db \<Rightarrow> cache_db" where
  "remove_deferred key = execute (\<lambda>db. db\<lparr>deferred_events := row_delete d_key key (deferred_events db)\<rparr>)"

section \<open>Process discovery\<close>

record process_access_row =
  pr_bucket_epoch :: int
  pr_process_name :: string
  pr_op_kind :: string
  pr_count :: nat
  pr_sample_cmdline :: "string option"
  pr_sample_ancestors :: "string option"

record process_summary =
  ps_process_name :: string
  ps_hit :: nat
  ps_miss :: nat
  ps_meta :: nat
  ps_total :: nat
  ps_first_seen :: int
  ps_sample_cmdline :: "string option"
  ps_sample_ancestors :: "string option"

definition coalesce :: "'a option \<Rightarrow> 'a option \<Rightarrow> 'a option" where
  "coalesce a b = (case a of None \<Rightarrow> b | Some _ \<Rightarrow> a)"

definition upsert_one :: "access_row list \<Rightarrow> process_access_row \<Rightarrow> access_row list" where
  "upsert_one t r =
     (let k = (pr_bucket_epoch r, pr_process_name r, pr_op_kind r)
      in if row_lookup access_key k t = None
         then t @ [\<lparr>a_bucket_epoch = pr_bucket_epoch r, a_process_name = pr_process_name r,
                    a_op_kind = pr_op_kind r, a_count = as_i64 (pr_count r),
                    a_first_seen = pr_bucket_epoch r, a_last_seen = pr_bucket_epoch r,
                    a_sample_cmdline = pr_sample_cmdline r,
                    a_sample_ancestors = pr_sample_ancestors r\<rparr>]
         else row_update access_key k (\<lambda>a. a\<lparr>a_count := a_count a + as_i64 (pr_count r),
                a_last_seen := max (a_last_seen a) (pr_bucket_epoch r),
                a_sample_cmdline := coalesce (a_sample_cmdline a) (pr_sample_cmdline r),
                a_sample_ancestors := coalesce (a_sample_ancestors a) (pr_sample_ancestors r)\<rparr>) t)"

definition upsert_process_access :: "process_access_row list \<Rightarrow> cache_db \<Rightarrow> cache_db option" where
  "upsert_process_access rows db =
     (if \<not> db_usable db \<or> (db_query_only db \<and> rows \<noteq> []) then None
      else Some (db\<lparr>process_access := foldl upsert_one (process_access db) rows\<rparr>))"

text \<open>MAX over a nullable text column: NULLs are skipped.\<close>

definition max_text :: "string option list \<Rightarrow> string option" where
  "max_text xs =
     foldl (\<lambda>m x. case (m, x) of (None, y) \<Rightarrow> y | (Some a, None) \<Rightarrow> Some a | (Some a, Some b) \<Rightarrow> Some (max a b))
       None xs"

definition kind_count :: "string \<Rightarrow> access_row \<Rightarrow> int" where
  "kind_count kind a = (if a_op_kind a = kind then a_count a else 0)"

definition summarize :: "access_row list \<Rightarrow> string \<Rightarrow> process_summary option" where
  "summarize rows name =
     (let g = filter (\<lambda>a. a_process_name a = name) rows
      in (case (sql_sum 0 (map (kind_count ''hit'') g), sql_sum 0 (map (kind_count ''miss'') g),
                sql_sum 0 (map (kind_count ''meta'') g), sql_sum 0 (map a_count g)) of
            (Some h, Some m, Some e, Some t) \<Rightarrow>
              Some \<lparr>ps_process_name = name, ps_hit = max0_u64 h, ps_miss = max0_u64 m,
                    ps_meta = max0_u64 e, ps_total = max0_u64 t,
                    ps_first_seen = (case map a_first_seen g of [] \<Rightarrow> 0 | x # xs \<Rightarrow> foldl min x xs),
                    ps_sample_cmdline = max_text (map a_sample_cmdline g),
                    ps_sample_ancestors = max_text (map a_sample_ancestors g)\<rparr>
          | _ \<Rightarrow> None))"

definition group_total :: "access_row list \<Rightarrow> string \<Rightarrow> int" where
  "group_total rows name = sum_list (map a_count (filter (\<lambda>a. a_process_name a = name) rows))"

definition summary_rows :: "int \<Rightarrow> nat \<Rightarrow> cache_db \<Rightarrow> process_summary list" where
  "summary_rows since limit db =
     (let rows = filter (\<lambda>a. a_bucket_epoch a \<ge> since) (process_access db);
          names = sort (remdups (map a_process_name rows))
      in if list_ex (\<lambda>n. summarize rows n = None) names then []
         else List.map_filter (summarize rows)
                (sql_limit limit (sort_key (\<lambda>n. - group_total rows n) names)))"

definition kind_keeps :: "string \<Rightarrow> process_summary \<Rightarrow> bool" where
  "kind_keeps kind r =
     (if kind = ''hit'' then ps_hit r > 0
      else if kind = ''miss'' then ps_miss r > 0
      else if kind = ''meta'' then ps_meta r > 0
      else True)"

definition top_processes :: "int \<Rightarrow> string option \<Rightarrow> nat \<Rightarrow> cache_db \<Rightarrow> process_summary list option" where
  "top_processes since kind_filter limit db =
     (if \<not> db_usable db then None
      else let rows = summary_rows since limit db
           in (case kind_filter of None \<Rightarrow> Some rows | Some kind \<Rightarrow> Some (filter (kind_keeps kind) rows)))"

definition prune_process_access :: "int \<Rightarrow> cache_db \<Rightarrow> (nat \<times> cache_db) option" where
  "prune_process_access cutoff db =
     (if \<not> db_usable db \<or> db_query_only db then None
      else Some (length (filter (\<lambda>a. a_bucket_epoch a < cutoff) (process_access db)),
                 db\<lparr>process_access := filter (\<lambda>a. \<not> a_bucket_epoch a < cutoff) (process_access db)\<rparr>))"

section \<open>Lemmas\<close>

text \<open>Values that the i64 columns hold without loss.\<close>

definition fits :: "source_metadata \<Rightarrow> bool" where
  "fits s = (sm_size s < 2 ^ 63 \<and> sm_blocks s < 2 ^ 63 \<and> sm_nlink s < 2 ^ 63 \<and> sm_rdev s < 2 ^ 63)"

lemma metadata_roundtrip [simp]: "fits s \<Longrightarrow> metadata_of (columns_of s) = s"
  by (simp add: fits_def metadata_of_def columns_of_def int_casts)

lemma columns_of_mtime [simp]:
  "c_mtime_secs (columns_of s) = sm_mtime_sec s" "c_mtime_nsecs (columns_of s) = sm_mtime_nsec s"
  by (simp_all add: columns_of_def)

definition writable :: "cache_db \<Rightarrow> bool" where
  "writable db = (db_usable db \<and> \<not> db_query_only db)"

definition db_ok :: "cache_db \<Rightarrow> bool" where
  "db_ok db = (unique_key row_key (cache_files db) \<and> unique_key d_key (deferred_events db) \<and>
     unique_key access_key (process_access db))"

lemma execute_writable [simp]: "writable db \<Longrightarrow> execute f db = f db"
  by (simp add: execute_def writable_def)

lemma execute_read_only [simp]: "\<not> writable db \<Longrightarrow> execute f db = db"
  by (auto simp: execute_def writable_def)

lemma writable_usable [simp]: "writable db \<Longrightarrow> db_usable db"
  by (simp add: writable_def)

lemma writable_tables [simp]:
  "writable (db\<lparr>cache_files := x\<rparr>) = writable db"
  "writable (db\<lparr>deferred_events := y\<rparr>) = writable db"
  "writable (db\<lparr>process_access := z\<rparr>) = writable db"
  by (simp_all add: writable_def)

lemma execute_flags:
  assumes "\<And>db. db_usable (f db) = db_usable db" and "\<And>db. db_query_only (f db) = db_query_only db"
  shows "writable (execute f db) = writable db" "db_usable (execute f db) = db_usable db"
    "db_query_only (execute f db) = db_query_only db"
  using assms by (auto simp: execute_def writable_def simp del: writable_usable)

lemma write_flags [simp]:
  "writable (db_mark_cached now rel m s db) = writable db"
  "writable (db_update_source_metadata rel m s db) = writable db"
  "writable (db_mark_hit now rel m db) = writable db"
  "writable (db_remove rel m db) = writable db"
  "writable (save_deferred k p ts db) = writable db"
  "writable (remove_deferred k db) = writable db"
  "db_usable (db_mark_cached now rel m s db) = db_usable db"
  "db_usable (db_update_source_metadata rel m s db) = db_usable db"
  "db_usable (db_mark_hit now rel m db) = db_usable db"
  "db_usable (db_remove rel m db) = db_usable db"
  "db_usable (save_deferred k p ts db) = db_usable db"
  "db_usable (remove_deferred k db) = db_usable db"
  by (simp_all add: db_mark_cached_def db_update_source_metadata_def db_mark_hit_def db_remove_def
      save_deferred_def remove_deferred_def execute_flags)

lemma find_row_mark_cached [table_simps]:
  "writable db \<Longrightarrow> find_row rel m (db_mark_cached now rel' m' s db) =
     (if rel = rel' \<and> m = m'
      then Some \<lparr>r_rel_path = rel, r_mount_id = m, r_size_bytes = as_i64 (sm_size s),
        r_cached_at = as_i64 now, r_last_hit_at = as_i64 now, r_hit_count = 1, r_source = columns_of s\<rparr>
      else find_row rel m db)"
  by (auto simp: find_row_def db_mark_cached_def row_lookup_replace row_key_def)

lemma find_row_remove [table_simps]:
  "writable db \<Longrightarrow> find_row rel m (db_remove rel' m' db) =
     (if rel = rel' \<and> m = m' then None else find_row rel m db)"
  by (auto simp: find_row_def db_remove_def row_lookup_delete)

lemma find_row_hit [table_simps]:
  "writable db \<Longrightarrow> find_row rel m (db_mark_hit now rel' m' db) =
     (if rel = rel' \<and> m = m'
      then map_option (\<lambda>r. r\<lparr>r_last_hit_at := as_i64 now, r_hit_count := r_hit_count r + 1\<rparr>) (find_row rel m db)
      else find_row rel m db)"
  by (auto simp: find_row_def db_mark_hit_def row_lookup_update row_key_def)

lemma find_row_update_source [table_simps]:
  "writable db \<Longrightarrow> find_row rel m (db_update_source_metadata rel' m' s db) =
     (if rel = rel' \<and> m = m' then map_option (\<lambda>r. r\<lparr>r_source := columns_of s\<rparr>) (find_row rel m db)
      else find_row rel m db)"
  by (auto simp: find_row_def db_update_source_metadata_def row_lookup_update row_key_def)

lemma find_row_deferred [table_simps]:
  "find_row rel m (save_deferred k p ts db) = find_row rel m db"
  "find_row rel m (remove_deferred k db) = find_row rel m db"
  by (auto simp: find_row_def save_deferred_def remove_deferred_def execute_def)

section \<open>The stores\<close>

text \<open>The two keyed tables of the cache, as clients see them.\<close>

definition files_lookup :: "path \<times> path \<Rightarrow> cache_db \<Rightarrow> source_metadata option" where
  "files_lookup k db = map_option (\<lambda>r. metadata_of (r_source r)) (find_row (fst k) (snd k) db)"

interpretation files: keyed_store files_lookup "\<lambda>k s. db_mark_cached now (fst k) (snd k) s"
  "\<lambda>k. db_remove (fst k) (snd k)" writable fits for now
  by unfold_locales (auto simp: files_lookup_def table_simps)

definition deferred_lookup :: "path \<Rightarrow> cache_db \<Rightarrow> (path \<times> nat) option" where
  "deferred_lookup k db =
     map_option (\<lambda>r. (d_path r, as_u64 (d_timestamp r))) (row_lookup d_key k (deferred_events db))"

lemma as_u64_as_i64: "n < 2 ^ 64 \<Longrightarrow> as_u64 (as_i64 n) = n"
proof -
  assume n: "n < 2 ^ 64"
  have "(int n - 2 ^ 64) mod 2 ^ 64 = int n" if "\<not> n < 2 ^ 63"
  proof -
    have "(int n - 2 ^ 64) mod 2 ^ 64 = (int n - 2 ^ 64 + 2 ^ 64) mod (2 ^ 64)"
      by (simp only: mod_add_self2)
    also have "\<dots> = int n" using n by simp
    finally show ?thesis .
  qed
  then show ?thesis using n by (auto simp: as_u64_def as_i64_def)
qed

interpretation deferred: keyed_store deferred_lookup "\<lambda>k v. save_deferred k (fst v) (snd v)"
  remove_deferred writable "\<lambda>v. snd v < 2 ^ 64"
  by unfold_locales
    (auto simp: deferred_lookup_def save_deferred_def remove_deferred_def table_simps as_u64_as_i64)

section \<open>The invariant of the database\<close>

definition db_empty :: cache_db where
  "db_empty = \<lparr>cache_files = [], deferred_events = [], process_access = [], db_usable = True,
     db_query_only = False\<rparr>"

text \<open>Every statement the program sends.\<close>

inductive db_step :: "cache_db \<Rightarrow> cache_db \<Rightarrow> bool" where
  step_cached: "db_step db (db_mark_cached now rel m s db)"
| step_update: "db_step db (db_update_source_metadata rel m s db)"
| step_hit: "db_step db (db_mark_hit now rel m db)"
| step_remove: "db_step db (db_remove rel m db)"
| step_recover: "db_step db (recover_file now d dir m db p)"
| step_save: "db_step db (save_deferred k p ts db)"
| step_drop: "db_step db (remove_deferred k db)"
| step_upsert: "upsert_process_access rows db = Some db' \<Longrightarrow> db_step db db'"
| step_prune: "prune_process_access cutoff db = Some (n, db') \<Longrightarrow> db_step db db'"
| step_fault: "db_step db (db\<lparr>db_usable := b\<rparr>)"

inductive_cases db_stepE: "db_step db db'"

inductive db_reachable :: "cache_db \<Rightarrow> bool" where
  init: "db_reachable db_empty"
| step: "db_reachable db \<Longrightarrow> db_step db db' \<Longrightarrow> db_reachable db'"

lemma access_key_upsert: "access_key (a\<lparr>a_count := c, a_last_seen := l, a_sample_cmdline := x,
    a_sample_ancestors := y\<rparr>) = access_key a"
  by (simp add: access_key_def)

lemma unique_upsert_one: "unique_key access_key t \<Longrightarrow> unique_key access_key (upsert_one t r)"
  by (auto simp: upsert_one_def Let_def row_lookup_None unique_key_def access_key_def image_iff
      intro!: unique_key_update [unfolded unique_key_def])

lemma unique_upsert: "unique_key access_key t \<Longrightarrow> unique_key access_key (foldl upsert_one t rows)"
  by (induction rows arbitrary: t) (auto intro: unique_upsert_one)

lemma recover_file_eq: "recover_file now d dir m db p = db \<or>
   (\<exists>rel size. strip_prefix p dir = Some rel \<and> find_row rel m db = None \<and> recover_file now d dir m db p =
     execute (\<lambda>db. db\<lparr>cache_files := cache_files db @ [\<lparr>r_rel_path = rel, r_mount_id = m,
       r_size_bytes = as_i64 size, r_cached_at = as_i64 now, r_last_hit_at = as_i64 now,
       r_hit_count = 0, r_source = no_columns\<rparr>]\<rparr>) db)"
  by (auto simp: recover_file_def Let_def split: option.splits)

lemma db_ok_recover: "db_ok db \<Longrightarrow> db_ok (recover_file now d dir m db p)"
  using recover_file_eq [of now d dir m db p]
  by (auto simp: db_ok_def execute_def find_row_def row_lookup_None unique_key_def row_key_def image_iff)
    blast+

lemma db_ok_step: "db_step db db' \<Longrightarrow> db_ok db \<Longrightarrow> db_ok db'"
proof (induction rule: db_step.induct)
  case (step_recover db now d dir m p)
  then show ?case by (simp add: db_ok_recover)
next
  case (step_upsert rows db db')
  then show ?case by (auto simp: upsert_process_access_def db_ok_def unique_upsert split: if_splits)
next
  case (step_prune cutoff db n db')
  then show ?case
    by (auto simp: prune_process_access_def db_ok_def split: if_splits intro: unique_key_filter)
qed (auto simp: db_ok_def execute_def db_mark_cached_def db_update_source_metadata_def
    db_mark_hit_def db_remove_def save_deferred_def remove_deferred_def row_key_def
    intro!: unique_key_replace unique_key_delete unique_key_update)

text \<open>In every state the statements of the program can build, each table has its primary key:
  at most one row per cached path and mount, per deferred key, and per bucket, process and kind.\<close>

theorem db_tables_keyed: "db_reachable db \<Longrightarrow> db_ok db"
proof (induction rule: db_reachable.induct)
  case init
  then show ?case by (simp add: db_ok_def db_empty_def)
next
  case (step db db')
  then show ?case using db_ok_step by blast
qed

text \<open>C39. A copy that is recorded is read back: the metadata and the fingerprint of the row are
  those of the source, whatever was recorded before, and no other row changes.\<close>

theorem mark_cached_roundtrip:
  assumes "writable db" and "fits s" and "has_snapshot s"
  shows "source_metadata_row rel m (db_mark_cached now rel m s db) = Some s \<and>
    fingerprint_row rel m (db_mark_cached now rel m s db) =
      Some \<lparr>fp_mtime_secs = sm_mtime_sec s, fp_mtime_nsecs = sm_mtime_nsec s, fp_size_bytes = sm_size s\<rparr> \<and>
    (\<forall>rel' m'. (rel', m') \<noteq> (rel, m) \<longrightarrow>
      find_row rel' m' (db_mark_cached now rel m s db) = find_row rel' m' db)"
proof -
  have size: "as_i64 (sm_size s) = int (sm_size s)" using assms(2) by (simp add: fits_def int_casts)
  have "source_metadata_row rel m (db_mark_cached now rel m s db) = Some s"
    using assms by (simp add: source_metadata_row_def find_row_mark_cached)
  moreover have "fingerprint_row rel m (db_mark_cached now rel m s db) =
      Some \<lparr>fp_mtime_secs = sm_mtime_sec s, fp_mtime_nsecs = sm_mtime_nsec s, fp_size_bytes = sm_size s\<rparr>"
    using assms(1) size by (simp add: fingerprint_row_def find_row_mark_cached row_fingerprint_def)
  ultimately show ?thesis using assms(1) by (auto simp: find_row_mark_cached)
qed

section \<open>Eviction order\<close>

lemma candidates_sorted:
  "sorted (map r_last_hit_at (sort_key r_last_hit_at (mount_rows m db)))"
  by simp

text \<open>Eviction candidates come oldest hit first: the result is a prefix of the mount's rows in
  that order, as long as the limit allows (an unbounded limit gives every row), and no row left out
  was hit before one that is in.\<close>

theorem eviction_candidates_lru:
  assumes "db_usable db"
  shows "\<exists>rows rest. eviction_candidates m n db = map path_size rows \<and>
    mset (rows @ rest) = mset (mount_rows m db) \<and>
    sorted (map r_last_hit_at rows) \<and>
    (\<forall>r \<in> set rows. \<forall>r' \<in> set rest. r_last_hit_at r \<le> r_last_hit_at r') \<and>
    (if as_i64 n < 0 then rest = [] else length rows = min (nat (as_i64 n)) (length (mount_rows m db)))"
proof -
  let ?all = "sort_key r_last_hit_at (mount_rows m db)"
  let ?rows = "sql_limit n ?all"
  let ?rest = "if as_i64 n < 0 then [] else drop (nat (as_i64 n)) ?all"
  have split: "?rows @ ?rest = ?all" by (simp add: sql_limit_def)
  then have "sorted (map r_last_hit_at ?rows @ map r_last_hit_at ?rest)"
    using candidates_sorted [of m db] by (metis map_append)
  then have "sorted (map r_last_hit_at ?rows)"
    "\<forall>r \<in> set ?rows. \<forall>r' \<in> set ?rest. r_last_hit_at r \<le> r_last_hit_at r'"
    by (auto simp: sorted_append)
  moreover have "mset (?rows @ ?rest) = mset (mount_rows m db)" using split by simp
  moreover have "if as_i64 n < 0 then ?rest = []
      else length ?rows = min (nat (as_i64 n)) (length (mount_rows m db))"
    by (simp add: sql_limit_def min.commute)
  ultimately show ?thesis
    using assms by (intro exI [of _ ?rows] exI [of _ ?rest]) (simp add: eviction_candidates_def)
qed

section \<open>Reconciliation\<close>

lemma writable_recover [simp]: "writable (recover_file now d dir m db p) = writable db"
  using recover_file_eq [of now d dir m db p] by (cases "writable db") auto

lemma find_row_sweep:
  "writable db \<Longrightarrow>
   find_row rel m' (foldl (\<lambda>db rel. if \<not> path_exists d (join dir rel) then db_remove rel m db else db) db rels) =
     (if m' = m \<and> rel \<in> set rels \<and> \<not> path_exists d (join dir rel) then None else find_row rel m' db)"
  by (induction rels arbitrary: db) (auto simp: table_simps)

lemma find_row_Some_mount: "find_row rel m db = Some r \<Longrightarrow> r_rel_path r = rel \<and> r \<in> set (mount_rows m db)"
  by (auto simp: find_row_def mount_rows_def row_key_def dest!: row_lookup_Some_in split: if_splits)

lemma find_row_purge:
  assumes "writable db"
  shows "find_row rel m' (purge_orphans d dir m db) =
     (if m' = m \<and> \<not> path_exists d (join dir rel) then None else find_row rel m' db)"
proof -
  have "find_row rel m db = None" if "rel \<notin> set (map r_rel_path (mount_rows m db))"
    using that find_row_Some_mount [of rel m db] by (cases "find_row rel m db") auto
  then show ?thesis
    unfolding purge_orphans_def find_row_sweep [OF assms] by auto
qed

lemma writable_purge [simp]: "writable (purge_orphans d dir m db) = writable db"
proof -
  have "writable (foldl (\<lambda>db rel. if \<not> path_exists d (join dir rel) then db_remove rel m db else db) db rels)
      = writable db" for rels
    by (induction rels arbitrary: db) auto
  then show ?thesis by (simp add: purge_orphans_def)
qed

definition recovered_row :: "nat \<Rightarrow> disk \<Rightarrow> path \<Rightarrow> path \<Rightarrow> path \<Rightarrow> cache_row" where
  "recovered_row now d dir m rel =
     \<lparr>r_rel_path = rel, r_mount_id = m,
      r_size_bytes = as_i64 (case metadata_len d (join dir rel) of None \<Rightarrow> 0 | Some n \<Rightarrow> n),
      r_cached_at = as_i64 now, r_last_hit_at = as_i64 now, r_hit_count = 0, r_source = no_columns\<rparr>"

lemma find_row_recover_file:
  "writable db \<Longrightarrow> find_row rel m' (recover_file now d dir m db (join dir p)) =
     (case find_row rel m' db of
        Some r \<Rightarrow> Some r
      | None \<Rightarrow> if m' = m \<and> rel = p then Some (recovered_row now d dir m rel) else None)"
  by (auto simp: recover_file_def find_row_def recovered_row_def row_lookup_append table_simps row_key_def
      split: option.splits)

lemma find_row_recover_all:
  "writable db \<Longrightarrow> \<forall>p \<in> set ps. starts_with p dir \<Longrightarrow>
   find_row rel m' (foldl (recover_file now d dir m) db ps) =
     (case find_row rel m' db of
        Some r \<Rightarrow> Some r
      | None \<Rightarrow> if m' = m \<and> join dir rel \<in> set ps then Some (recovered_row now d dir m rel) else None)"
proof (induction ps arbitrary: db)
  case Nil
  then show ?case by (simp split: option.splits)
next
  case (Cons p ps)
  obtain q where p: "p = join dir q" using Cons.prems(2) by (auto simp: starts_with_iff)
  show ?case using Cons.prems
    by (simp add: Cons.IH p) (auto simp: find_row_recover_file split: option.splits)
qed

text \<open>C38. Start-up reconciliation makes the mount's rows and the files on disk agree: afterwards a
  path has a row exactly when it had one and still exists, or it is a cached file on disk; a row
  that stays is unchanged, a recovered one carries the size on disk, and other mounts keep their
  rows.\<close>

theorem reconcile_with_disk_spec:
  assumes "disk_ok d" and "is_dir_at d dir" and "writable db"
    and "reconcile_with_disk now dir m d db = (d', db')"
  shows "find_row rel m db' =
      (if find_row rel m db \<noteq> None \<and> path_exists d' (join dir rel) then find_row rel m db
       else if rel \<noteq> [] \<and> is_file_at d' (join dir rel) \<and> \<not> is_non_media_file (join dir rel)
            then Some (recovered_row now d' dir m rel)
            else None) \<and>
    (m' \<noteq> m \<longrightarrow> find_row rel m' db' = find_row rel m' db)"
proof -
  have d': "d' = snd (remove_partials dir d)"
    and db': "db' = foldl (recover_file now d' dir m) (purge_orphans d' dir m db) (collect_cache_files d' dir)"
    using assms(3,4) by (auto simp: reconcile_with_disk_def Let_def)
  have purged: "d' = purge (below_doomed d dir) d"
    unfolding d' by (rule remove_partials_eq [OF assms(1,2)])
  have files: "\<forall>r \<in> below_doomed d dir. is_file_at d r"
    by (simp add: below_doomed_def doomed_partial_def)
  have ok: "disk_ok d'" "is_dir_at d' dir"
    using disk_ok_purge [OF assms(1) files] is_dir_purge [OF files] assms(2) by (simp_all add: purged)
  have coll: "join dir q \<in> set (collect_cache_files d' dir) \<longleftrightarrow>
      q \<noteq> [] \<and> is_file_at d' (join dir q) \<and> \<not> is_non_media_file (join dir q)" for q
    unfolding set_collect [OF ok] by (auto simp: strict_prefix_def)
  have below: "\<forall>p \<in> set (collect_cache_files d' dir). starts_with p dir"
    unfolding set_collect [OF ok] by (simp add: starts_with_def strict_prefix_def)
  have w: "writable (purge_orphans d' dir m db)" using assms(3) by simp
  have row: "find_row rel k db' =
      (case if k = m \<and> \<not> path_exists d' (join dir rel) then None else find_row rel k db of
         Some r \<Rightarrow> Some r
       | None \<Rightarrow> if k = m \<and> join dir rel \<in> set (collect_cache_files d' dir)
                  then Some (recovered_row now d' dir m rel) else None)" for k
    unfolding db' find_row_recover_all [OF w below] find_row_purge [OF assms(3)] ..
  have other: "m' \<noteq> m \<longrightarrow> find_row rel m' db' = find_row rel m' db"
    by (simp add: row split: option.splits)
  have "path_exists d' (join dir rel)" if "is_file_at d' (join dir rel)"
    using that by (simp add: exists_dir_or_file)
  with other show ?thesis
    by (cases "find_row rel m db") (simp_all only: row coll, auto)
qed

section \<open>Deferred events\<close>

lemma in_load_deferred:
  "db_ok db \<Longrightarrow> (k, p, ts) \<in> set (load_deferred now ttl db) \<longleftrightarrow>
     db_usable db \<and> (\<exists>r. row_lookup d_key k (deferred_events db) = Some r \<and> d_path r = p \<and>
       as_u64 (d_timestamp r) = ts \<and> as_i64 (now - mul64 ttl 60) \<le> d_timestamp r)"
  by (auto simp: load_deferred_def Let_def db_ok_def dest: row_lookup_unique row_lookup_Some_in)

lemma db_ok_save_deferred: "db_ok db \<Longrightarrow> db_ok (save_deferred k p ts db)"
  using db_ok_step step_save by blast

text \<open>A deferred event is in the next load exactly while it is within the time to live; saving
  it replaces what was saved under its key and keeps every other event.\<close>

theorem deferred_roundtrip:
  assumes "db_ok db" and "writable db" and "ts < 2 ^ 63" and "now < 2 ^ 63" and "ttl * 60 < 2 ^ 64"
  shows "(k, p, t) \<in> set (load_deferred now ttl (save_deferred key path ts db)) \<longleftrightarrow>
     (if k = key then p = path \<and> t = ts \<and> now - ttl * 60 \<le> ts
      else (k, p, t) \<in> set (load_deferred now ttl db))"
proof -
  have casts: "as_i64 ts = int ts" "as_i64 (now - mul64 ttl 60) = int (now - ttl * 60)"
    using assms(3-5) by (simp_all add: mul64_small as_i64_small)
  have "as_u64 (int ts) = ts" using assms(3) by (simp add: as_u64_nonneg)
  moreover have "row_lookup d_key k (deferred_events (save_deferred key path ts db)) =
      (if k = key then Some \<lparr>d_key = key, d_path = path, d_timestamp = int ts\<rparr>
       else row_lookup d_key k (deferred_events db))"
    using assms(2) by (simp add: save_deferred_def row_lookup_replace casts)
  ultimately show ?thesis
    using assms(1,2) by (auto simp: in_load_deferred db_ok_save_deferred casts)
qed

section \<open>Process discovery\<close>

definition access_count :: "int \<times> string \<times> string \<Rightarrow> cache_db \<Rightarrow> int" where
  "access_count k db =
     (case row_lookup access_key k (process_access db) of None \<Rightarrow> 0 | Some a \<Rightarrow> a_count a)"

definition flushed_count :: "int \<times> string \<times> string \<Rightarrow> process_access_row list \<Rightarrow> int" where
  "flushed_count k rows =
     sum_list (map (\<lambda>r. as_i64 (pr_count r))
       (filter (\<lambda>r. (pr_bucket_epoch r, pr_process_name r, pr_op_kind r) = k) rows))"

lemma lookup_upsert_one:
  "(case row_lookup access_key k (upsert_one t r) of None \<Rightarrow> 0 | Some a \<Rightarrow> a_count a) =
   (case row_lookup access_key k t of None \<Rightarrow> 0 | Some a \<Rightarrow> a_count a) +
   (if (pr_bucket_epoch r, pr_process_name r, pr_op_kind r) = k then as_i64 (pr_count r) else 0)"
proof (cases "row_lookup access_key (pr_bucket_epoch r, pr_process_name r, pr_op_kind r) t")
  case None
  then show ?thesis
    by (auto simp: upsert_one_def row_lookup_append table_simps access_key_def split: option.splits)
next
  case (Some a)
  then show ?thesis
    by (auto simp: upsert_one_def row_lookup_update access_key_upsert split: option.splits)
qed

lemma upsert_one_counts:
  "(case row_lookup access_key k (foldl upsert_one t rows) of None \<Rightarrow> 0 | Some a \<Rightarrow> a_count a) =
   (case row_lookup access_key k t of None \<Rightarrow> 0 | Some a \<Rightarrow> a_count a) + flushed_count k rows"
  by (induction rows arbitrary: t) (simp_all add: flushed_count_def lookup_upsert_one)

text \<open>No recorded access is lost or counted twice: after an upsert the count of a bucket,
  process and kind has grown by exactly what was flushed for it, also when the flush repeats a
  key.\<close>

theorem upsert_adds_counts:
  assumes "upsert_process_access rows db = Some db'"
  shows "access_count k db' = access_count k db + flushed_count k rows"
  using assms upsert_one_counts [of k "process_access db" rows]
  by (auto simp: upsert_process_access_def access_count_def split: if_splits)

lemma sql_sum_Some: "sql_sum acc xs = Some s \<Longrightarrow> s = acc + sum_list xs"
  by (induction acc xs rule: sql_sum.induct) (auto split: if_splits simp: algebra_simps)

lemma summarize_Some:
  "summarize rows n = Some r \<Longrightarrow> ps_process_name r = n \<and> ps_total r = max0_u64 (group_total rows n)"
  by (auto simp: summarize_def group_total_def Let_def split: option.splits dest!: sql_sum_Some)

lemma map_filter_total:
  "\<forall>n \<in> set ns. f n \<noteq> None \<Longrightarrow> List.map_filter f ns = map (the \<circ> f) ns"
  by (induction ns) (auto simp: map_filter_simps)

lemma max0_mono: "a \<le> b \<Longrightarrow> max0_u64 a \<le> max0_u64 b"
  by (simp add: max0_u64_def)

lemma sorted_wrt_map_sort_key:
  assumes "\<And>a b. f a \<le> f b \<Longrightarrow> P (g a) (g b)"
  shows "sorted_wrt P (map g (sort_key f xs))"
  using sorted_wrt_sort_key [of f xs] assms by (auto simp: sorted_wrt_map elim: sorted_wrt_mono_rel [rotated])

text \<open>The process summary without a kind filter: busiest process first, each process once and at
  most as many as asked for, only processes seen since the given bucket, and the total of each is the
  sum of its counts.\<close>

theorem top_processes_ranked:
  assumes "top_processes since None limit db = Some rs" and "limit < 2 ^ 63"
  shows "sorted_wrt (\<lambda>a b. ps_total a \<ge> ps_total b) rs \<and> distinct (map ps_process_name rs) \<and>
    length rs \<le> limit \<and>
    (\<forall>r \<in> set rs.
       ps_process_name r \<in> a_process_name ` {a \<in> set (process_access db). since \<le> a_bucket_epoch a} \<and>
       ps_total r = max0_u64 (group_total (filter (\<lambda>a. since \<le> a_bucket_epoch a) (process_access db))
                       (ps_process_name r)))"
proof -
  let ?rows = "filter (\<lambda>a. since \<le> a_bucket_epoch a) (process_access db)"
  let ?names = "sort (remdups (map a_process_name ?rows))"
  let ?order = "sort_key (\<lambda>n. - group_total ?rows n) ?names"
  have rs: "rs = summary_rows since limit db" using assms(1) by (auto simp: top_processes_def split: if_splits)
  show ?thesis
  proof (cases "list_ex (\<lambda>n. summarize ?rows n = None) ?names")
    case True
    then have "rs = []" unfolding rs summary_rows_def Let_def by (simp only: if_True)
    then show ?thesis by simp
  next
    case False
    then have total: "\<forall>n \<in> set ?order. summarize ?rows n \<noteq> None" by (simp add: list_ex_iff)
    have "rs = List.map_filter (summarize ?rows) (take limit ?order)"
      unfolding rs summary_rows_def Let_def using False assms(2)
      by (simp only: if_False sql_limit_def as_i64_small) simp
    also have "\<dots> = map (the \<circ> summarize ?rows) (take limit ?order)"
      by (rule map_filter_total) (use total in_set_takeD in fast)
    finally have map: "rs = take limit (map (the \<circ> summarize ?rows) ?order)" by (simp add: take_map)
    have names: "ps_process_name (the (summarize ?rows n)) = n"
      "ps_total (the (summarize ?rows n)) = max0_u64 (group_total ?rows n)" if "n \<in> set ?order" for n
      using total that summarize_Some [of ?rows n] by auto
    have pn: "map ps_process_name (map (the \<circ> summarize ?rows) ?order) = ?order"
      unfolding map_map by (rule map_idI) (simp only: comp_apply names(1))
    have "sorted_wrt (\<lambda>a b. ps_total (the (summarize ?rows a)) \<ge> ps_total (the (summarize ?rows b))) ?order"
      by (rule sorted_wrt_mono_rel [OF _ sorted_wrt_sort_key]) (use names(2) in \<open>auto intro!: max0_mono\<close>)
    then have "sorted_wrt (\<lambda>a b. ps_total a \<ge> ps_total b) (map (the \<circ> summarize ?rows) ?order)"
      by (simp add: sorted_wrt_map)
    then have "sorted_wrt (\<lambda>a b. ps_total a \<ge> ps_total b) rs"
      unfolding map by (rule sorted_wrt_take)
    moreover have "distinct (map ps_process_name rs)"
      unfolding map take_map [symmetric] pn by simp
    moreover have "length rs \<le> limit" unfolding map by simp
    moreover have "ps_process_name r \<in> set (map a_process_name ?rows) \<and>
        ps_total r = max0_u64 (group_total ?rows (ps_process_name r))" if "r \<in> set rs" for r
    proof -
      have "r \<in> set (map (the \<circ> summarize ?rows) ?order)"
        using that unfolding map by (rule in_set_takeD)
      then obtain n where n: "n \<in> set ?order" "r = the (summarize ?rows n)"
        unfolding set_map image_iff comp_apply by blast
      have "n \<in> set (map a_process_name ?rows)" using n(1) by (simp only: set_sort set_remdups)
      with names [OF n(1)] n(2) show ?thesis by simp
    qed
    ultimately show ?thesis by auto
  qed
qed

section \<open>Instances\<close>

definition sample_db :: cache_db where
  "sample_db = db_mark_cached 20 [''b''] [''m''] (test_file 7 1 0)
     (db_mark_cached 10 [''a''] [''m''] (test_file 5 1 0) db_empty)"

lemma writable_empty [simp]: "writable db_empty"
  by (simp add: writable_def db_empty_def)

lemma sample_db_writable [simp]: "writable sample_db" "db_usable sample_db"
  by (simp_all add: sample_db_def)

lemma test_file_ok: "sz < 2 ^ 62 \<Longrightarrow> fits (test_file sz t n)" "has_snapshot (test_file sz t n)"
  by (simp_all add: fits_def test_file_def has_snapshot_def S_IFREG_def)

theorem db_tables_keyed_witness: "db_ok sample_db"
  unfolding sample_db_def
  by (intro db_tables_keyed db_reachable.step [OF _ step_cached] db_reachable.init)

theorem mark_cached_roundtrip_witness:
  "source_metadata_row [''b''] [''m''] (db_mark_cached 30 [''b''] [''m''] (test_file 9 2 3) sample_db) =
     Some (test_file 9 2 3)"
  using mark_cached_roundtrip [of sample_db "test_file 9 2 3" "[''b'']" "[''m'']" 30] test_file_ok by simp

theorem eviction_candidates_lru_witness:
  "\<exists>rows rest. eviction_candidates [''m''] 1 sample_db = map path_size rows \<and>
    mset (rows @ rest) = mset (mount_rows [''m''] sample_db) \<and>
    sorted (map r_last_hit_at rows) \<and>
    (\<forall>r \<in> set rows. \<forall>r' \<in> set rest. r_last_hit_at r \<le> r_last_hit_at r') \<and>
    (if as_i64 1 < 0 then rest = [] else length rows = min (nat (as_i64 1)) (length (mount_rows [''m''] sample_db)))"
  by (rule eviction_candidates_lru) simp

theorem reconcile_with_disk_spec_witness:
  "find_row [''tv'', ''a.mkv''] [''c''] (snd (reconcile_with_disk 9 [''c''] [''c''] sample_disk sample_db)) =
     Some (recovered_row 9 (fst (reconcile_with_disk 9 [''c''] [''c''] sample_disk sample_db)) [''c''] [''c'']
       [''tv'', ''a.mkv''])"
proof -
  let ?r = "reconcile_with_disk 9 [''c''] [''c''] sample_disk sample_db"
  have row: "find_row [''tv'', ''a.mkv''] [''c''] sample_db = None"
    by (simp add: sample_db_def find_row_mark_cached) (simp add: db_empty_def find_row_def row_lookup_def)
  have "fst ?r = snd (remove_partials [''c''] sample_disk)"
    by (simp add: reconcile_with_disk_def Let_def)
  then have disk: "is_file_at (fst ?r) [''c'', ''tv'', ''a.mkv'']"
    by (simp add: remove_partials_eq [OF sample_disk_ok])
      (simp add: sample_disk_def purge_def below_doomed_def doomed_partial_def is_file_at_def file_at_def
        node_at_def extension_def name_extension_def strict_prefix_def)
  have "\<not> is_non_media_file [''c'', ''tv'', ''a.mkv'']"
    by (simp add: is_non_media_file_def ends_with_def)
  with reconcile_with_disk_spec [OF sample_disk_ok sample_db_writable(1) surjective_pairing,
      where now = 9 and rel = "[''tv'', ''a.mkv'']" and m = "[''c'']"] row disk
  show ?thesis by simp
qed

theorem deferred_roundtrip_witness:
  "([''k''], [''p''], 100) \<in> set (load_deferred 160 1 (save_deferred [''k''] [''p''] 100 db_empty))"
  using deferred_roundtrip [of db_empty 100 160 1 "[''k'']" "[''p'']" 100 "[''k'']" "[''p'']"]
  by (simp add: db_ok_def) (simp add: db_empty_def)

definition sample_access :: "string \<Rightarrow> string \<Rightarrow> nat \<Rightarrow> process_access_row" where
  "sample_access name kind n = \<lparr>pr_bucket_epoch = 60, pr_process_name = name, pr_op_kind = kind,
     pr_count = n, pr_sample_cmdline = None, pr_sample_ancestors = None\<rparr>"

theorem upsert_adds_counts_witness:
  "access_count (60, ''p'', ''hit'')
     (the (upsert_process_access [sample_access ''p'' ''hit'' 2, sample_access ''p'' ''hit'' 3] db_empty)) = 5"
proof -
  let ?rows = "[sample_access ''p'' ''hit'' 2, sample_access ''p'' ''hit'' 3]"
  have "upsert_process_access ?rows db_empty = Some (the (upsert_process_access ?rows db_empty))"
    by (simp add: upsert_process_access_def db_empty_def)
  from upsert_adds_counts [OF this, of "(60, ''p'', ''hit'')"] show ?thesis
    by (simp add: flushed_count_def sample_access_def as_i64_def access_count_def db_empty_def row_lookup_Nil)
qed

definition stats_db :: cache_db where
  "stats_db = db_empty\<lparr>process_access := foldl upsert_one []
     [sample_access ''busy'' ''hit'' 9, sample_access ''idle'' ''miss'' 1]\<rparr>"

lemma stats_db_usable [simp]: "db_usable stats_db"
  by (simp add: stats_db_def db_empty_def)

lemma stats_db_access: "process_access stats_db =
  [\<lparr>a_bucket_epoch = 60, a_process_name = ''busy'', a_op_kind = ''hit'', a_count = 9, a_first_seen = 60,
    a_last_seen = 60, a_sample_cmdline = None, a_sample_ancestors = None\<rparr>,
   \<lparr>a_bucket_epoch = 60, a_process_name = ''idle'', a_op_kind = ''miss'', a_count = 1, a_first_seen = 60,
    a_last_seen = 60, a_sample_cmdline = None, a_sample_ancestors = None\<rparr>]"
  by (simp add: stats_db_def upsert_one_def sample_access_def access_key_def row_lookup_def as_i64_def)

text \<open>The process with the miss is on the list, but not once the list is cut to one row and then
  filtered.\<close>

theorem top_processes_filters_after_limit:
  "top_processes 0 (Some ''miss'') 1 stats_db = Some [] \<and>
   map_option (map ps_process_name) (top_processes 0 (Some ''miss'') 2 stats_db) = Some [''idle'']"
  by (simp add: top_processes_def summary_rows_def stats_db_access Let_def summarize_def kind_count_def
      group_total_def sql_limit_def as_i64_def map_filter_simps kind_keeps_def max0_u64_def)

theorem top_processes_ranked_witness:
  "distinct (map ps_process_name (the (top_processes 0 None 2 stats_db)))"
  using top_processes_ranked [where since = 0 and limit = 2 and db = stats_db and
      rs = "the (top_processes 0 None 2 stats_db)"] by (simp add: top_processes_def)

end
