(* ===== verification/CacheManager.thy ===== *)
theory CacheManager
  imports CacheDb
begin

text \<open>
  The cache manager (src/src/cache/manager.rs): staleness, the removal of stale entries, eviction by
  age and by size, and the start-up and statistics passes. The manager's fields are a record; the
  cache directory and the database are a pair that every operation returns updated. The backing
  store and statvfs are the kernel's and arguments; sizes given in GB as f64 arrive converted.
\<close>

section \<open>State\<close>

record cache_manager =
  cm_cache_dir :: path
  cm_max_size_bytes :: nat
  cm_expiry_secs :: nat
  cm_min_free_bytes :: nat
  cm_mount_id :: path
  cm_has_backing :: bool
  cm_check_on_hit :: bool

type_synonym store = "disk \<times> cache_db"

datatype stale_result = Fresh stat | Stale | BackingGone | NotTracked | NeedsBackfill stat

record statvfs =
  f_blocks :: nat
  f_frsize :: nat
  f_bavail :: nat
  f_bsize :: nat

type_synonym statvfs_fn = "disk \<Rightarrow> path \<Rightarrow> statvfs option"

definition free_space_bytes :: "statvfs_fn \<Rightarrow> disk \<Rightarrow> path \<Rightarrow> nat option" where
  "free_space_bytes vfs d p = map_option (\<lambda>s. mul64 (f_bavail s) (f_bsize s)) (vfs d p)"

definition total_space_bytes :: "statvfs_fn \<Rightarrow> disk \<Rightarrow> path \<Rightarrow> nat option" where
  "total_space_bytes vfs d p = map_option (\<lambda>s. mul64 (f_blocks s) (f_frsize s)) (vfs d p)"

text \<open>\<open>configured\<close> and \<open>min_free\<close> are the converted GB values.\<close>

definition manager_new ::
  "path \<Rightarrow> nat option \<Rightarrow> nat \<Rightarrow> nat \<Rightarrow> nat \<Rightarrow> bool \<Rightarrow> bool \<Rightarrow> cache_manager" where
  "manager_new cache_dir capacity configured expiry_hours min_free has_backing check_on_hit =
     (let max_size = (case capacity of
                        Some t \<Rightarrow> if configured = 0 \<or> configured > t then t div 2 else configured
                      | None \<Rightarrow> configured)
      in \<lparr>cm_cache_dir = cache_dir, cm_max_size_bytes = max_size,
          cm_expiry_secs = mul64 expiry_hours 3600, cm_min_free_bytes = min_free,
          cm_mount_id = cache_dir, cm_has_backing = has_backing, cm_check_on_hit = check_on_hit\<rparr>)"

definition cache_path :: "cache_manager \<Rightarrow> path \<Rightarrow> path" where
  "cache_path cm rel = join (cm_cache_dir cm) rel"

definition is_cached :: "cache_manager \<Rightarrow> disk \<Rightarrow> path \<Rightarrow> bool" where
  "is_cached cm d rel =
     (let p = cache_path cm rel
      in path_exists d p \<and> (case extension p of None \<Rightarrow> True | Some e \<Rightarrow> e \<noteq> ''partial''))"

section \<open>Bookkeeping\<close>

definition mark_cached :: "nat \<Rightarrow> cache_manager \<Rightarrow> path \<Rightarrow> source_metadata \<Rightarrow> cache_db \<Rightarrow> cache_db" where
  "mark_cached now cm rel s = db_mark_cached now rel (cm_mount_id cm) s"

definition mark_hit :: "nat \<Rightarrow> cache_manager \<Rightarrow> path \<Rightarrow> cache_db \<Rightarrow> cache_db" where
  "mark_hit now cm rel = db_mark_hit now rel (cm_mount_id cm)"

definition source_metadata :: "cache_manager \<Rightarrow> cache_db \<Rightarrow> path \<Rightarrow> source_metadata option" where
  "source_metadata cm db rel = source_metadata_row rel (cm_mount_id cm) db"

definition startup_cleanup :: "nat \<Rightarrow> cache_manager \<Rightarrow> store \<Rightarrow> store" where
  "startup_cleanup now cm s =
     reconcile_with_disk now (cm_cache_dir cm) (cm_mount_id cm) (fst s) (snd s)"

section \<open>Staleness\<close>

definition content_matches :: "fingerprint \<Rightarrow> stat \<Rightarrow> bool" where
  "content_matches fp live =
     (fp_mtime_secs fp = st_mtime live \<and> fp_mtime_nsecs fp = st_mtime_nsec live \<and>
      fp_size_bytes fp = as_u64 (st_size live))"

definition is_stale_with_fingerprint ::
  "cache_manager \<Rightarrow> backing_kernel \<Rightarrow> path \<Rightarrow> fingerprint \<Rightarrow> stale_result" where
  "is_stale_with_fingerprint cm k rel fp =
     (if \<not> cm_has_backing cm then NotTracked
      else (case bs_stat k rel of
              None \<Rightarrow> BackingGone
            | Some live \<Rightarrow>
                if fp_mtime_secs fp = 0 \<and> fp_mtime_nsecs fp = 0 then NeedsBackfill live
                else if content_matches fp live then Fresh live else Stale))"

definition is_stale :: "cache_manager \<Rightarrow> backing_kernel \<Rightarrow> cache_db \<Rightarrow> path \<Rightarrow> stale_result" where
  "is_stale cm k db rel =
     (if \<not> cm_has_backing cm then NotTracked
      else (case fingerprint_row rel (cm_mount_id cm) db of
              Some fp \<Rightarrow> is_stale_with_fingerprint cm k rel fp
            | None \<Rightarrow> NotTracked))"

definition refresh_source_metadata :: "cache_manager \<Rightarrow> path \<Rightarrow> stat \<Rightarrow> cache_db \<Rightarrow> cache_db" where
  "refresh_source_metadata cm rel live db =
     (case fingerprint_row rel (cm_mount_id cm) db of
        None \<Rightarrow> db
      | Some fp \<Rightarrow>
          if fp_mtime_secs fp = 0 \<and> fp_mtime_nsecs fp = 0 then db
          else if \<not> content_matches fp live then db
          else let fresh = from_stat live
               in if (case source_metadata_row rel (cm_mount_id cm) db of
                        None \<Rightarrow> False | Some stored \<Rightarrow> attrs_match stored fresh)
                  then db
                  else db_update_source_metadata rel (cm_mount_id cm) fresh db)"

definition drop_stale :: "cache_manager \<Rightarrow> path \<Rightarrow> store \<Rightarrow> store" where
  "drop_stale cm rel s =
     (let d' = (case remove_file (join (cm_cache_dir cm) rel) (fst s) of Inr d' \<Rightarrow> d' | Inl _ \<Rightarrow> fst s)
      in (d', db_remove rel (cm_mount_id cm) (snd s)))"

definition backfill_fingerprint :: "nat \<Rightarrow> cache_manager \<Rightarrow> path \<Rightarrow> stat \<Rightarrow> cache_db \<Rightarrow> cache_db" where
  "backfill_fingerprint now cm rel st = mark_cached now cm rel (from_stat st)"

definition sweep_one ::
  "nat \<Rightarrow> cache_manager \<Rightarrow> backing_kernel \<Rightarrow> path \<times> fingerprint \<Rightarrow> nat \<times> store \<Rightarrow> nat \<times> store" where
  "sweep_one now cm k row acc =
     (case (row, acc) of ((rel, fp), (dropped, s)) \<Rightarrow>
       (case is_stale_with_fingerprint cm k rel fp of
          Stale \<Rightarrow> (Suc dropped, drop_stale cm rel s)
        | BackingGone \<Rightarrow> (Suc dropped, drop_stale cm rel s)
        | NeedsBackfill st \<Rightarrow> (dropped, (fst s, backfill_fingerprint now cm rel st (snd s)))
        | Fresh live \<Rightarrow> (dropped, (fst s, refresh_source_metadata cm rel live (snd s)))
        | NotTracked \<Rightarrow> (dropped, s)))"

definition sweep_stale ::
  "nat \<Rightarrow> cache_manager \<Rightarrow> backing_kernel \<Rightarrow> store \<Rightarrow> (nat \<times> nat) \<times> store" where
  "sweep_stale now cm k s =
     (let rows = all_fingerprints (cm_mount_id cm) (snd s);
          r = fold (sweep_one now cm k) rows (0, s)
      in ((length rows, fst r), snd r))"

section \<open>Eviction\<close>

text \<open>The expiry pass: every expired file that can be deleted loses its row; \<open>(cnt, reclaimed)\<close> is
  what the log line reports.\<close>

fun expiry_loop ::
  "cache_manager \<Rightarrow> (path \<times> nat) list \<Rightarrow> nat \<Rightarrow> nat \<Rightarrow> store \<Rightarrow> nat \<times> nat \<times> store" where
  "expiry_loop cm [] cnt reclaimed s = (cnt, reclaimed, s)"
| "expiry_loop cm ((rel, sz) # xs) cnt reclaimed s =
     (case remove_file (join (cm_cache_dir cm) rel) (fst s) of
        Inl _ \<Rightarrow> expiry_loop cm xs cnt reclaimed s
      | Inr d' \<Rightarrow> expiry_loop cm xs (Suc cnt) (add64 reclaimed sz)
                    (d', db_remove rel (cm_mount_id cm) (snd s)))"

fun size_loop ::
  "cache_manager \<Rightarrow> (path \<times> nat) list \<Rightarrow> nat \<Rightarrow> nat \<Rightarrow> nat \<Rightarrow> store \<Rightarrow> nat \<times> nat \<times> store" where
  "size_loop cm [] global_total cnt reclaimed s = (cnt, reclaimed, s)"
| "size_loop cm ((rel, sz) # xs) global_total cnt reclaimed s =
     (if global_total \<le> cm_max_size_bytes cm then (cnt, reclaimed, s)
      else (case remove_file (join (cm_cache_dir cm) rel) (fst s) of
              Inl _ \<Rightarrow> size_loop cm xs global_total cnt reclaimed s
            | Inr d' \<Rightarrow> size_loop cm xs (global_total - sz) (Suc cnt) (add64 reclaimed sz)
                          (d', db_remove rel (cm_mount_id cm) (snd s))))"

definition expiry_pass :: "nat \<Rightarrow> cache_manager \<Rightarrow> store \<Rightarrow> nat \<times> nat \<times> store" where
  "expiry_pass now cm s =
     (if cm_expiry_secs cm \<noteq> 0
      then expiry_loop cm (expired_files now (cm_mount_id cm) (cm_expiry_secs cm) (snd s)) 0 0 s
      else (0, 0, s))"

definition evict_if_needed :: "nat \<Rightarrow> cache_manager \<Rightarrow> store \<Rightarrow> (nat \<times> nat \<times> nat) \<times> store" where
  "evict_if_needed now cm s =
     (case expiry_pass now cm s of
        (expired, reclaimed, s1) \<Rightarrow>
          let global_total = total_cached_bytes_global (snd s1)
          in if global_total > cm_max_size_bytes cm
             then (case size_loop cm (eviction_candidates (cm_mount_id cm) u64_max (snd s1))
                          global_total 0 reclaimed s1 of
                     (evicted, reclaimed', s2) \<Rightarrow> ((expired, evicted, reclaimed'), s2))
             else ((expired, 0, reclaimed), s1))"

fun fit_loop ::
  "cache_manager \<Rightarrow> nat \<Rightarrow> (path \<times> nat) list \<Rightarrow> nat \<Rightarrow> store \<Rightarrow> nat \<times> store" where
  "fit_loop cm need [] freed s = (freed, s)"
| "fit_loop cm need ((rel, sz) # xs) freed s =
     (if freed \<ge> need then (freed, s)
      else (case remove_file (join (cm_cache_dir cm) rel) (fst s) of
              Inl _ \<Rightarrow> fit_loop cm need xs freed s
            | Inr d' \<Rightarrow> fit_loop cm need xs (add64 freed sz)
                          (d', db_remove rel (cm_mount_id cm) (snd s))))"

definition evict_to_fit :: "cache_manager \<Rightarrow> nat \<Rightarrow> store \<Rightarrow> nat \<times> store" where
  "evict_to_fit cm pending s =
     (let global_total = total_cached_bytes_global (snd s);
          target = cm_max_size_bytes cm - pending
      in if global_total \<le> target then (0, s)
         else fit_loop cm (global_total - target)
                (eviction_candidates (cm_mount_id cm) u64_max (snd s)) 0 s)"

definition has_free_space :: "statvfs_fn \<Rightarrow> cache_manager \<Rightarrow> disk \<Rightarrow> bool" where
  "has_free_space vfs cm d =
     (case free_space_bytes vfs d (cm_cache_dir cm) of None \<Rightarrow> False | Some free \<Rightarrow> free \<ge> cm_min_free_bytes cm)"

section \<open>Statistics\<close>

record cache_stats =
  cs_max_size_bytes :: nat
  cs_min_free_bytes :: nat
  cs_expiry_secs :: nat
  cs_free_space_bytes :: "nat option"
  cs_used_bytes :: nat
  cs_file_count :: nat
  cs_files :: "(path \<times> nat \<times> nat \<times> nat) list"

definition stat_entry :: "cache_manager \<Rightarrow> disk \<Rightarrow> (path \<rightharpoonup> nat \<times> nat) \<Rightarrow> path \<Rightarrow> (path \<times> nat \<times> nat \<times> nat) option" where
  "stat_entry cm d timestamps abs_path =
     (case metadata_len d abs_path of
        None \<Rightarrow> None
      | Some sz \<Rightarrow>
          let rel = (case strip_prefix abs_path (cm_cache_dir cm) of None \<Rightarrow> abs_path | Some r \<Rightarrow> r);
              (cached_at, last_hit_at) = (case timestamps rel of None \<Rightarrow> (0, 0) | Some t \<Rightarrow> t)
          in Some (rel, sz, cached_at, last_hit_at))"

definition manager_stats :: "statvfs_fn \<Rightarrow> cache_manager \<Rightarrow> store \<Rightarrow> cache_stats" where
  "manager_stats vfs cm s =
     (let files = List.map_filter (stat_entry cm (fst s) (file_timestamps (cm_mount_id cm) (snd s)))
                    (collect_cache_files (fst s) (cm_cache_dir cm))
      in \<lparr>cs_max_size_bytes = cm_max_size_bytes cm, cs_min_free_bytes = cm_min_free_bytes cm,
          cs_expiry_secs = cm_expiry_secs cm,
          cs_free_space_bytes = free_space_bytes vfs (fst s) (cm_cache_dir cm),
          cs_used_bytes = foldl (\<lambda>u e. add64 u (fst (snd e))) 0 files,
          cs_file_count = length files, cs_files = files\<rparr>)"

section \<open>Lemmas on eviction\<close>

text \<open>What each of the three loops does to one candidate.\<close>

definition evictable :: "disk \<Rightarrow> path \<Rightarrow> bool" where
  "evictable d p = (is_file_at d p \<and> p \<notin> set (stuck d))"

definition evict_step :: "cache_manager \<Rightarrow> path \<Rightarrow> store \<Rightarrow> store" where
  "evict_step cm rel s =
     (case remove_file (join (cm_cache_dir cm) rel) (fst s) of
        Inl _ \<Rightarrow> s
      | Inr d' \<Rightarrow> (d', db_remove rel (cm_mount_id cm) (snd s)))"

definition evict_all :: "cache_manager \<Rightarrow> path list \<Rightarrow> store \<Rightarrow> store" where
  "evict_all cm rels s = fold (evict_step cm) rels s"

definition evicted_paths :: "cache_manager \<Rightarrow> disk \<Rightarrow> path set \<Rightarrow> path set" where
  "evicted_paths cm d R = {rel \<in> R. evictable d (join (cm_cache_dir cm) rel)}"

lemma remove_file_evictable:
  "evictable d p \<Longrightarrow> remove_file p d = Inr (unlink_node p d)"
  by (auto simp: evictable_def remove_file_def is_file_at_def file_at_def split: option.splits node.splits)

lemma remove_file_not_evictable: "\<not> evictable d p \<Longrightarrow> \<exists>e. remove_file p d = Inl e"
  by (auto simp: evictable_def remove_file_def is_file_at_def file_at_def split: option.splits node.splits)

lemma evict_step_eq:
  "evict_step cm rel s =
     (if evictable (fst s) (join (cm_cache_dir cm) rel)
      then (unlink_node (join (cm_cache_dir cm) rel) (fst s), db_remove rel (cm_mount_id cm) (snd s)) else s)"
  using remove_file_not_evictable [of "fst s" "join (cm_cache_dir cm) rel"]
  by (auto simp: evict_step_def remove_file_evictable)

lemma is_file_purge: "is_file_at (purge S d) q = ((q = [] \<or> q \<notin> S) \<and> is_file_at d q)"
  by (auto simp: is_file_at_def file_at_def node_at_purge split: option.splits node.splits)

lemma not_file_root [simp]: "\<not> is_file_at d []"
  by (simp add: is_file_at_def file_at_def node_at_def)

lemma stuck_purge [simp]: "stuck (purge S d) = stuck d"
  by (simp add: purge_def)

lemma evictable_purge: "evictable (purge S d) q = (q \<notin> S \<and> evictable d q)"
  by (cases "q = []") (auto simp: evictable_def is_file_purge)

lemma evictable_unlink: "evictable (unlink_node p d) q = (q \<noteq> p \<and> evictable d q)"
  using evictable_purge [of "{p}" d q] unlink_purge [of p "{}" d] by (simp add: purge_id)

lemma cache_files_remove:
  "writable db \<Longrightarrow> cache_files (db_remove rel m db) =
     filter (\<lambda>r. \<not> (r_mount_id r = m \<and> r_rel_path r = rel)) (cache_files db)"
  by (simp add: db_remove_def row_delete_def row_key_def conj_commute)

lemma purge_unlink: "purge S (unlink_node p d) = purge (insert p S) d"
proof -
  have "unlink_node p d = purge {p} d" by (simp add: unlink_node_def purge_def)
  then show ?thesis by (simp add: purge_purge)
qed

text \<open>Evicting a list of candidates: the files that can be unlinked are gone with their rows, and
  nothing else changed.\<close>

lemma evict_all_spec:
  assumes "writable (snd s)"
  shows "fst (evict_all cm rels s) =
      purge (join (cm_cache_dir cm) ` evicted_paths cm (fst s) (set rels)) (fst s) \<and>
    snd (evict_all cm rels s) = (snd s)\<lparr>cache_files := filter (\<lambda>r. \<not> (r_mount_id r = cm_mount_id cm \<and>
      r_rel_path r \<in> evicted_paths cm (fst s) (set rels))) (cache_files (snd s))\<rparr>"
  using assms
proof (induction rels arbitrary: s)
  case Nil
  then show ?case by (simp add: evict_all_def evicted_paths_def purge_id)
next
  case (Cons rel rels)
  let ?p = "join (cm_cache_dir cm) rel"
  show ?case
  proof (cases "evictable (fst s) ?p")
    case False
    then have "evicted_paths cm (fst s) (set (rel # rels)) = evicted_paths cm (fst s) (set rels)"
      by (auto simp: evicted_paths_def)
    moreover have "evict_all cm (rel # rels) s = evict_all cm rels s"
      using False by (simp add: evict_all_def evict_step_eq)
    ultimately show ?thesis using Cons by simp
  next
    case True
    let ?s = "(unlink_node ?p (fst s), db_remove rel (cm_mount_id cm) (snd s))"
    have eq: "evict_all cm (rel # rels) s = evict_all cm rels ?s"
      using True by (simp add: evict_all_def evict_step_eq)
    have E: "insert rel (evicted_paths cm (unlink_node ?p (fst s)) (set rels)) = evicted_paths cm (fst s) (set (rel # rels))"
      using True by (auto simp: evicted_paths_def evictable_unlink)
    have "snd ?s = (snd s)\<lparr>cache_files := cache_files (db_remove rel (cm_mount_id cm) (snd s))\<rparr>"
      using Cons.prems by (simp add: db_remove_def)
    with Cons.IH [of ?s] Cons.prems show ?thesis unfolding eq E [symmetric]
      by (auto simp: purge_unlink cache_files_remove
          intro!: arg_cong [where f = "\<lambda>x. (snd s)\<lparr>cache_files := x\<rparr>"] filter_cong)
  qed
qed

lemma evict_all_append: "evict_all cm (xs @ ys) s = evict_all cm ys (evict_all cm xs s)"
  by (simp add: evict_all_def)

definition reclaimed_by :: "cache_manager \<Rightarrow> disk \<Rightarrow> (path \<times> nat) list \<Rightarrow> nat" where
  "reclaimed_by cm d xs = sum_list (map snd (filter (\<lambda>x. evictable d (join (cm_cache_dir cm) (fst x))) xs))"

lemma expiry_loop_state: "snd (snd (expiry_loop cm xs c r s)) = evict_all cm (map fst xs) s"
  by (induction cm xs c r s rule: expiry_loop.induct)
    (auto simp: evict_all_def evict_step_def split: sum.splits)

text \<open>The on-demand loop stops as soon as enough is freed: it processes a prefix of the candidates.\<close>

lemma fit_loop_spec:
  assumes "distinct (map fst xs)" and "freed + sum_list (map snd xs) < 2 ^ 64"
  shows "\<exists>pre post. xs = pre @ post \<and> snd (fit_loop cm need xs freed s) = evict_all cm (map fst pre) s \<and>
     fst (fit_loop cm need xs freed s) = freed + reclaimed_by cm (fst s) pre \<and>
     (fst (fit_loop cm need xs freed s) < need \<longrightarrow> post = []) \<and>
     (pre \<noteq> [] \<longrightarrow> freed + reclaimed_by cm (fst s) (butlast pre) < need)"
  using assms
proof (induction xs arbitrary: freed s)
  case Nil
  then show ?case by (simp add: evict_all_def reclaimed_by_def)
next
  case (Cons x xs)
  obtain rel sz where x: "x = (rel, sz)" by (cases x)
  let ?p = "join (cm_cache_dir cm) rel"
  show ?case
  proof (cases "need \<le> freed")
    case True
    then show ?thesis unfolding x
      by (intro exI [of _ "[]"] exI [of _ "(rel, sz) # xs"]) (simp add: evict_all_def reclaimed_by_def)
  next
    case False
    let ?s = "evict_step cm rel s"
    let ?f = "freed + (if evictable (fst s) ?p then sz else 0)"
    have step: "fit_loop cm need (x # xs) freed s = fit_loop cm need xs ?f ?s"
      using False Cons.prems(2) remove_file_not_evictable [of "fst s" ?p]
      by (auto simp: x evict_step_eq remove_file_evictable add64_small)
    have same: "evictable (fst ?s) (join (cm_cache_dir cm) (fst y)) = evictable (fst s) (join (cm_cache_dir cm) (fst y))"
      if "y \<in> set xs" for y
      using that Cons.prems(1) by (auto simp: x evict_step_eq evictable_unlink image_iff)
    have rec: "reclaimed_by cm (fst ?s) ys = reclaimed_by cm (fst s) ys" if "set ys \<subseteq> set xs" for ys
      unfolding reclaimed_by_def using that same by (metis (mono_tags, lifting) filter_cong subsetD)
    have "distinct (map fst xs)" "?f + sum_list (map snd xs) < 2 ^ 64"
      using Cons.prems by (auto simp: x)
    from Cons.IH [OF this, of ?s] obtain pre post where
      IH: "xs = pre @ post" "snd (fit_loop cm need xs ?f ?s) = evict_all cm (map fst pre) ?s"
        "fst (fit_loop cm need xs ?f ?s) = ?f + reclaimed_by cm (fst ?s) pre"
        "fst (fit_loop cm need xs ?f ?s) < need \<longrightarrow> post = []"
        "pre \<noteq> [] \<longrightarrow> ?f + reclaimed_by cm (fst ?s) (butlast pre) < need"
      by blast
    have sub: "set pre \<subseteq> set xs" "set (butlast pre) \<subseteq> set xs"
      using IH(1) by (auto dest: in_set_butlastD)
    show ?thesis
    proof (rule exI [of _ "x # pre"], rule exI [of _ post], intro conjI)
      show "x # xs = (x # pre) @ post" using IH(1) by simp
      show "snd (fit_loop cm need (x # xs) freed s) = evict_all cm (map fst (x # pre)) s"
        unfolding step IH(2) by (simp add: x evict_all_def)
      show "fst (fit_loop cm need (x # xs) freed s) = freed + reclaimed_by cm (fst s) (x # pre)"
        unfolding step IH(3) rec [OF sub(1)] by (simp add: x reclaimed_by_def)
      show "fst (fit_loop cm need (x # xs) freed s) < need \<longrightarrow> post = []"
        unfolding step by (rule IH(4))
      show "x # pre \<noteq> [] \<longrightarrow> freed + reclaimed_by cm (fst s) (butlast (x # pre)) < need"
        using IH(5) False rec [OF sub(2)] by (cases "pre = []") (auto simp: x reclaimed_by_def)
    qed
  qed
qed

text \<open>The size pass of the periodic eviction is the same loop.\<close>

lemma size_loop_fit:
  assumes "freed + sum_list (map snd xs) < 2 ^ 64"
  shows "snd (snd (size_loop cm xs (global_total - freed) c r s)) =
     snd (fit_loop cm (global_total - cm_max_size_bytes cm) xs freed s)"
  using assms
proof (induction xs arbitrary: freed c r s)
  case Nil
  then show ?case by simp
next
  case (Cons x xs)
  obtain rel sz where x: "x = (rel, sz)" by (cases x)
  have "global_total - freed \<le> cm_max_size_bytes cm \<longleftrightarrow> global_total - cm_max_size_bytes cm \<le> freed"
    by linarith
  then show ?case using Cons
    by (auto simp: x add64_small diff_diff_left split: sum.splits)
qed

section \<open>Totals\<close>

text \<open>Recorded sizes are sizes, and their sum is one: what every insertion establishes.\<close>

definition sizes_ok :: "cache_db \<Rightarrow> bool" where
  "sizes_ok db = ((\<forall>r \<in> set (cache_files db). 0 \<le> r_size_bytes r) \<and>
     sum_list (map r_size_bytes (cache_files db)) < 2 ^ 63)"

definition bytes_of :: "cache_row list \<Rightarrow> nat" where
  "bytes_of rows = sum_list (map (\<lambda>r. max0_u64 (r_size_bytes r)) rows)"

lemma sql_sum_total:
  "0 \<le> acc \<Longrightarrow> \<forall>x \<in> set xs. 0 \<le> x \<Longrightarrow> acc + sum_list xs < 2 ^ 63 \<Longrightarrow> sql_sum acc xs = Some (acc + sum_list xs)"
proof (induction xs arbitrary: acc)
  case Nil
  then show ?case by simp
next
  case (Cons x xs)
  have "0 \<le> sum_list xs" using Cons.prems(2) by (intro sum_list_nonneg) simp
  then show ?case using Cons.prems by (simp add: Cons.IH add.assoc)
qed

lemma bytes_of_int:
  "\<forall>r \<in> set rows. 0 \<le> r_size_bytes r \<Longrightarrow> int (bytes_of rows) = sum_list (map r_size_bytes rows)"
  by (induction rows) (simp_all add: bytes_of_def max0_u64_def)

lemma sum_list_filter_le:
  "\<forall>x \<in> set xs. 0 \<le> f x \<Longrightarrow> sum_list (map f (filter P xs)) \<le> (sum_list (map f xs) :: int)"
  by (induction xs) auto

lemma sizes_ok_filter: "sizes_ok db \<Longrightarrow> sizes_ok (db\<lparr>cache_files := filter P (cache_files db)\<rparr>)"
  using sum_list_filter_le [of "cache_files db" r_size_bytes P] by (auto simp: sizes_ok_def)

lemma total_global_bytes:
  assumes "db_usable db" and "sizes_ok db"
  shows "total_cached_bytes_global db = bytes_of (cache_files db)"
proof -
  have "sql_sum 0 (map r_size_bytes (cache_files db)) = Some (0 + sum_list (map r_size_bytes (cache_files db)))"
    using assms(2) by (intro sql_sum_total) (auto simp: sizes_ok_def)
  moreover have "sum_list (map r_size_bytes (cache_files db)) = int (bytes_of (cache_files db))"
    using assms(2) bytes_of_int [of "cache_files db"] by (simp add: sizes_ok_def)
  ultimately show ?thesis
    using assms(1) by (simp add: total_cached_bytes_global_def sum_bytes_def)
qed

lemma bytes_of_filter: "bytes_of (filter P rows) + bytes_of (filter (\<lambda>r. \<not> P r) rows) = bytes_of rows"
  by (induction rows) (simp_all add: bytes_of_def)

lemma bytes_of_mset: "mset xs = mset ys \<Longrightarrow> bytes_of xs = bytes_of ys"
  unfolding bytes_of_def by (metis mset_map sum_mset_sum_list)

text \<open>What a pass over a prefix of the candidates frees is what the database loses.\<close>

lemma map_fst_path_size: "map fst (map path_size rows) = map r_rel_path rows"
  by (simp add: path_size_def)

lemma distinct_mount_paths: "db_ok db \<Longrightarrow> distinct (map r_rel_path (mount_rows m db))"
proof -
  assume "db_ok db"
  then have "distinct (map row_key (mount_rows m db))"
    by (auto simp: db_ok_def unique_key_def mount_rows_def distinct_map_filter)
  then show ?thesis
    by (auto simp: distinct_map inj_on_def row_key_def mount_rows_def)
qed

lemma evict_prefix_total:
  assumes "writable db" and "db_ok db" and "sizes_ok db"
    and "mset (rows @ rest) = mset (mount_rows (cm_mount_id cm) db)"
  shows "bytes_of (cache_files (snd (evict_all cm (map r_rel_path rows) (d, db)))) +
           reclaimed_by cm d (map path_size rows) = bytes_of (cache_files db)"
proof -
  let ?E = "\<lambda>r. r_mount_id r = cm_mount_id cm \<and> r_rel_path r \<in> evicted_paths cm d (set (map r_rel_path rows))"
  let ?V = "\<lambda>r. evictable d (join (cm_cache_dir cm) (r_rel_path r))"
  have files: "cache_files (snd (evict_all cm (map r_rel_path rows) (d, db))) = filter (\<lambda>r. \<not> ?E r) (cache_files db)"
    using evict_all_spec [of "(d, db)" cm "map r_rel_path rows"] assms(1) by simp
  have mem: "set (rows @ rest) = set (mount_rows (cm_mount_id cm) db)"
    using assms(4) by (rule mset_eq_setD)
  have dist: "distinct (map r_rel_path (rows @ rest))"
    using distinct_mount_paths [OF assms(2)] assms(4)
    by (metis mset_map mset_eq_imp_distinct_iff)
  have rest: "\<not> ?E r" if "r \<in> set rest" for r
    using dist that by (auto simp: evicted_paths_def)
  have rows: "?E r \<longleftrightarrow> ?V r" if "r \<in> set rows" for r
    using mem that by (auto simp: evicted_paths_def mount_rows_def)
  have "filter ?E (cache_files db) = filter ?E (mount_rows (cm_mount_id cm) db)"
    by (simp add: mount_rows_def)
  moreover have "mset (filter ?E (mount_rows (cm_mount_id cm) db)) = mset (filter ?E (rows @ rest))"
    by (simp only: mset_filter assms(4))
  ultimately have "mset (filter ?E (cache_files db)) = mset (filter ?E (rows @ rest))" by metis
  then have "bytes_of (filter ?E (cache_files db)) = bytes_of (filter ?E (rows @ rest))"
    by (rule bytes_of_mset)
  also have "filter ?E rest = []" using rest by (simp only: filter_empty_conv) blast
  then have "filter ?E (rows @ rest) = filter ?E rows" by (simp only: filter_append append_Nil2)
  also have "filter ?E rows = filter ?V rows" using rows by (rule filter_cong [OF refl])
  also have "bytes_of (filter ?V rows) = reclaimed_by cm d (map path_size rows)"
    by (simp add: bytes_of_def reclaimed_by_def path_size_def filter_map comp_def)
  finally show ?thesis using bytes_of_filter [of ?E "cache_files db"] by (simp add: files)
qed

lemma as_i64_u64_max: "as_i64 u64_max = -1"
  by (simp add: as_i64_def u64_max_def)

lemma all_candidates:
  "db_usable db \<Longrightarrow> eviction_candidates m u64_max db = map path_size (sort_key r_last_hit_at (mount_rows m db))"
  by (simp add: eviction_candidates_def sql_limit_def as_i64_u64_max)

lemma bytes_of_candidates:
  "sum_list (map snd (map path_size (sort_key r_last_hit_at (mount_rows m db)))) = bytes_of (mount_rows m db)"
proof -
  have "sum_list (map snd (map path_size rows)) = bytes_of rows" for rows
    by (simp add: bytes_of_def path_size_def comp_def)
  then show ?thesis by (metis bytes_of_mset mset_sort)
qed

lemma mount_rows_small:
  assumes "sizes_ok db"
  shows "bytes_of (mount_rows m db) < 2 ^ 63"
proof -
  have "int (bytes_of (cache_files db)) < int (2 ^ 63)"
    using assms bytes_of_int [of "cache_files db"] by (simp add: sizes_ok_def)
  then have "bytes_of (cache_files db) < 2 ^ 63" by (simp only: of_nat_less_iff)
  moreover have "bytes_of (mount_rows m db) \<le> bytes_of (cache_files db)"
    using bytes_of_filter [of "\<lambda>r. r_mount_id r = m" "cache_files db"] by (simp add: mount_rows_def)
  ultimately show ?thesis by (rule le_less_trans [rotated])
qed

lemma evict_all_rows:
  "writable db \<Longrightarrow> r \<in> set (mount_rows (cm_mount_id cm) (snd (evict_all cm rels (d, db)))) \<Longrightarrow>
   r \<in> set (mount_rows (cm_mount_id cm) db) \<and>
   (r_rel_path r \<in> set rels \<longrightarrow> \<not> evictable (fst (evict_all cm rels (d, db))) (join (cm_cache_dir cm) (r_rel_path r)))"
  using evict_all_spec [of "(d, db)" cm rels]
  by (auto simp: mount_rows_def evictable_purge evicted_paths_def)

lemma fit_pass:
  assumes "writable db" and "db_ok db" and "sizes_ok db"
    and run: "fit_loop cm need (eviction_candidates (cm_mount_id cm) u64_max db) 0 (d, db) = (freed, d', db')"
  shows "bytes_of (cache_files db') + freed = bytes_of (cache_files db) \<and>
    sizes_ok db' \<and> writable db' \<and>
    (\<exists>rels. (d', db') = evict_all cm rels (d, db) \<and>
       set rels \<subseteq> r_rel_path ` set (mount_rows (cm_mount_id cm) db)) \<and>
    (freed < need \<longrightarrow> (\<forall>r \<in> set (mount_rows (cm_mount_id cm) db').
       \<not> evictable d' (join (cm_cache_dir cm) (r_rel_path r))))"
proof -
  let ?all = "sort_key r_last_hit_at (mount_rows (cm_mount_id cm) db)"
  let ?xs = "map path_size ?all"
  have xs: "eviction_candidates (cm_mount_id cm) u64_max db = ?xs"
    using assms(1) by (simp add: all_candidates)
  have "mset ?all = mset (mount_rows (cm_mount_id cm) db)" by simp
  then have dist: "distinct (map fst ?xs)" unfolding map_fst_path_size
    using distinct_mount_paths [OF assms(2)] by (metis mset_map mset_eq_imp_distinct_iff)
  have "0 + sum_list (map snd ?xs) < 2 ^ 64"
    using mount_rows_small [OF assms(3), of "cm_mount_id cm"] unfolding bytes_of_candidates by simp
  from fit_loop_spec [OF dist this, of cm need "(d, db)"] obtain pre post where
    pp: "?xs = pre @ post" "(d', db') = evict_all cm (map fst pre) (d, db)"
      "freed = reclaimed_by cm d pre" "freed < need \<longrightarrow> post = []"
    using run unfolding xs by auto
  define prows where "prows = take (length pre) ?all"
  have pre: "pre = map path_size prows" "post = map path_size (drop (length pre) ?all)"
    using pp(1) by (metis append_eq_conv_conj take_map prows_def, metis append_eq_conv_conj drop_map)
  have mset: "mset (prows @ drop (length pre) ?all) = mset (mount_rows (cm_mount_id cm) db)"
    by (simp add: prows_def)
  have ev: "(d', db') = evict_all cm (map r_rel_path prows) (d, db)"
    using pp(2) by (simp add: pre(1) comp_def path_size_def)
  then have db': "db' = snd (evict_all cm (map r_rel_path prows) (d, db))"
    and d': "d' = fst (evict_all cm (map r_rel_path prows) (d, db))" by (metis snd_conv, metis fst_conv)
  have total: "bytes_of (cache_files db') + freed = bytes_of (cache_files db)"
    using evict_prefix_total [OF assms(1-3) mset, of d] by (simp add: db' pp(3) pre(1))
  have "sizes_ok db' \<and> writable db'"
    using evict_all_spec [of "(d, db)" cm "map r_rel_path prows"] assms(1) sizes_ok_filter [OF assms(3)]
    by (simp add: db')
  moreover have "\<not> evictable d' (join (cm_cache_dir cm) (r_rel_path r))"
    if "freed < need" "r \<in> set (mount_rows (cm_mount_id cm) db')" for r
  proof -
    have "drop (length pre) ?all = []" using pp(4) that(1) pre(2) by simp
    then have "mset prows = mset (mount_rows (cm_mount_id cm) db)" using mset by simp
    then have "set prows = set (mount_rows (cm_mount_id cm) db)" by (rule mset_eq_setD)
    with evict_all_rows [OF assms(1) that(2) [unfolded db']] show ?thesis by (auto simp: d')
  qed
  moreover have "set (map r_rel_path prows) \<subseteq> r_rel_path ` set (mount_rows (cm_mount_id cm) db)"
    using mset_eq_setD [OF mset] by auto
  ultimately show ?thesis using total ev by blast
qed

text \<open>C18. Making room for a copy: the bytes the call reports are exactly what the cache lost, and
  afterwards the pending file fits under the limit, unless not one file of this mount that is left
  can be deleted.\<close>

theorem evict_to_fit_makes_room:
  assumes "writable db" and "db_ok db" and "sizes_ok db"
    and "evict_to_fit cm pending (d, db) = (freed, d', db')"
  shows "total_cached_bytes_global db' + freed = total_cached_bytes_global db \<and>
    (total_cached_bytes_global db' \<le> cm_max_size_bytes cm - pending \<or>
     (\<forall>r \<in> set (mount_rows (cm_mount_id cm) db').
        \<not> evictable d' (join (cm_cache_dir cm) (r_rel_path r))))"
proof (cases "total_cached_bytes_global db \<le> cm_max_size_bytes cm - pending")
  case True
  then show ?thesis using assms(4) by (auto simp: evict_to_fit_def)
next
  case False
  let ?need = "total_cached_bytes_global db - (cm_max_size_bytes cm - pending)"
  have "fit_loop cm ?need (eviction_candidates (cm_mount_id cm) u64_max db) 0 (d, db) = (freed, d', db')"
    using assms(4) False by (simp add: evict_to_fit_def)
  from fit_pass [OF assms(1-3) this]
  have fit: "bytes_of (cache_files db') + freed = bytes_of (cache_files db)" "sizes_ok db'" "writable db'"
    "freed < ?need \<longrightarrow> (\<forall>r \<in> set (mount_rows (cm_mount_id cm) db').
        \<not> evictable d' (join (cm_cache_dir cm) (r_rel_path r)))" by blast+
  have "total_cached_bytes_global db' + freed = total_cached_bytes_global db"
    using fit assms(1,3) by (simp add: total_global_bytes)
  moreover from this have "total_cached_bytes_global db' \<le> cm_max_size_bytes cm - pending" if "\<not> freed < ?need"
    using that by linarith
  ultimately show ?thesis using fit(4) by blast
qed

lemma db_ok_filter: "db_ok db \<Longrightarrow> db_ok (db\<lparr>cache_files := filter P (cache_files db)\<rparr>)"
  by (auto simp: db_ok_def intro: unique_key_filter)

lemma evict_all_ok:
  assumes "writable db" and "db_ok db" and "sizes_ok db"
  shows "writable (snd (evict_all cm rels (d, db))) \<and> db_ok (snd (evict_all cm rels (d, db))) \<and>
    sizes_ok (snd (evict_all cm rels (d, db)))"
  using evict_all_spec [of "(d, db)" cm rels] assms by (simp add: db_ok_filter sizes_ok_filter)

lemma evict_all_exists:
  "writable db \<Longrightarrow> path_exists d p \<Longrightarrow> \<not> path_exists (fst (evict_all cm rels (d, db))) p \<Longrightarrow>
   p \<in> join (cm_cache_dir cm) ` set rels"
  using evict_all_spec [of "(d, db)" cm rels]
  by (auto simp: path_exists_def node_at_purge evicted_paths_def split: if_splits)

lemma evict_all_not_evictable:
  "writable db \<Longrightarrow> \<not> evictable d p \<Longrightarrow> \<not> evictable (fst (evict_all cm rels (d, db))) p"
  using evict_all_spec [of "(d, db)" cm rels] by (simp add: evictable_purge)

text \<open>The state after each of the two passes is an eviction of rows of the mount.\<close>

definition mount_eviction :: "cache_manager \<Rightarrow> store \<Rightarrow> store \<Rightarrow> bool" where
  "mount_eviction cm s s' = (\<exists>rels. s' = evict_all cm rels s \<and>
     set rels \<subseteq> r_rel_path ` set (mount_rows (cm_mount_id cm) (snd s)))"

lemma mount_eviction_trans:
  assumes "writable (snd s)" and "mount_eviction cm s s'" and "mount_eviction cm s' s''"
  shows "mount_eviction cm s s''"
proof -
  obtain rels where r: "s' = evict_all cm rels s" "set rels \<subseteq> r_rel_path ` set (mount_rows (cm_mount_id cm) (snd s))"
    using assms(2) by (auto simp: mount_eviction_def)
  obtain rels' where r': "s'' = evict_all cm rels' s'" "set rels' \<subseteq> r_rel_path ` set (mount_rows (cm_mount_id cm) (snd s'))"
    using assms(3) by (auto simp: mount_eviction_def)
  have "set (mount_rows (cm_mount_id cm) (snd s')) \<subseteq> set (mount_rows (cm_mount_id cm) (snd s))"
    using evict_all_rows [of "snd s" _ cm rels "fst s"] assms(1) r(1) by auto
  then have "set rels' \<subseteq> r_rel_path ` set (mount_rows (cm_mount_id cm) (snd s))"
    by (rule subset_trans [OF r'(2) image_mono])
  with r(2) have "set (rels @ rels') \<subseteq> r_rel_path ` set (mount_rows (cm_mount_id cm) (snd s))" by simp
  moreover have "s'' = evict_all cm (rels @ rels') s" by (simp add: evict_all_append r(1) r'(1))
  ultimately show ?thesis unfolding mount_eviction_def by blast
qed

lemma expired_paths: "set (map fst (expired_files now m secs db)) \<subseteq> r_rel_path ` set (mount_rows m db)"
  by (auto simp: expired_files_def Let_def path_size_def)

lemma size_pass:
  assumes "writable db" and "db_ok db" and "sizes_ok db"
    and "total_cached_bytes_global db > cm_max_size_bytes cm"
    and run: "size_loop cm (eviction_candidates (cm_mount_id cm) u64_max db) (total_cached_bytes_global db) c r (d, db)
       = (c', r', d', db')"
  shows "mount_eviction cm (d, db) (d', db') \<and>
    (total_cached_bytes_global db' \<le> cm_max_size_bytes cm \<or>
     (\<forall>r \<in> set (mount_rows (cm_mount_id cm) db'). \<not> evictable d' (join (cm_cache_dir cm) (r_rel_path r))))"
proof -
  let ?xs = "eviction_candidates (cm_mount_id cm) u64_max db"
  let ?need = "total_cached_bytes_global db - cm_max_size_bytes cm"
  have "0 + sum_list (map snd ?xs) < 2 ^ 64"
    using mount_rows_small [OF assms(3), of "cm_mount_id cm"] assms(1)
    by (simp only: all_candidates writable_usable bytes_of_candidates) simp
  from size_loop_fit [OF this, of cm "total_cached_bytes_global db" c r "(d, db)"]
  have "snd (fit_loop cm ?need ?xs 0 (d, db)) = (d', db')" using run by simp
  then obtain freed where "fit_loop cm ?need ?xs 0 (d, db) = (freed, d', db')"
    by (metis prod.collapse)
  from fit_pass [OF assms(1-3) this]
  have fit: "bytes_of (cache_files db') + freed = bytes_of (cache_files db)" "sizes_ok db'" "writable db'"
    "mount_eviction cm (d, db) (d', db')"
    "freed < ?need \<longrightarrow> (\<forall>r \<in> set (mount_rows (cm_mount_id cm) db').
        \<not> evictable d' (join (cm_cache_dir cm) (r_rel_path r)))"
    unfolding mount_eviction_def snd_conv by blast+
  have "total_cached_bytes_global db' \<le> cm_max_size_bytes cm" if "\<not> freed < ?need"
    using that fit(1-3) assms(1,3,4) by (simp add: total_global_bytes)
  with fit(4,5) show ?thesis by blast
qed

lemma evict_if_needed_spec:
  assumes "writable db" and "db_ok db" and "sizes_ok db"
    and "evict_if_needed now cm (d, db) = (counts, d', db')"
  shows "(total_cached_bytes_global db' \<le> cm_max_size_bytes cm \<or>
      (\<forall>r \<in> set (mount_rows (cm_mount_id cm) db'). \<not> evictable d' (join (cm_cache_dir cm) (r_rel_path r)))) \<and>
    (cm_expiry_secs cm \<noteq> 0 \<longrightarrow> (\<forall>r \<in> set (mount_rows (cm_mount_id cm) db').
       r_last_hit_at r < as_i64 (now - cm_expiry_secs cm) \<longrightarrow>
       \<not> evictable d' (join (cm_cache_dir cm) (r_rel_path r)))) \<and>
    mount_eviction cm (d, db) (d', db')"
proof -
  define ex where "ex = (if cm_expiry_secs cm \<noteq> 0
      then map fst (expired_files now (cm_mount_id cm) (cm_expiry_secs cm) db) else [])"
  define s1 where "s1 = evict_all cm ex (d, db)"
  obtain d1 db1 where s1: "s1 = (d1, db1)" by (cases s1)
  have me1: "mount_eviction cm (d, db) (d1, db1)"
  proof -
    have "set ex \<subseteq> r_rel_path ` set (mount_rows (cm_mount_id cm) db)"
      using expired_paths [of now "cm_mount_id cm" "cm_expiry_secs cm" db] unfolding ex_def
      by (cases "cm_expiry_secs cm = 0") simp_all
    then show ?thesis unfolding mount_eviction_def s1 [symmetric] s1_def snd_conv by blast
  qed
  have ok1: "writable db1" "db_ok db1" "sizes_ok db1"
    using evict_all_ok [OF assms(1-3), of cm ex d] s1 by (simp_all add: s1_def)
  have old: "\<not> evictable d1 (join (cm_cache_dir cm) (r_rel_path r))"
    if "cm_expiry_secs cm \<noteq> 0" "r \<in> set (mount_rows (cm_mount_id cm) db1)"
      "r_last_hit_at r < as_i64 (now - cm_expiry_secs cm)" for r
  proof -
    have r: "r \<in> set (mount_rows (cm_mount_id cm) db)"
      "r_rel_path r \<in> set ex \<longrightarrow> \<not> evictable d1 (join (cm_cache_dir cm) (r_rel_path r))"
      using evict_all_rows [OF assms(1), of r cm ex d] that(2) s1 by (simp_all add: s1_def)
    have "r_rel_path r \<in> set ex"
      using that r(1) assms(1) by (force simp: ex_def expired_files_def Let_def path_size_def)
    with r(2) show ?thesis by blast
  qed
  have "\<exists>c. (\<exists>r0. expiry_loop cm (expired_files now (cm_mount_id cm) (cm_expiry_secs cm) db) 0 0 (d, db) = (c, r0, d1, db1))"
    if "cm_expiry_secs cm \<noteq> 0"
    using expiry_loop_state [of cm "expired_files now (cm_mount_id cm) (cm_expiry_secs cm) db" 0 0 "(d, db)"] that
    using s1 by (simp add: s1_def ex_def) (metis prod.collapse)
  then obtain c0 r0 where pass1: "expiry_pass now cm (d, db) = (c0, r0, d1, db1)"
    using s1 by (cases "cm_expiry_secs cm = 0") (auto simp: s1_def ex_def evict_all_def expiry_pass_def)
  show ?thesis
  proof (cases "total_cached_bytes_global db1 > cm_max_size_bytes cm")
    case False
    then have "(d', db') = (d1, db1)"
      using assms(4) by (simp add: evict_if_needed_def pass1)
    with False me1 old show ?thesis by auto
  next
    case True
    obtain c2 r2 d2 db2 where run: "size_loop cm (eviction_candidates (cm_mount_id cm) u64_max db1)
        (total_cached_bytes_global db1) 0 r0 (d1, db1) = (c2, r2, d2, db2)" by (metis prod.collapse)
    then have eq: "(d', db') = (d2, db2)"
      using assms(4) True by (simp add: evict_if_needed_def pass1 run)
    have sp: "mount_eviction cm (d1, db1) (d', db')"
      "total_cached_bytes_global db' \<le> cm_max_size_bytes cm \<or>
       (\<forall>r \<in> set (mount_rows (cm_mount_id cm) db'). \<not> evictable d' (join (cm_cache_dir cm) (r_rel_path r)))"
      using size_pass [OF ok1 True run] eq by auto
    obtain rels where rels: "(d', db') = evict_all cm rels (d1, db1)" using sp(1) by (auto simp: mount_eviction_def)
    have "\<not> evictable d' (join (cm_cache_dir cm) (r_rel_path r))"
      if "cm_expiry_secs cm \<noteq> 0" "r \<in> set (mount_rows (cm_mount_id cm) db')"
        "r_last_hit_at r < as_i64 (now - cm_expiry_secs cm)" for r
    proof -
      have "r \<in> set (mount_rows (cm_mount_id cm) db1)"
        using evict_all_rows [OF ok1(1), of r cm rels d1] that(2) rels by (metis snd_conv)
      with old that have "\<not> evictable d1 (join (cm_cache_dir cm) (r_rel_path r))" by blast
      with evict_all_not_evictable [OF ok1(1), of d1 _ cm rels] rels show ?thesis by (metis fst_conv)
    qed
    moreover have "mount_eviction cm (d, db) (d', db')"
      using mount_eviction_trans [OF _ me1 sp(1)] assms(1) by simp
    ultimately show ?thesis using sp(2) by blast
  qed
qed

text \<open>C19. The periodic eviction: afterwards the cache is within its limit or this mount has no file
  left that could be deleted; no file that could be deleted is older than the expiry; and only files
  the database lists for this mount were deleted.\<close>

theorem evict_if_needed_bounds:
  assumes "writable db" and "db_ok db" and "sizes_ok db"
    and "evict_if_needed now cm (d, db) = (counts, d', db')"
  shows "(total_cached_bytes_global db' \<le> cm_max_size_bytes cm \<or>
      (\<forall>r \<in> set (mount_rows (cm_mount_id cm) db'). \<not> evictable d' (join (cm_cache_dir cm) (r_rel_path r)))) \<and>
    (cm_expiry_secs cm \<noteq> 0 \<longrightarrow> (\<forall>r \<in> set (mount_rows (cm_mount_id cm) db').
       r_last_hit_at r < as_i64 (now - cm_expiry_secs cm) \<longrightarrow>
       \<not> evictable d' (join (cm_cache_dir cm) (r_rel_path r)))) \<and>
    mount_eviction cm (d, db) (d', db')"
  using assms by (rule evict_if_needed_spec)

lemma evict_if_needed_mount:
  "writable db \<Longrightarrow> db_ok db \<Longrightarrow> sizes_ok db \<Longrightarrow> mount_eviction cm (d, db) (snd (evict_if_needed now cm (d, db)))"
  using evict_if_needed_spec [of db now cm d "fst (evict_if_needed now cm (d, db))"
      "fst (snd (evict_if_needed now cm (d, db)))" "snd (snd (evict_if_needed now cm (d, db)))"] by simp

section \<open>Lemmas on staleness\<close>

lemma fingerprint_mark_cached [table_simps]:
  "writable db \<Longrightarrow> fingerprint_row rel m (db_mark_cached now rel' m' s db) =
     (if rel = rel' \<and> m = m'
      then Some \<lparr>fp_mtime_secs = sm_mtime_sec s, fp_mtime_nsecs = sm_mtime_nsec s,
                 fp_size_bytes = max0_u64 (as_i64 (sm_size s))\<rparr>
      else fingerprint_row rel m db)"
  by (simp add: fingerprint_row_def find_row_mark_cached row_fingerprint_def)

lemma fingerprint_remove [table_simps]:
  "writable db \<Longrightarrow> fingerprint_row rel m (db_remove rel' m' db) =
     (if rel = rel' \<and> m = m' then None else fingerprint_row rel m db)"
  by (simp add: fingerprint_row_def find_row_remove)

lemma fingerprint_update [table_simps]:
  "writable db \<Longrightarrow> fingerprint_row rel m (db_update_source_metadata rel' m' s db) =
     (if rel = rel' \<and> m = m'
      then map_option (\<lambda>fp. fp\<lparr>fp_mtime_secs := sm_mtime_sec s, fp_mtime_nsecs := sm_mtime_nsec s\<rparr>) (fingerprint_row rel m db)
      else fingerprint_row rel m db)"
  by (cases "find_row rel' m' db")
    (auto simp: fingerprint_row_def find_row_update_source row_fingerprint_def)

lemma from_stat_mtime [simp]: "sm_mtime_sec (from_stat st) = st_mtime st" "sm_mtime_nsec (from_stat st) = st_mtime_nsec st"
    "sm_size (from_stat st) = max0_u64 (st_size st)"
  by (simp_all add: from_stat_def)

lemma refresh_fingerprint:
  assumes "writable db"
  shows "fingerprint_row rel' m' (refresh_source_metadata cm rel live db) = fingerprint_row rel' m' db"
proof (cases "fingerprint_row rel (cm_mount_id cm) db")
  case None
  then show ?thesis by (simp add: refresh_source_metadata_def)
next
  case (Some fp)
  have "fingerprint_row rel' m' (db_update_source_metadata rel (cm_mount_id cm) (from_stat live) db) = fingerprint_row rel' m' db"
    if "content_matches fp live"
    using assms Some that by (auto simp: fingerprint_update content_matches_def)
  with Some show ?thesis by (auto simp: refresh_source_metadata_def Let_def split: option.splits)
qed

lemma writable_refresh [simp]: "writable (refresh_source_metadata cm rel live db) = writable db"
  by (simp add: refresh_source_metadata_def Let_def split: option.splits)

text \<open>A refresh after a chmod or chown of the source updates what the cache reports and nothing
  that staleness is judged by: every fingerprint keeps its value, and the stored attributes are the
  live ones afterwards.\<close>

theorem refresh_is_attributes_only:
  assumes "writable db" and "fingerprint_row rel (cm_mount_id cm) db = Some fp"
    and "content_matches fp live" and "fp_mtime_secs fp \<noteq> 0"
    and "fits (from_stat live)" and "has_snapshot (from_stat live)"
  shows "(\<forall>rel' m'. fingerprint_row rel' m' (refresh_source_metadata cm rel live db) = fingerprint_row rel' m' db) \<and>
    (\<exists>stored. source_metadata_row rel (cm_mount_id cm) (refresh_source_metadata cm rel live db) = Some stored \<and>
       attrs_match stored (from_stat live))"
proof -
  obtain r where r: "find_row rel (cm_mount_id cm) db = Some r" using assms(2) by (auto simp: fingerprint_row_def)
  have "source_metadata_row rel (cm_mount_id cm) (db_update_source_metadata rel (cm_mount_id cm) (from_stat live) db) =
      Some (from_stat live)"
    using assms(1,5,6) r by (simp add: source_metadata_row_def find_row_update_source)
  moreover have "attrs_match (from_stat live) (from_stat live)" by (simp add: attrs_match_def)
  ultimately have "\<exists>stored. source_metadata_row rel (cm_mount_id cm) (refresh_source_metadata cm rel live db) = Some stored \<and>
       attrs_match stored (from_stat live)"
    using assms(2-4) by (auto simp: refresh_source_metadata_def Let_def split: option.splits)
  with refresh_fingerprint [OF assms(1)] show ?thesis by blast
qed

section \<open>The stale sweep\<close>

definition kernel_ok :: "backing_kernel \<Rightarrow> bool" where
  "kernel_ok k = (\<forall>p st. bs_stat k p = Some st \<longrightarrow> 0 \<le> st_size st \<and> st_size st < 2 ^ 63)"

definition swept_fingerprint :: "cache_manager \<Rightarrow> backing_kernel \<Rightarrow> path \<Rightarrow> fingerprint \<Rightarrow> fingerprint option" where
  "swept_fingerprint cm k rel fp =
     (case is_stale_with_fingerprint cm k rel fp of
        Stale \<Rightarrow> None
      | BackingGone \<Rightarrow> None
      | NeedsBackfill st \<Rightarrow> Some \<lparr>fp_mtime_secs = st_mtime st, fp_mtime_nsecs = st_mtime_nsec st,
          fp_size_bytes = max0_u64 (as_i64 (max0_u64 (st_size st)))\<rparr>
      | _ \<Rightarrow> Some fp)"

lemma sweep_one_writable: "writable (snd s) \<Longrightarrow> writable (snd (snd (sweep_one now cm k row (n, s))))"
  by (auto simp: sweep_one_def drop_stale_def backfill_fingerprint_def mark_cached_def Let_def
      split: prod.splits stale_result.splits)

lemma sweep_one_fingerprint:
  assumes "writable (snd s)" and "fingerprint_row rel (cm_mount_id cm) (snd s) = Some fp"
  shows "fingerprint_row rel' m' (snd (snd (sweep_one now cm k (rel, fp) (n, s)))) =
     (if rel' = rel \<and> m' = cm_mount_id cm then swept_fingerprint cm k rel fp else fingerprint_row rel' m' (snd s))"
  using assms
  by (auto simp: sweep_one_def drop_stale_def backfill_fingerprint_def mark_cached_def Let_def
      swept_fingerprint_def table_simps refresh_fingerprint split: stale_result.splits)

lemma sweep_fold:
  assumes "writable (snd s)" and "distinct (map fst rows)"
    and "\<forall>(rel, fp) \<in> set rows. fingerprint_row rel (cm_mount_id cm) (snd s) = Some fp"
  shows "(\<forall>(rel, fp) \<in> set rows. fingerprint_row rel (cm_mount_id cm) (snd (snd (fold (sweep_one now cm k) rows (n, s))))
        = swept_fingerprint cm k rel fp) \<and>
    (\<forall>rel m. m \<noteq> cm_mount_id cm \<or> rel \<notin> fst ` set rows \<longrightarrow>
       fingerprint_row rel m (snd (snd (fold (sweep_one now cm k) rows (n, s)))) = fingerprint_row rel m (snd s))"
  using assms
proof (induction rows arbitrary: n s)
  case Nil
  then show ?case by simp
next
  case (Cons row rows)
  obtain rel fp where row: "row = (rel, fp)" by (cases row)
  obtain n' s' where step: "sweep_one now cm k (rel, fp) (n, s) = (n', s')" by (metis prod.collapse)
  have fp: "fingerprint_row rel (cm_mount_id cm) (snd s) = Some fp" using Cons.prems(3) by (simp add: row)
  have eff: "fingerprint_row rel' m' (snd s') =
      (if rel' = rel \<and> m' = cm_mount_id cm then swept_fingerprint cm k rel fp else fingerprint_row rel' m' (snd s))" for rel' m'
    using sweep_one_fingerprint [OF Cons.prems(1) fp, of rel' m' now k n] by (simp add: step)
  have w: "writable (snd s')" using sweep_one_writable [OF Cons.prems(1), of now cm k "(rel, fp)" n] by (simp add: step)
  have "rel \<notin> fst ` set rows" using Cons.prems(2) by (simp add: row)
  moreover from this have "\<forall>(rel', fp') \<in> set rows. fingerprint_row rel' (cm_mount_id cm) (snd s') = Some fp'"
    using Cons.prems(3) eff by (force simp: row)
  ultimately show ?case
    using Cons.IH [OF w, of n'] Cons.prems(2) eff by (auto simp: row step)
qed

lemma swept_not_stale:
  assumes "kernel_ok k" and "cm_has_backing cm" and "swept_fingerprint cm k rel fp = Some fp'"
  shows "case is_stale_with_fingerprint cm k rel fp' of Stale \<Rightarrow> False | BackingGone \<Rightarrow> False
    | NeedsBackfill st \<Rightarrow> st_mtime st = 0 \<and> st_mtime_nsec st = 0 | _ \<Rightarrow> True"
proof (cases "bs_stat k rel")
  case None
  then show ?thesis using assms(2,3) by (simp add: swept_fingerprint_def is_stale_with_fingerprint_def)
next
  case (Some st)
  then have "0 \<le> st_size st" "st_size st < 2 ^ 63" using assms(1) by (auto simp: kernel_ok_def)
  then have sz: "max0_u64 (as_i64 (max0_u64 (st_size st))) = as_u64 (st_size st)"
    by (simp add: max0_u64_def as_i64_def as_u64_def)
  show ?thesis using assms(2,3) Some sz
    by (auto simp: swept_fingerprint_def is_stale_with_fingerprint_def content_matches_def
        split: if_splits)
qed

lemma all_fingerprints_row:
  assumes "db_usable db" and "db_ok db"
  shows "\<forall>(rel, fp) \<in> set (all_fingerprints m db). fingerprint_row rel m db = Some fp"
    and "distinct (map fst (all_fingerprints m db))"
    and "fingerprint_row rel m db \<noteq> None \<Longrightarrow> rel \<in> fst ` set (all_fingerprints m db)"
proof -
  have "row_lookup row_key (r_rel_path r, m) (cache_files db) = Some r" if "r \<in> set (mount_rows m db)" for r
    using that row_lookup_unique [of row_key "cache_files db" r] assms(2)
    by (simp add: mount_rows_def db_ok_def row_key_def)
  then show "\<forall>(rel, fp) \<in> set (all_fingerprints m db). fingerprint_row rel m db = Some fp"
    using assms(1) by (auto simp: all_fingerprints_def fingerprint_row_def find_row_def)
  show "distinct (map fst (all_fingerprints m db))"
    using assms(1) distinct_mount_paths [OF assms(2)] by (simp add: all_fingerprints_def comp_def)
  show "rel \<in> fst ` set (all_fingerprints m db)" if "fingerprint_row rel m db \<noteq> None"
    using that assms(1) find_row_Some_mount by (force simp: fingerprint_row_def all_fingerprints_def)
qed

text \<open>After a stale sweep no tracked file disagrees with the backing store: each row left was
  found fresh or has just been given the live fingerprint (it asks for another backfill only when
  the source's own modification time is zero); the sweep looks at every row once, and the rows of
  other mounts keep their fingerprints.\<close>

theorem sweep_stale_complete:
  assumes "writable db" and "db_ok db" and "cm_has_backing cm" and "kernel_ok k"
    and "sweep_stale now cm k (d, db) = ((checked, dropped), d', db')"
  shows "checked = length (mount_rows (cm_mount_id cm) db) \<and>
    (case is_stale cm k db' rel of Stale \<Rightarrow> False | BackingGone \<Rightarrow> False
       | NeedsBackfill st \<Rightarrow> st_mtime st = 0 \<and> st_mtime_nsec st = 0 | _ \<Rightarrow> True) \<and>
    (m \<noteq> cm_mount_id cm \<longrightarrow> fingerprint_row rel m db' = fingerprint_row rel m db)"
proof -
  let ?rows = "all_fingerprints (cm_mount_id cm) db"
  have usable: "db_usable db" using assms(1) by simp
  note rows = all_fingerprints_row [OF usable assms(2)]
  have db': "db' = snd (snd (fold (sweep_one now cm k) ?rows (0, d, db)))"
    and checked: "checked = length ?rows"
    using assms(5) by (auto simp: sweep_stale_def Let_def)
  note fold = sweep_fold [of "(d, db)" ?rows cm now k 0, unfolded snd_conv, OF assms(1) rows(2) rows(1),
      folded db']
  have len: "length ?rows = length (mount_rows (cm_mount_id cm) db)"
    using usable by (simp add: all_fingerprints_def)
  have ok: "case is_stale cm k db' rel of Stale \<Rightarrow> False | BackingGone \<Rightarrow> False
       | NeedsBackfill st \<Rightarrow> st_mtime st = 0 \<and> st_mtime_nsec st = 0 | _ \<Rightarrow> True"
  proof (cases "fingerprint_row rel (cm_mount_id cm) db'")
    case None
    then show ?thesis using assms(3) by (simp add: is_stale_def)
  next
    case (Some fp')
    have "rel \<in> fst ` set ?rows"
    proof (rule ccontr)
      assume "rel \<notin> fst ` set ?rows"
      with fold Some have "fingerprint_row rel (cm_mount_id cm) db \<noteq> None" by auto
      with rows(3) \<open>rel \<notin> fst ` set ?rows\<close> show False by blast
    qed
    then obtain fp where "(rel, fp) \<in> set ?rows" by force
    with fold Some have "swept_fingerprint cm k rel fp = Some fp'" by force
    from swept_not_stale [OF assms(4,3) this] show ?thesis
      using assms(3) Some by (simp add: is_stale_def)
  qed
  from fold have "m \<noteq> cm_mount_id cm \<longrightarrow> fingerprint_row rel m db' = fingerprint_row rel m db" by blast
  with ok checked len show ?thesis by simp
qed

section \<open>Removal and statistics\<close>

text \<open>Dropping a stale entry removes its row whatever happens to the file, removes the file
  whenever the kernel allows it, and touches no other row; the entry is then no longer cached.\<close>

theorem drop_stale_removes:
  assumes "writable db" and "drop_stale cm rel (d, db) = (d', db')"
  shows "find_row rel (cm_mount_id cm) db' = None \<and>
    (\<forall>rel' m. (rel', m) \<noteq> (rel, cm_mount_id cm) \<longrightarrow> find_row rel' m db' = find_row rel' m db) \<and>
    (evictable d (cache_path cm rel) \<longrightarrow> \<not> is_cached cm d' rel)"
proof -
  have "node_at (unlink_node (cache_path cm rel) d) (cache_path cm rel) = None"
    if "evictable d (cache_path cm rel)"
    using that by (cases "cache_path cm rel = []") (auto simp: node_at_unlink evictable_def)
  then show ?thesis
    using assms by (auto simp: drop_stale_def Let_def table_simps is_cached_def path_exists_def cache_path_def
        remove_file_evictable)
qed

text \<open>A row whose file has vanished is kept by both eviction passes, which count its size against
  the limit every time; drop_stale removes such a row.\<close>

theorem eviction_keeps_phantom_rows:
  assumes "writable db" and "\<not> path_exists d (cache_path cm rel)" and "mount_eviction cm (d, db) (d', db')"
  shows "find_row rel (cm_mount_id cm) db' = find_row rel (cm_mount_id cm) db"
proof -
  obtain rels where rels: "(d', db') = evict_all cm rels (d, db)"
    using assms(3) by (auto simp: mount_eviction_def)
  have "\<not> evictable d (join (cm_cache_dir cm) rel)"
    using assms(2) by (auto simp: evictable_def cache_path_def exists_dir_or_file)
  then have "cache_files db' = filter (\<lambda>r. \<not> (r_mount_id r = cm_mount_id cm \<and>
      r_rel_path r \<in> evicted_paths cm d (set rels))) (cache_files db)" "db_usable db' = db_usable db"
    and keep: "rel \<notin> evicted_paths cm d (set rels)"
    using evict_all_spec [of "(d, db)" cm rels] assms(1) rels
    by (auto simp: evicted_paths_def dest: arg_cong [where f = snd])
  moreover have "row_lookup row_key (rel, m) (filter P xs) = row_lookup row_key (rel, m) xs"
    if "\<And>r. row_key r = (rel, m) \<Longrightarrow> P r" for P m xs
    using that by (induction xs) (auto simp: table_simps)
  ultimately show ?thesis by (auto simp: find_row_def row_key_def)
qed

lemma foldl_add64_small:
  "u + sum_list (map f xs) < 2 ^ 64 \<Longrightarrow> foldl (\<lambda>u e. add64 u (f e)) u xs = u + sum_list (map f xs)"
  by (induction xs arbitrary: u) (simp_all add: add64_small)

definition file_len :: "disk \<Rightarrow> path \<Rightarrow> nat" where
  "file_len d p = (case metadata_len d p of None \<Rightarrow> 0 | Some n \<Rightarrow> n)"

text \<open>The statistics count what is on disk: one entry per cached file, with its size, and
  used_bytes is the sum of the sizes.\<close>

theorem manager_stats_counts:
  assumes "disk_ok d" and "is_dir_at d (cm_cache_dir cm)"
    and "sum_list (map (file_len d) (collect_cache_files d (cm_cache_dir cm))) < 2 ^ 64"
  shows "cs_file_count (manager_stats vfs cm (d, db)) = length (collect_cache_files d (cm_cache_dir cm)) \<and>
    map (\<lambda>e. (join (cm_cache_dir cm) (fst e), fst (snd e))) (cs_files (manager_stats vfs cm (d, db))) =
      map (\<lambda>p. (p, file_len d p)) (collect_cache_files d (cm_cache_dir cm)) \<and>
    cs_used_bytes (manager_stats vfs cm (d, db)) =
      sum_list (map (file_len d) (collect_cache_files d (cm_cache_dir cm)))"
proof -
  let ?ps = "collect_cache_files d (cm_cache_dir cm)"
  let ?t = "file_timestamps (cm_mount_id cm) db"
  have entry: "stat_entry cm d ?t p \<noteq> None \<and>
      join (cm_cache_dir cm) (fst (the (stat_entry cm d ?t p))) = p \<and>
      fst (snd (the (stat_entry cm d ?t p))) = file_len d p" if "p \<in> set ?ps" for p
  proof -
    have "is_file_at d p" "strict_prefix (cm_cache_dir cm) p"
      using that set_collect [OF assms(1,2)] by simp_all
    then obtain q f where q: "p = cm_cache_dir cm @ q" "node_at d p = Some (DFile f)"
      by (auto simp: is_file_at_def file_at_def strict_prefix_def prefix_def split: option.splits node.splits)
    then have "metadata_len d p = Some (length (f_data f))" "strip_prefix p (cm_cache_dir cm) = Some q"
      by (simp_all add: metadata_len_def)
    with q show ?thesis by (auto simp: stat_entry_def file_len_def split: prod.split)
  qed
  have files: "List.map_filter (stat_entry cm d ?t) ?ps = map (the \<circ> stat_entry cm d ?t) ?ps"
    by (rule map_filter_total) (use entry in blast)
  have sizes: "map (\<lambda>e. fst (snd e)) (map (the \<circ> stat_entry cm d ?t) ?ps) = map (file_len d) ?ps"
    using entry by simp
  then have "foldl (\<lambda>u e. add64 u (fst (snd e))) 0 (map (the \<circ> stat_entry cm d ?t) ?ps) = sum_list (map (file_len d) ?ps)"
    using foldl_add64_small [of 0 "\<lambda>e. fst (snd e)" "map (the \<circ> stat_entry cm d ?t) ?ps"] assms(3)
    by (simp only: add_0)
  then show ?thesis using entry by (simp add: manager_stats_def files)
qed

section \<open>Instances\<close>

definition sample_cm :: cache_manager where
  "sample_cm = manager_new [''c''] (Some 100) 8 1 0 True True"

definition sample_rows :: cache_db where
  "sample_rows = db_mark_cached 20 [''x''] [''c''] (test_file 7 1 0)
     (db_mark_cached 10 [''tv'', ''a.mkv''] [''c''] (test_file 5 1 0) db_empty)"

definition sample_stat :: "int \<Rightarrow> int \<Rightarrow> stat" where
  "sample_stat sz t = \<lparr>st_size = sz, st_blocks = 1, st_atime = t, st_atime_nsec = 0, st_mtime = t, st_mtime_nsec = 0,
     st_ctime = t, st_ctime_nsec = 0, st_mode = S_IFREG OR 0x1A4, st_nlink = 1, st_uid = 7, st_gid = 7, st_rdev = 0,
     st_blksize = 4096\<rparr>"

definition sample_kernel :: backing_kernel where
  "sample_kernel = \<lparr>k_fstatat = (\<lambda>p. if p = [''tv'', ''a.mkv''] then Some (sample_stat 5 1) else None),
     k_openat = (\<lambda>p. Inl 2), k_fstat = (\<lambda>fd. None), k_readdir = (\<lambda>p. None)\<rparr>"

lemma sample_rows_files: "cache_files sample_rows =
  [\<lparr>r_rel_path = [''tv'', ''a.mkv''], r_mount_id = [''c''], r_size_bytes = 5, r_cached_at = 10, r_last_hit_at = 10,
    r_hit_count = 1, r_source = columns_of (test_file 5 1 0)\<rparr>,
   \<lparr>r_rel_path = [''x''], r_mount_id = [''c''], r_size_bytes = 7, r_cached_at = 20, r_last_hit_at = 20,
    r_hit_count = 1, r_source = columns_of (test_file 7 1 0)\<rparr>]"
  by (simp add: sample_rows_def db_mark_cached_def row_replace_def row_key_def as_i64_def test_file_def)
    (simp add: db_empty_def)

lemma sample_rows_ok: "writable sample_rows" "db_ok sample_rows" "sizes_ok sample_rows"
proof -
  show "writable sample_rows" by (simp add: sample_rows_def)
  show "db_ok sample_rows"
    unfolding sample_rows_def by (intro db_ok_step [OF step_cached]) (simp add: db_ok_def db_empty_def)
  show "sizes_ok sample_rows" by (simp add: sizes_ok_def sample_rows_files)
qed

lemma sample_cm_fields [simp]: "cm_cache_dir sample_cm = [''c'']" "cm_mount_id sample_cm = [''c'']"
    "cm_max_size_bytes sample_cm = 8" "cm_has_backing sample_cm" "cm_expiry_secs sample_cm = 3600"
  by (simp_all add: sample_cm_def manager_new_def mul64_def)

text \<open>The second file is not on disk: its row stays, so only the first one makes room.\<close>

theorem evict_to_fit_makes_room_witness:
  "total_cached_bytes_global (snd (snd (evict_to_fit sample_cm 3 (sample_disk, sample_rows)))) +
     fst (evict_to_fit sample_cm 3 (sample_disk, sample_rows)) = 12"
  using evict_to_fit_makes_room [OF sample_rows_ok, of sample_cm 3 sample_disk
      "fst (evict_to_fit sample_cm 3 (sample_disk, sample_rows))"
      "fst (snd (evict_to_fit sample_cm 3 (sample_disk, sample_rows)))"
      "snd (snd (evict_to_fit sample_cm 3 (sample_disk, sample_rows)))"]
    total_global_bytes [of sample_rows] sample_rows_ok
  by (simp add: bytes_of_def sample_rows_files max0_u64_def)

theorem evict_if_needed_bounds_witness:
  "mount_eviction sample_cm (sample_disk, sample_rows) (snd (evict_if_needed 30 sample_cm (sample_disk, sample_rows)))"
  using evict_if_needed_bounds [OF sample_rows_ok, of 30 sample_cm sample_disk
      "fst (evict_if_needed 30 sample_cm (sample_disk, sample_rows))"
      "fst (snd (evict_if_needed 30 sample_cm (sample_disk, sample_rows)))"
      "snd (snd (evict_if_needed 30 sample_cm (sample_disk, sample_rows)))"] by simp

lemma sample_fingerprint: "fingerprint_row [''tv'', ''a.mkv''] [''c''] sample_rows =
    Some \<lparr>fp_mtime_secs = 1, fp_mtime_nsecs = 0, fp_size_bytes = 5\<rparr>"
  by (simp add: fingerprint_row_def find_row_def sample_rows_ok sample_rows_files row_lookup_def row_key_def
      row_fingerprint_def test_file_def max0_u64_def)

theorem refresh_is_attributes_only_witness:
  "\<exists>stored. source_metadata_row [''tv'', ''a.mkv''] [''c'']
      (refresh_source_metadata sample_cm [''tv'', ''a.mkv''] (sample_stat 5 1) sample_rows) = Some stored \<and>
    attrs_match stored (from_stat (sample_stat 5 1))"
  using refresh_is_attributes_only [of sample_rows "[''tv'', ''a.mkv'']" sample_cm
      "\<lparr>fp_mtime_secs = 1, fp_mtime_nsecs = 0, fp_size_bytes = 5\<rparr>" "sample_stat 5 1"]
  by (simp add: sample_rows_ok sample_fingerprint content_matches_def sample_stat_def as_u64_def fits_def
      from_stat_def has_snapshot_def S_IFREG_def max0_u64_def)

theorem sweep_stale_complete_witness:
  "fst (fst (sweep_stale 30 sample_cm sample_kernel (sample_disk, sample_rows))) = 2"
proof -
  have "kernel_ok sample_kernel" by (simp add: kernel_ok_def bs_stat_def sample_kernel_def sample_stat_def)
  then show ?thesis
    using sweep_stale_complete [of sample_rows sample_cm sample_kernel 30 sample_disk
        "fst (fst (sweep_stale 30 sample_cm sample_kernel (sample_disk, sample_rows)))"
        "snd (fst (sweep_stale 30 sample_cm sample_kernel (sample_disk, sample_rows)))"
        "fst (snd (sweep_stale 30 sample_cm sample_kernel (sample_disk, sample_rows)))"
        "snd (snd (sweep_stale 30 sample_cm sample_kernel (sample_disk, sample_rows)))"]
    by (simp add: sample_rows_ok mount_rows_def sample_rows_files)
qed

lemma sample_file_evictable: "evictable sample_disk [''c'', ''tv'', ''a.mkv'']"
  by (simp add: evictable_def sample_disk_def is_file_at_def file_at_def node_at_def)

theorem drop_stale_removes_witness:
  "\<not> is_cached sample_cm (fst (drop_stale sample_cm [''tv'', ''a.mkv''] (sample_disk, sample_rows))) [''tv'', ''a.mkv'']"
  using drop_stale_removes [OF sample_rows_ok(1), of sample_cm "[''tv'', ''a.mkv'']" sample_disk
      "fst (drop_stale sample_cm [''tv'', ''a.mkv''] (sample_disk, sample_rows))"
      "snd (drop_stale sample_cm [''tv'', ''a.mkv''] (sample_disk, sample_rows))"] sample_file_evictable
  by (simp add: cache_path_def)

lemma sample_collect: "collect_cache_files sample_disk [''c''] = [[''c'', ''tv'', ''a.mkv'']]"
  unfolding collect_cache_files_def
  by (subst collect_cache_files_inner.simps, simp add: sample_disk_def read_dir_def is_dir_at_def node_at_def
      is_non_media_file_def ends_with_def, subst collect_cache_files_inner.simps,
      simp add: read_dir_def is_dir_at_def node_at_def is_non_media_file_def ends_with_def)

theorem manager_stats_counts_witness:
  "cs_used_bytes (manager_stats (\<lambda>d p. None) sample_cm (sample_disk, sample_rows)) = 3"
  using manager_stats_counts [of sample_disk sample_cm "\<lambda>d p. None" sample_rows] sample_disk_ok sample_collect
  by (simp add: file_len_def metadata_len_def sample_disk_def node_at_def sample_file_def)

theorem eviction_keeps_phantom_rows_witness:
  "find_row [''x''] [''c''] (snd (snd (evict_if_needed 30 sample_cm (sample_disk, sample_rows)))) =
     find_row [''x''] [''c''] sample_rows"
proof -
  have "\<not> path_exists sample_disk (cache_path sample_cm [''x''])"
    by (simp add: path_exists_def node_at_def sample_disk_def cache_path_def)
  moreover have "mount_eviction sample_cm (sample_disk, sample_rows)
      (fst (snd (evict_if_needed 30 sample_cm (sample_disk, sample_rows))),
       snd (snd (evict_if_needed 30 sample_cm (sample_disk, sample_rows))))"
    using evict_if_needed_mount [OF sample_rows_ok] by simp
  ultimately show ?thesis
    using eviction_keeps_phantom_rows [OF sample_rows_ok(1)] by (metis sample_cm_fields(2))
qed

end
