(* ===== verification/CacheCopy.thy ===== *)
theory CacheCopy
  imports CacheManager
begin

text \<open>
  Copying a backing file into the cache (src/src/cache/io.rs, perform_copy and below): the bytes go
  to a .partial file next to the destination, which is renamed into place only if nothing was
  aborted and the source has not changed. The copy is split at its only point of interleaving: what
  happens up to the sync of the partial file, and the commit. What the kernel answers to each call
  is a field of the copy environment.
\<close>

section \<open>Environment\<close>

text \<open>
  \<open>ce_reads\<close>: the results of the successive reads of the source, the end of the list being end of
  file; \<open>ce_write i\<close>: None when the i-th write succeeds, else how many bytes it wrote before the
  error; the booleans: whether open of the partial file, fsync, chmod, lchown, utimensat and rename
  are allowed; \<open>ce_fresh\<close>: the attributes of a file this process creates.
\<close>

record copy_env =
  ce_reads :: "(errno + u8 list) list"
  ce_write :: "nat \<Rightarrow> nat option"
  ce_open_dst :: bool
  ce_sync :: bool
  ce_chmod :: bool
  ce_chown :: bool
  ce_utimens :: bool
  ce_rename :: bool
  ce_fresh :: disk_file

datatype copy_error = CreateDir | OpenSource errno | SourceMeta | OpenPartial | ReadError errno | WriteError
  | SyncError | BackingChanged | ApplyMetadata | RenameError

definition partial_path :: "path \<Rightarrow> path" where
  "partial_path dest = butlast dest @ [last dest @ ''.partial'']"

definition append_bytes :: "path \<Rightarrow> u8 list \<Rightarrow> disk \<Rightarrow> disk" where
  "append_bytes p bs d = modify_file p (\<lambda>f. f\<lparr>f_data := f_data f @ bs\<rparr>) d"

section \<open>Up to the sync\<close>

fun copy_loop ::
  "copy_env \<Rightarrow> path \<Rightarrow> (errno + u8 list) list \<Rightarrow> nat \<Rightarrow> nat \<Rightarrow> disk \<Rightarrow> (copy_error option \<times> nat) \<times> disk" where
  "copy_loop env p [] i copied d = ((None, copied), d)"
| "copy_loop env p (r # rs) i copied d =
     (case r of
        Inl e \<Rightarrow> ((Some (ReadError e), copied), d)
      | Inr buf \<Rightarrow>
          if buf = [] then ((None, copied), d)
          else (case ce_write env i of
                  Some n \<Rightarrow> ((Some WriteError, copied), append_bytes p (take n buf) d)
                | None \<Rightarrow> copy_loop env p rs (Suc i) (add64 copied (length buf)) (append_bytes p buf d)))"

definition copy_source :: "backing_kernel \<Rightarrow> path \<Rightarrow> copy_error + stat" where
  "copy_source k rel =
     (case open_file k rel of
        Inl e \<Rightarrow> Inl (OpenSource e)
      | Inr fd \<Rightarrow> (case k_fstat k fd of None \<Rightarrow> Inl SourceMeta | Some m \<Rightarrow> Inr m))"

definition open_partial :: "copy_env \<Rightarrow> path \<Rightarrow> disk \<Rightarrow> disk option" where
  "open_partial env p d = (if ce_open_dst env then open_truncate (ce_fresh env) p d else None)"

definition copy_fill :: "backing_kernel \<Rightarrow> copy_env \<Rightarrow> path \<Rightarrow> path \<Rightarrow> disk \<Rightarrow> (copy_error + stat) \<times> disk" where
  "copy_fill k env rel partial d =
     (case copy_source k rel of
        Inl e \<Rightarrow> (Inl e, d)
      | Inr src_meta \<Rightarrow>
          (case open_partial env partial d of
             None \<Rightarrow> (Inl OpenPartial, d)
           | Some d1 \<Rightarrow>
               (case copy_loop env partial (ce_reads env) 0 0 d1 of
                  ((Some e, _), d2) \<Rightarrow> (Inl e, try_remove partial d2)
                | ((None, _), d2) \<Rightarrow>
                    if \<not> ce_sync env then (Inl SyncError, try_remove partial d2)
                    else (Inr src_meta, d2))))"

section \<open>The commit\<close>

definition apply_source_metadata :: "copy_env \<Rightarrow> path \<Rightarrow> source_metadata \<Rightarrow> disk \<Rightarrow> bool \<times> disk" where
  "apply_source_metadata env p meta d =
     (if \<not> ce_chmod env then (False, d)
      else let d1 = modify_file p (\<lambda>f. f\<lparr>f_mode := sm_mode meta AND 0xFFF\<rparr>) d;
               d2 = (if ce_chown env
                     then modify_file p (\<lambda>f. f\<lparr>f_uid := sm_uid meta, f_gid := sm_gid meta\<rparr>) d1 else d1)
           in if \<not> ce_utimens env then (False, d2)
              else (True, modify_file p (\<lambda>f. f\<lparr>f_atime := (sm_atime_sec meta, sm_atime_nsec meta),
                                               f_mtime := (sm_mtime_sec meta, sm_mtime_nsec meta)\<rparr>) d2))"

definition source_changed :: "stat \<Rightarrow> stat option \<Rightarrow> bool" where
  "source_changed src_meta final_stat =
     (case final_stat of
        None \<Rightarrow> False
      | Some s \<Rightarrow> st_size s \<noteq> as_i64 (as_u64 (st_size src_meta)) \<or> st_mtime s \<noteq> st_mtime src_meta
                 \<or> st_mtime_nsec s \<noteq> st_mtime_nsec src_meta)"

definition copy_commit ::
  "backing_kernel \<Rightarrow> copy_env \<Rightarrow> bool \<Rightarrow> path \<Rightarrow> path \<Rightarrow> path \<Rightarrow> stat \<Rightarrow> disk \<Rightarrow> (copy_error + source_metadata) \<times> disk" where
  "copy_commit k env aborted rel dest partial src_meta d =
     (let final_stat = bs_stat k rel
      in if aborted \<or> source_changed src_meta final_stat then (Inl BackingChanged, try_remove partial d)
         else let snapshot = (case final_stat of None \<Rightarrow> from_metadata src_meta | Some s \<Rightarrow> from_stat s)
              in (case apply_source_metadata env partial snapshot d of
                    (False, d1) \<Rightarrow> (Inl ApplyMetadata, d1)
                  | (True, d1) \<Rightarrow>
                      (case (if ce_rename env then rename_file partial dest d1 else None) of
                         None \<Rightarrow> (Inl RenameError, try_remove partial d1)
                       | Some d2 \<Rightarrow> (Inr snapshot, d2))))"

text \<open>The outer function: directories first, and on any error of the inner part the partial file is
  removed once more.\<close>

definition cleanup :: "path \<Rightarrow> ('e + 'a) \<times> disk \<Rightarrow> ('e + 'a) \<times> disk" where
  "cleanup partial r = (case r of (Inl e, d) \<Rightarrow> (Inl e, try_remove partial d) | (Inr a, d) \<Rightarrow> (Inr a, d))"

definition copy_write :: "backing_kernel \<Rightarrow> copy_env \<Rightarrow> path \<Rightarrow> path \<Rightarrow> disk \<Rightarrow> (copy_error + stat) \<times> disk" where
  "copy_write k env rel dest d =
     (case create_dir_all (parent_or_empty dest) d of
        (False, d1) \<Rightarrow> (Inl CreateDir, d1)
      | (True, d1) \<Rightarrow> cleanup (partial_path dest) (copy_fill k env rel (partial_path dest) d1))"

definition copy_finish ::
  "backing_kernel \<Rightarrow> copy_env \<Rightarrow> bool \<Rightarrow> path \<Rightarrow> path \<Rightarrow> stat \<Rightarrow> disk \<Rightarrow> (copy_error + source_metadata) \<times> disk" where
  "copy_finish k env aborted rel dest src_meta d =
     cleanup (partial_path dest) (copy_commit k env aborted rel dest (partial_path dest) src_meta d)"

definition perform_copy ::
  "backing_kernel \<Rightarrow> backing_kernel \<Rightarrow> copy_env \<Rightarrow> bool \<Rightarrow> path \<Rightarrow> path \<Rightarrow> disk \<Rightarrow> (copy_error + source_metadata) \<times> disk" where
  "perform_copy k k' env aborted rel dest d =
     (case copy_write k env rel dest d of
        (Inl e, d1) \<Rightarrow> (Inl e, d1)
      | (Inr src_meta, d1) \<Rightarrow> copy_finish k' env aborted rel dest src_meta d1)"

section \<open>Lemmas\<close>

lemma make_dirs_node:
  "q \<notin> set ps \<Longrightarrow> node_at (snd (make_dirs ps d)) q = node_at d q"
proof (induction ps arbitrary: d)
  case Nil
  then show ?case by simp
next
  case (Cons p ps)
  have "node_at (put_node p DDir d) q = node_at d q" if "node_at d p = None"
    using that Cons.prems by (subst node_at_put) (auto simp: node_at_def)
  with Cons show ?case by (auto split: option.splits node.splits)
qed

lemma make_dirs_keeps: "node_at d q = Some n \<Longrightarrow> node_at (snd (make_dirs ps d)) q = Some n"
proof (induction ps arbitrary: d)
  case Nil
  then show ?case by simp
next
  case (Cons p ps)
  have "node_at (put_node p DDir d) q = Some n" if "node_at d p = None"
    using that Cons.prems by (subst node_at_put) (auto simp: node_at_def)
  with Cons show ?case by (auto split: option.splits node.splits)
qed

lemma make_dirs_made: "make_dirs ps d = (True, d') \<Longrightarrow> p \<in> set ps \<Longrightarrow> is_dir_at d' p"
proof (induction ps arbitrary: d)
  case Nil
  then show ?case by simp
next
  case (Cons q ps)
  have keep: "is_dir_at d' q" if "node_at e q = Some DDir" "make_dirs ps e = (True, d')" for e
    using make_dirs_keeps [OF that(1), of ps] that(2) by (simp add: is_dir_at_def)
  have put: "node_at (put_node q DDir d) q = Some DDir" if "node_at d q = None"
    using that by (subst node_at_put) (auto simp: node_at_def)
  show ?case
    using Cons.prems Cons.IH keep put by (auto split: option.splits node.splits)
qed

lemma make_dirs_stuck [simp]: "stuck (snd (make_dirs ps d)) = stuck d"
  by (induction ps arbitrary: d) (auto simp: put_node_def split: option.splits node.splits)

lemma stuck_ops [simp]: "stuck (put_node p n d) = stuck d" "stuck (unlink_node p d) = stuck d"
    "stuck (modify_file p g d) = stuck d" "stuck (append_bytes p bs d) = stuck d"
  by (simp_all add: put_node_def unlink_node_def modify_file_def append_bytes_def split: option.split)

lemma try_remove_node:
  "node_at (try_remove p d) q =
     (if q = p \<and> is_file_at d p \<and> p \<notin> set (stuck d) then None else node_at d q)"
proof (cases "evictable d p")
  case True
  then have "p \<noteq> []" by (auto simp: evictable_def)
  with True show ?thesis
    by (simp add: try_remove_def remove_file_evictable node_at_unlink evictable_def)
next
  case False
  with remove_file_not_evictable [OF False] show ?thesis
    by (auto simp: try_remove_def evictable_def split: sum.split)
qed

lemma stuck_try_remove [simp]: "stuck (try_remove p d) = stuck d"
  by (auto simp: try_remove_def split: sum.split dest!: remove_file_Inr)

lemma file_at_iff: "file_at d p = Some f \<longleftrightarrow> node_at d p = Some (DFile f)"
  by (auto simp: file_at_def split: option.splits node.splits)

lemma modify_file_node:
  "node_at (modify_file p g d) q =
     (case file_at d p of Some f \<Rightarrow> if q = p then Some (DFile (g f)) else node_at d q | None \<Rightarrow> node_at d q)"
proof (cases "file_at d p")
  case None
  then show ?thesis by (simp add: modify_file_def)
next
  case (Some f)
  then have "p \<noteq> []" by (auto simp: file_at_def node_at_def)
  with Some show ?thesis by (simp add: modify_file_def node_at_put)
qed

lemma file_at_modify [simp]:
  "file_at (modify_file p g d) q = (if q = p then map_option g (file_at d p) else file_at d q)"
proof (cases "file_at d p")
  case None
  then show ?thesis by (simp add: modify_file_def)
next
  case (Some f)
  then show ?thesis by (simp add: file_at_def modify_file_node)
qed

lemma open_truncate_node:
  assumes "open_truncate fresh p d = Some d'" and "p \<noteq> []"
  shows "\<exists>f. node_at d' p = Some (DFile f) \<and> f_data f = [] \<and> (\<forall>q. q \<noteq> p \<longrightarrow> node_at d' q = node_at d q) \<and> stuck d' = stuck d"
  using assms
  by (auto simp: open_truncate_def node_at_put split: option.splits node.splits if_splits)

text \<open>The bytes that come out of the source until end of file, if no read fails.\<close>

fun read_all :: "(errno + u8 list) list \<Rightarrow> u8 list option" where
  "read_all [] = Some []"
| "read_all (Inl e # rs) = None"
| "read_all (Inr buf # rs) = (if buf = [] then Some [] else map_option ((@) buf) (read_all rs))"

lemma copy_loop_spec:
  assumes "file_at d p = Some f" and "copy_loop env p rs i n d = ((r, n'), d')"
  shows "\<exists>f'. file_at d' p = Some f' \<and> (\<forall>q. q \<noteq> p \<longrightarrow> node_at d' q = node_at d q) \<and> stuck d' = stuck d \<and>
     (r = None \<longrightarrow> (\<exists>bs. read_all rs = Some bs \<and> f_data f' = f_data f @ bs \<and>
        (n + length bs < 2 ^ 64 \<longrightarrow> n' = n + length bs)))"
  using assms
proof (induction rs arbitrary: i n d f)
  case Nil
  then show ?case by auto
next
  case (Cons r0 rs)
  show ?case
  proof (cases r0)
    case (Inl e)
    with Cons.prems show ?thesis by auto
  next
    case (Inr buf)
    have other: "node_at (append_bytes p bs d) q = node_at d q" if "q \<noteq> p" for bs q
      using that by (auto simp: append_bytes_def modify_file_node split: option.split)
    have here: "file_at (append_bytes p bs d) p = Some (f\<lparr>f_data := f_data f @ bs\<rparr>)" for bs
      using Cons.prems(1) by (simp add: append_bytes_def)
    show ?thesis
    proof (cases "buf = [] \<or> ce_write env i \<noteq> None")
      case True
      with Cons.prems Inr here other show ?thesis by (auto split: if_splits)
    next
      case False
      then have run: "copy_loop env p rs (Suc i) (add64 n (length buf)) (append_bytes p buf d) = ((r, n'), d')"
        using Cons.prems(2) Inr by simp
      from Cons.IH [OF here run] obtain f' where IH: "file_at d' p = Some f'"
        "\<forall>q. q \<noteq> p \<longrightarrow> node_at d' q = node_at (append_bytes p buf d) q" "stuck d' = stuck d"
        "r = None \<longrightarrow> (\<exists>bs. read_all rs = Some bs \<and> f_data f' = (f_data f @ buf) @ bs \<and>
          (add64 n (length buf) + length bs < 2 ^ 64 \<longrightarrow> n' = add64 n (length buf) + length bs))"
        by auto
      have "r = None \<longrightarrow> (\<exists>bs. read_all (r0 # rs) = Some bs \<and> f_data f' = f_data f @ bs \<and>
          (n + length bs < 2 ^ 64 \<longrightarrow> n' = n + length bs))"
        using IH(4) False Inr by (auto simp: add64_small)
      with IH(1-3) other show ?thesis by auto
    qed
  qed
qed

lemma partial_path_neq [simp]: "partial_path dest \<noteq> []" "dest \<noteq> [] \<Longrightarrow> partial_path dest \<noteq> dest"
    "dest \<noteq> [] \<Longrightarrow> dest \<noteq> partial_path dest"
proof -
  show "partial_path dest \<noteq> []" by (simp add: partial_path_def)
  have "partial_path dest \<noteq> dest" if "dest \<noteq> []"
  proof
    assume "partial_path dest = dest"
    then have "last dest @ ''.partial'' = last dest" by (metis last_snoc partial_path_def)
    then show False by simp
  qed
  then show "dest \<noteq> [] \<Longrightarrow> partial_path dest \<noteq> dest" "dest \<noteq> [] \<Longrightarrow> dest \<noteq> partial_path dest" by auto
qed

lemma in_prefixes: "q \<in> set (map (\<lambda>i. take i p) [0..<Suc (length p)]) \<longleftrightarrow> prefix q p"
proof
  assume "prefix q p"
  then have "q = take (length q) p" "length q \<le> length p" by (auto simp: prefix_def)
  then show "q \<in> set (map (\<lambda>i. take i p) [0..<Suc (length p)])" by (auto simp del: upt_Suc)
qed (auto simp: take_is_prefix simp del: upt_Suc)

lemma create_dir_all_spec:
  "node_at (snd (create_dir_all p d)) q = (if prefix q p then node_at (snd (create_dir_all p d)) q else node_at d q)"
  using make_dirs_node [of q "map (\<lambda>i. take i p) [0..<Suc (length p)]" d] in_prefixes [of q p]
  by (auto simp: create_dir_all_def simp del: upt_Suc)

lemma create_dir_all_other: "\<not> prefix q p \<Longrightarrow> node_at (snd (create_dir_all p d)) q = node_at d q"
  using create_dir_all_spec [of p d q] by simp

lemma create_dir_all_keeps: "node_at d q = Some n \<Longrightarrow> node_at (snd (create_dir_all p d)) q = Some n"
  unfolding create_dir_all_def by (rule make_dirs_keeps)

lemma create_dir_all_made: "create_dir_all p d = (True, d') \<Longrightarrow> prefix q p \<Longrightarrow> is_dir_at d' q"
  unfolding create_dir_all_def using make_dirs_made in_prefixes by blast

lemma stuck_create_dir_all [simp]: "stuck (snd (create_dir_all p d)) = stuck d"
  by (simp add: create_dir_all_def)

text \<open>After a write that succeeded: the partial file holds everything that was read.\<close>

lemma copy_fill_Inr:
  assumes "copy_fill k env rel p d = (Inr m, d')" and "p \<noteq> []"
  shows "copy_source k rel = Inr m \<and> (\<exists>f bs. file_at d' p = Some f \<and> read_all (ce_reads env) = Some bs \<and> f_data f = bs) \<and>
    (\<forall>q. q \<noteq> p \<longrightarrow> node_at d' q = node_at d q) \<and> stuck d' = stuck d"
proof -
  obtain m' where m: "copy_source k rel = Inr m'"
    using assms(1) by (cases "copy_source k rel") (auto simp: copy_fill_def)
  obtain d1 where d1: "open_partial env p d = Some d1"
    using assms(1) m by (cases "open_partial env p d") (auto simp: copy_fill_def)
  then obtain f where f: "node_at d1 p = Some (DFile f)" "f_data f = []" "\<forall>q. q \<noteq> p \<longrightarrow> node_at d1 q = node_at d q"
    "stuck d1 = stuck d"
    using open_truncate_node [of "ce_fresh env" p d d1] assms(2) by (auto simp: open_partial_def split: if_splits)
  obtain e n d2 where loop: "copy_loop env p (ce_reads env) 0 0 d1 = ((e, n), d2)" by (metis prod.collapse)
  have "e = None" "m' = m" "d2 = d'" using assms(1) m d1 loop
    by (auto simp: copy_fill_def split: option.splits if_splits)
  moreover have "file_at d1 p = Some f" using f(1) by (simp add: file_at_iff)
  ultimately show ?thesis
    using copy_loop_spec [OF \<open>file_at d1 p = Some f\<close> loop] f m by auto
qed

text \<open>An inner failure touches the partial file only.\<close>

lemma copy_fill_other:
  assumes "copy_fill k env rel p d = (r, d')" and "p \<noteq> []" and "q \<noteq> p"
  shows "node_at d' q = node_at d q \<and> stuck d' = stuck d"
proof (cases "copy_source k rel")
  case (Inl e)
  with assms(1) show ?thesis by (simp add: copy_fill_def)
next
  case (Inr m)
  show ?thesis
  proof (cases "open_partial env p d")
    case None
    with Inr assms(1) show ?thesis by (simp add: copy_fill_def)
  next
    case (Some d1)
    then obtain f where f: "node_at d1 p = Some (DFile f)" "\<forall>q. q \<noteq> p \<longrightarrow> node_at d1 q = node_at d q" "stuck d1 = stuck d"
      using open_truncate_node [of "ce_fresh env" p d d1] assms(2) by (auto simp: open_partial_def split: if_splits)
    obtain e n d2 where loop: "copy_loop env p (ce_reads env) 0 0 d1 = ((e, n), d2)" by (metis prod.collapse)
    have "file_at d1 p = Some f" using f(1) by (simp add: file_at_iff)
    from copy_loop_spec [OF this loop]
    have "node_at d2 q = node_at d q" "stuck d2 = stuck d" using f assms(3) by auto
    moreover have "d' = d2 \<or> d' = try_remove p d2" using assms(1) Inr Some loop
      by (auto simp: copy_fill_def split: option.splits if_splits)
    ultimately show ?thesis using assms(3) by (auto simp: try_remove_node)
  qed
qed

lemma apply_source_metadata_spec:
  assumes "file_at d p = Some f"
  shows "\<exists>f'. file_at (snd (apply_source_metadata env p m d)) p = Some f' \<and> f_data f' = f_data f \<and>
    (fst (apply_source_metadata env p m d) \<longrightarrow> f_mode f' = sm_mode m AND 0xFFF \<and>
       f_mtime f' = (sm_mtime_sec m, sm_mtime_nsec m))"
  using assms by (auto simp: apply_source_metadata_def Let_def)

lemma apply_source_metadata_other:
  "q \<noteq> p \<Longrightarrow> node_at (snd (apply_source_metadata env p m d)) q = node_at d q"
  "stuck (snd (apply_source_metadata env p m d)) = stuck d"
  by (auto simp: apply_source_metadata_def Let_def modify_file_node split: option.split)

lemma rename_file_node:
  assumes "rename_file p q d = Some d'" and "p \<noteq> q" and "p \<noteq> []" and "q \<noteq> []"
  shows "file_at d' q = file_at d p \<and> node_at d' p = None \<and>
    (\<forall>r. r \<noteq> p \<and> r \<noteq> q \<longrightarrow> node_at d' r = node_at d r)"
  using assms by (auto simp: rename_file_def table_simps file_at_def split: option.splits if_splits)

lemma copy_commit_Inr:
  assumes "copy_commit k env aborted rel dest p m d = (Inr snap, d')" and "file_at d p = Some f"
    and "p \<noteq> dest" and "p \<noteq> []" and "dest \<noteq> []"
  shows "\<not> aborted \<and> \<not> source_changed m (bs_stat k rel) \<and>
    snap = (case bs_stat k rel of None \<Rightarrow> from_metadata m | Some s \<Rightarrow> from_stat s) \<and>
    (\<exists>f'. file_at d' dest = Some f' \<and> f_data f' = f_data f \<and> f_mode f' = sm_mode snap AND 0xFFF \<and>
       f_mtime f' = (sm_mtime_sec snap, sm_mtime_nsec snap)) \<and>
    node_at d' p = None \<and> (\<forall>q. q \<noteq> p \<and> q \<noteq> dest \<longrightarrow> node_at d' q = node_at d q)"
proof -
  let ?snap = "case bs_stat k rel of None \<Rightarrow> from_metadata m | Some s \<Rightarrow> from_stat s"
  obtain b d1 where ap: "apply_source_metadata env p ?snap d = (b, d1)" by (metis prod.collapse)
  have ok: "\<not> aborted" "\<not> source_changed m (bs_stat k rel)" "b" "ce_rename env" "snap = ?snap"
    and rn: "rename_file p dest d1 = Some d'"
    using assms(1) ap by (auto simp: copy_commit_def Let_def split: if_splits option.splits bool.splits)
  obtain f' where "file_at d1 p = Some f'" "f_data f' = f_data f" "f_mode f' = sm_mode ?snap AND 0xFFF"
    "f_mtime f' = (sm_mtime_sec ?snap, sm_mtime_nsec ?snap)"
    using apply_source_metadata_spec [OF assms(2), of env ?snap] ap ok(3) by auto
  moreover have "node_at d1 q = node_at d q" if "q \<noteq> p" for q
    using apply_source_metadata_other(1) [OF that, of env ?snap d] ap by simp
  ultimately show ?thesis
    using ok rename_file_node [OF rn assms(3-5)] by auto
qed

lemma copy_commit_Inl:
  assumes "copy_commit k env aborted rel dest p m d = (Inl e, d')" and "q \<noteq> p"
  shows "node_at d' q = node_at d q \<and> stuck d' = stuck d"
proof -
  let ?snap = "case bs_stat k rel of None \<Rightarrow> from_metadata m | Some s \<Rightarrow> from_stat s"
  obtain b d1 where ap: "apply_source_metadata env p ?snap d = (b, d1)" by (metis prod.collapse)
  have "d' = try_remove p d \<or> d' = d1 \<or> d' = try_remove p d1"
    using assms(1) ap by (auto simp: copy_commit_def Let_def split: if_splits option.splits bool.splits)
  then show ?thesis
    using assms(2) apply_source_metadata_other(1) [of q p env ?snap d] ap
      apply_source_metadata_other(2) [of env p ?snap d]
    by (auto simp: try_remove_node)
qed

section \<open>What a copy leaves behind\<close>

lemma cleanup_Inr: "cleanup p r = (Inr a, d) \<longleftrightarrow> r = (Inr a, d)"
  by (auto simp: cleanup_def split: prod.splits sum.splits)

lemma cleanup_Inl: "cleanup p r = (Inl e, d) \<longleftrightarrow> (\<exists>d0. r = (Inl e, d0) \<and> d = try_remove p d0)"
  by (auto simp: cleanup_def split: prod.splits sum.splits)

lemma prefix_butlast_dest: "dest \<noteq> [] \<Longrightarrow> prefix q (butlast dest) \<Longrightarrow> strict_prefix q dest"
  by (cases dest rule: rev_cases) (auto simp: strict_prefix_def prefix_def)

lemma copy_write_Inr:
  assumes "copy_write k env rel dest d = (Inr m, d')" and "dest \<noteq> []"
  shows "copy_source k rel = Inr m \<and>
    (\<exists>f bs. file_at d' (partial_path dest) = Some f \<and> read_all (ce_reads env) = Some bs \<and> f_data f = bs) \<and>
    (\<forall>q. q \<noteq> partial_path dest \<and> \<not> strict_prefix q dest \<longrightarrow> node_at d' q = node_at d q) \<and> stuck d' = stuck d"
proof -
  obtain d1 where d1: "create_dir_all (parent_or_empty dest) d = (True, d1)"
    and fill: "copy_fill k env rel (partial_path dest) d1 = (Inr m, d')"
    using assms(1) by (auto simp: copy_write_def cleanup_Inr split: prod.splits bool.splits)
  have "node_at d1 q = node_at d q" if "\<not> strict_prefix q dest" for q
    using that create_dir_all_other [of q "parent_or_empty dest" d] prefix_butlast_dest [OF assms(2)] d1
    by (auto simp: parent_or_empty_eq)
  moreover have "stuck d1 = stuck d" using d1 stuck_create_dir_all [of "parent_or_empty dest" d] by simp
  ultimately show ?thesis using copy_fill_Inr [OF fill] by auto
qed

lemma copy_write_Inl:
  assumes "copy_write k env rel dest d = (Inl e, d')" and "dest \<noteq> []"
  shows "(q \<noteq> partial_path dest \<and> \<not> strict_prefix q dest \<longrightarrow> node_at d' q = node_at d q) \<and>
    (partial_path dest \<notin> set (stuck d) \<and> e \<noteq> CreateDir \<longrightarrow> \<not> is_file_at d' (partial_path dest))"
proof -
  obtain b d1 where d1: "create_dir_all (parent_or_empty dest) d = (b, d1)" by (metis prod.collapse)
  have same: "node_at d1 q = node_at d q" if "\<not> strict_prefix q dest" for q
    using that create_dir_all_other [of q "parent_or_empty dest" d] prefix_butlast_dest [OF assms(2)] d1
    by (auto simp: parent_or_empty_eq)
  have st: "stuck d1 = stuck d" using d1 stuck_create_dir_all [of "parent_or_empty dest" d] by simp
  show ?thesis
  proof (cases b)
    case False
    then have "d' = d1" "e = CreateDir" using assms(1) d1 by (auto simp: copy_write_def)
    with same show ?thesis by auto
  next
    case True
    then obtain d2 where fill: "copy_fill k env rel (partial_path dest) d1 = (Inl e, d2)"
      and d': "d' = try_remove (partial_path dest) d2"
      using assms(1) d1 by (auto simp: copy_write_def cleanup_Inl)
    have "stuck d2 = stuck d"
      using copy_fill_other [OF fill partial_path_neq(1), of "[]"] st partial_path_neq(1) [of dest] by auto
    moreover have "\<not> is_file_at d' (partial_path dest)" if "partial_path dest \<notin> set (stuck d2)"
      using that by (simp add: d' is_file_at_def file_at_def try_remove_node)
    ultimately show ?thesis using copy_fill_other [OF fill partial_path_neq(1)] same
      by (auto simp: d' try_remove_node)
  qed
qed


text \<open>C6. A copy that fails, for whatever reason and at whatever point, leaves the cached file as it
  was and (once the directories exist and the kernel lets it be unlinked) no partial file.\<close>

theorem perform_copy_error_is_clean:
  assumes "perform_copy k k' env aborted rel dest d = (Inl e, d')" and "dest \<noteq> []"
  shows "node_at d' dest = node_at d dest \<and>
    (\<forall>q. q \<noteq> partial_path dest \<and> \<not> strict_prefix q dest \<longrightarrow> node_at d' q = node_at d q) \<and>
    (partial_path dest \<notin> set (stuck d) \<and> e \<noteq> CreateDir \<longrightarrow> \<not> is_file_at d' (partial_path dest))"
proof (cases "copy_write k env rel dest d")
  case (Pair r d1)
  show ?thesis
  proof (cases r)
    case (Inl e')
    then have "e' = e" "d1 = d'" using assms(1) Pair by (auto simp: perform_copy_def)
    then show ?thesis
      using copy_write_Inl [OF _ assms(2), of k env rel d e d'] Pair Inl assms(2) by auto
  next
    case (Inr m)
    obtain d2 where c: "copy_commit k' env aborted rel dest (partial_path dest) m d1 = (Inl e, d2)"
      and d': "d' = try_remove (partial_path dest) d2"
      using assms(1) Pair Inr by (auto simp: perform_copy_def copy_finish_def cleanup_Inl)
    have w: "\<forall>q. q \<noteq> partial_path dest \<and> \<not> strict_prefix q dest \<longrightarrow> node_at d1 q = node_at d q" "stuck d1 = stuck d"
      using copy_write_Inr [of k env rel dest d m d1] Pair Inr assms(2) by auto
    have c': "node_at d2 q = node_at d1 q" "stuck d2 = stuck d1" if "q \<noteq> partial_path dest" for q
      using copy_commit_Inl [OF c that] by auto
    have "stuck d2 = stuck d" using c'(2) [of dest] w(2) assms(2) by simp
    then have "\<not> is_file_at d' (partial_path dest)" if "partial_path dest \<notin> set (stuck d)"
      using that by (simp add: d' is_file_at_def file_at_def try_remove_node)
    moreover have "node_at d' q = node_at d q" if "q \<noteq> partial_path dest \<and> \<not> strict_prefix q dest" for q
      using that w(1) c'(1) by (simp add: d' try_remove_node)
    ultimately show ?thesis using assms(2) by auto
  qed
qed

section \<open>Instances\<close>

definition copy_kernel :: backing_kernel where
  "copy_kernel = sample_kernel\<lparr>k_fstatat := (\<lambda>p. Some (sample_stat 3 1)), k_openat := (\<lambda>p. Inr 5),
     k_fstat := (\<lambda>fd. Some (sample_stat 3 1))\<rparr>"

definition sample_env :: copy_env where
  "sample_env = \<lparr>ce_reads = [Inr [1, 2], Inr [3], Inr []], ce_write = (\<lambda>i. None), ce_open_dst = True, ce_sync = True,
     ce_chmod = True, ce_chown = False, ce_utimens = True, ce_rename = True, ce_fresh = sample_file []\<rparr>"

lemmas copy_defs = perform_copy_def copy_write_def copy_finish_def copy_fill_def copy_commit_def copy_source_def
  open_file_def open_partial_def open_truncate_def create_dir_all_def cleanup_def parent_or_empty_def
  apply_source_metadata_def rename_file_def source_changed_def bs_stat_def

lemma sample_copy_runs:
  "\<exists>snap d'. perform_copy copy_kernel copy_kernel sample_env False [''n''] [''c'', ''n''] sample_disk = (Inr snap, d')"
  by (simp add: copy_defs copy_kernel_def sample_kernel_def sample_env_def sample_disk_def node_at_def
      partial_path_def is_dir_at_def put_node_def append_bytes_def modify_file_def file_at_def sample_stat_def
      as_u64_def as_i64_def unlink_node_def Let_def sample_file_def)


theorem perform_copy_error_is_clean_witness:
  "\<exists>e d'. perform_copy copy_kernel copy_kernel sample_env True [''n''] [''c'', ''n''] sample_disk = (Inl e, d') \<and>
     node_at d' [''c'', ''n''] = None"
proof -
  obtain r d' where run: "perform_copy copy_kernel copy_kernel sample_env True [''n''] [''c'', ''n''] sample_disk = (r, d')"
    by (metis prod.collapse)
  show ?thesis
  proof (cases r)
    case (Inr snap)
    with run show ?thesis
      by (auto simp: perform_copy_def copy_finish_def copy_commit_def cleanup_Inr split: prod.splits sum.splits)
  next
    case (Inl e)
    then have "node_at d' [''c'', ''n''] = node_at sample_disk [''c'', ''n'']"
      using perform_copy_error_is_clean [of copy_kernel copy_kernel sample_env True "[''n'']" "[''c'', ''n'']" sample_disk e d'] run
      by simp
    with run Inl show ?thesis by (auto simp: sample_disk_def node_at_def)
  qed
qed

end
