(* ===== verification/Scheduler.thy ===== *)
theory Scheduler
  imports Text
begin

text \<open>
  The caching window (src/src/engine/scheduler.rs): parsing of HH:MM bounds and the test whether a
  local time lies inside the window, which may wrap past midnight. Hours and minutes are u8, the
  minute of the day is computed in u32. The local clock (localtime_r) is an argument.
\<close>

section \<open>Parsing\<close>

datatype time_error = BadTime string | ParseInt string | OutOfRange string

definition parse_hhmm :: "string \<Rightarrow> time_error + u8 \<times> u8" where
  "parse_hhmm s =
     (case split_once (CHR '':'') s of (hs, rest) \<Rightarrow>
       (case parse_u8 hs of
          None \<Rightarrow> Inl (ParseInt hs)
        | Some h \<Rightarrow>
          (case rest of
             None \<Rightarrow> Inl (BadTime s)
           | Some ms \<Rightarrow>
             (case parse_u8 ms of
                None \<Rightarrow> Inl (ParseInt ms)
              | Some m \<Rightarrow> if h < 24 \<and> m < 60 then Inr (h, m) else Inl (OutOfRange s)))))"

section \<open>The window\<close>

record scheduler =
  sch_start :: "u8 \<times> u8"
  sch_end :: "u8 \<times> u8"

definition scheduler_new :: "string \<Rightarrow> string \<Rightarrow> time_error + scheduler" where
  "scheduler_new s e =
     (case parse_hhmm s of
        Inl err \<Rightarrow> Inl err
      | Inr st \<Rightarrow>
        (case parse_hhmm e of
           Inl err \<Rightarrow> Inl err
         | Inr en \<Rightarrow> Inr \<lparr>sch_start = st, sch_end = en\<rparr>))"

definition minute_of :: "u8 \<times> u8 \<Rightarrow> u32" where
  "minute_of hm = ucast (fst hm) * 60 + ucast (snd hm)"

definition is_allowed_at :: "scheduler \<Rightarrow> u8 \<Rightarrow> u8 \<Rightarrow> bool" where
  "is_allowed_at sch h m =
     (let now = minute_of (h, m);
          start = minute_of (sch_start sch);
          end = minute_of (sch_end sch)
      in if start \<le> end then start \<le> now \<and> now < end
         else start \<le> now \<or> now < end)"

text \<open>A scheduler holds valid times: what \<open>Scheduler::new\<close> establishes.\<close>

definition valid_time :: "u8 \<times> u8 \<Rightarrow> bool" where
  "valid_time hm = (fst hm < 24 \<and> snd hm < 60)"

definition scheduler_ok :: "scheduler \<Rightarrow> bool" where
  "scheduler_ok sch = (valid_time (sch_start sch) \<and> valid_time (sch_end sch))"

section \<open>Lemmas\<close>

lemma parse_hhmm_valid: "parse_hhmm s = Inr hm \<Longrightarrow> valid_time hm"
  by (auto simp: parse_hhmm_def valid_time_def split: prod.splits option.splits if_splits)

text \<open>The u32 computation never wraps, for any pair of bytes.\<close>

lemma unat_minute_of: "unat (minute_of hm) = unat (fst hm) * 60 + unat (snd hm)"
proof -
  have lt: "unat b < 256" for b :: u8
  proof -
    have "unat b < 2 ^ LENGTH(8)" by (rule unsigned_less)
    then show ?thesis by simp
  qed
  have u: "unat (ucast b :: u32) = unat b" for b :: u8
    using lt [of b] by (simp add: unsigned_ucast_eq take_bit_nat_eq_self)
  have b: "unat (fst hm) < 256" "unat (snd hm) < 256" by (rule lt)+
  have "unat (ucast (fst hm) * 60 :: u32) = unat (fst hm) * 60"
    using b(1) by (simp add: unat_word_ariths u)
  then show ?thesis
    using b by (simp add: minute_of_def unat_word_ariths u)
qed

text \<open>The minutes that the window covers, as a set of minutes of the day.\<close>

definition window_minutes :: "scheduler \<Rightarrow> nat set" where
  "window_minutes sch =
     (let s = unat (fst (sch_start sch)) * 60 + unat (snd (sch_start sch));
          e = unat (fst (sch_end sch)) * 60 + unat (snd (sch_end sch))
      in if s \<le> e then {s..<e} else {s..<1440} \<union> {0..<e})"

lemma minute_lt_day: "valid_time hm \<Longrightarrow> unat (fst hm) * 60 + unat (snd hm) < 1440"
proof -
  assume "valid_time hm"
  then have "unat (fst hm) < 24" "unat (snd hm) < 60"
    by (simp_all add: valid_time_def word_less_nat_alt)
  then show ?thesis by linarith
qed

text \<open>Window membership: for a valid local time the guard is true exactly on the minutes of the
  day that the window covers, wrap past midnight included; an empty window (equal bounds) admits
  no minute.\<close>

theorem is_allowed_at_window:
  assumes "valid_time (h, m)"
  shows "is_allowed_at sch h m \<longleftrightarrow> unat h * 60 + unat m \<in> window_minutes sch"
  using minute_lt_day [OF assms]
  by (auto simp: is_allowed_at_def window_minutes_def Let_def word_le_nat_alt word_less_nat_alt
        unat_minute_of)

lemma is_allowed_at_window_witness:
  "is_allowed_at \<lparr>sch_start = (22, 0), sch_end = (8, 30)\<rparr> 3 15 \<longleftrightarrow>
     unat (3 :: u8) * 60 + unat (15 :: u8) \<in> window_minutes \<lparr>sch_start = (22, 0), sch_end = (8, 30)\<rparr>"
  by (rule is_allowed_at_window) (simp add: valid_time_def)

lemma scheduler_new_ok: "scheduler_new s e = Inr sch \<Longrightarrow> scheduler_ok sch"
  by (auto simp: scheduler_new_def scheduler_ok_def split: sum.splits dest!: parse_hhmm_valid)

end
