(* ===== verification/CacheIO.thy ===== *)
theory CacheIO
  imports CacheCopy Scheduler
begin

text \<open>
  The copy pipeline (src/src/cache/io.rs): submission with deduplication, the dispatcher, the copy
  and validation workers, abort, expiry and persistence across restarts. The tasks run concurrently
  on the tokio runtime; a step of the relation is what a task does between two points at which it
  can be interrupted (a lock, an await), so every interleaving of the tasks is a sequence of steps.
\<close>

section \<open>State\<close>

datatype kind = Populate | Validate | Replace

record job =
  j_path :: path
  j_kind :: kind
  j_ts :: nat

type_synonym key = "path \<times> kind"

text \<open>
  Where a worker is: started; past the already-cached check; in flight with its control handle;
  copying; with the partial file written, before the commit; about to submit the replacement of a
  stale file; about to leave \<open>known\<close>; about to remove the deferred row. A handle is an index into
  the list of abort flags, so that the watcher and the worker share it as the Arc is shared.
\<close>

datatype phase = PStart | PChecked | PPromoted nat | PCopying nat | PWritten nat stat | PReplace | PFinish | PUnpersist

record worker =
  w_job :: job
  w_phase :: phase

record cache_io =
  io_queue :: "job list"
  io_known :: "(key \<times> nat option) list"
  io_ctrls :: "bool list"
  io_submitting :: "key list"
  io_waiting :: "job option"
  io_workers :: "worker list"
  io_permits :: nat
  io_removals :: "path list"
  io_disk :: disk
  io_db :: cache_db

definition job_key :: "job \<Rightarrow> key" where
  "job_key j = (j_path j, j_kind j)"

section \<open>Start\<close>

definition rehydrate_one :: "(key \<times> nat option) list \<times> job list \<Rightarrow> path \<times> path \<times> nat \<Rightarrow> (key \<times> nat option) list \<times> job list" where
  "rehydrate_one st row =
     (case (st, row) of ((known, queue), (_, p, ts)) \<Rightarrow>
       if map_of known (p, Populate) = None
       then (AList.update (p, Populate) None known, queue @ [\<lparr>j_path = p, j_kind = Populate, j_ts = ts\<rparr>])
       else (known, queue))"

definition spawn :: "nat \<Rightarrow> nat \<Rightarrow> nat \<Rightarrow> disk \<Rightarrow> cache_db \<Rightarrow> cache_io" where
  "spawn max_copies ttl now d db =
     (case foldl rehydrate_one ([], []) (load_deferred now ttl db) of (known, queue) \<Rightarrow>
       \<lparr>io_queue = queue, io_known = known, io_ctrls = [], io_submitting = [], io_waiting = None,
        io_workers = [], io_permits = max_copies, io_removals = [], io_disk = d, io_db = db\<rparr>)"

section \<open>Submission\<close>

text \<open>submit_job: the cheap check before the lock, then the locked part.\<close>

definition submit_check :: "cache_manager \<Rightarrow> key \<Rightarrow> cache_io \<Rightarrow> cache_io" where
  "submit_check cm key io =
     (if snd key = Populate \<and> is_cached cm (io_disk io) (fst key) then io
      else io\<lparr>io_submitting := io_submitting io @ [key]\<rparr>)"

definition submit_locked :: "nat \<Rightarrow> key \<Rightarrow> cache_io \<Rightarrow> cache_io" where
  "submit_locked now key io =
     (if map_of (io_known io) key \<noteq> None then io
      else io\<lparr>io_known := AList.update key None (io_known io),
              io_queue := io_queue io @ [\<lparr>j_path = fst key, j_kind = snd key, j_ts = now\<rparr>],
              io_db := (if snd key = Populate then save_deferred (fst key) (fst key) now (io_db io) else io_db io)\<rparr>)"

definition submit_commit :: "nat \<Rightarrow> key \<Rightarrow> cache_io \<Rightarrow> cache_io" where
  "submit_commit now key io =
     submit_locked now key (io\<lparr>io_submitting := remove1 key (io_submitting io)\<rparr>)"

definition submit_maintenance_validation :: "cache_manager \<Rightarrow> cache_io \<Rightarrow> cache_io" where
  "submit_maintenance_validation cm io =
     foldl (\<lambda>io row. submit_check cm (fst row, Validate) io) io (all_fingerprints (cm_mount_id cm) (io_db io))"

section \<open>Abort and expiry\<close>

definition abort_flag :: "key \<Rightarrow> cache_io \<Rightarrow> cache_io" where
  "abort_flag key io =
     (case map_of (io_known io) key of
        Some (Some c) \<Rightarrow> io\<lparr>io_ctrls := (io_ctrls io)[c := True]\<rparr>
      | _ \<Rightarrow> io)"

definition mark_abort :: "path \<Rightarrow> cache_io \<Rightarrow> cache_io" where
  "mark_abort rel io = abort_flag (rel, Replace) (abort_flag (rel, Populate) io)"

fun expire_loop :: "nat \<Rightarrow> job list \<Rightarrow> (key \<times> nat option) list \<Rightarrow> path list \<Rightarrow> job list \<times> (key \<times> nat option) list \<times> path list" where
  "expire_loop cutoff [] known expired = ([], known, expired)"
| "expire_loop cutoff (j # js) known expired =
     (if j_ts j \<ge> cutoff then (j # js, known, expired)
      else expire_loop cutoff js (AList.delete (job_key j) known)
             (if j_kind j = Populate then expired @ [j_path j] else expired))"

definition expire_stale :: "nat \<Rightarrow> nat \<Rightarrow> cache_io \<Rightarrow> cache_io" where
  "expire_stale now ttl io =
     (if ttl = 0 then io
      else (case expire_loop (now - mul64 ttl 60) (io_queue io) (io_known io) [] of
              (queue, known, removed) \<Rightarrow>
                io\<lparr>io_queue := queue, io_known := known, io_removals := io_removals io @ removed\<rparr>))"

text \<open>The deferred rows of expired jobs are removed after the lock is released.\<close>

definition unpersist_expired :: "cache_io \<Rightarrow> cache_io" where
  "unpersist_expired io =
     (case io_removals io of
        [] \<Rightarrow> io
      | p # ps \<Rightarrow> io\<lparr>io_removals := ps, io_db := remove_deferred p (io_db io)\<rparr>)"

section \<open>Dispatch\<close>

fun remove_first :: "(job \<Rightarrow> bool) \<Rightarrow> job list \<Rightarrow> (job \<times> job list) option" where
  "remove_first P [] = None"
| "remove_first P (j # js) =
     (if P j then Some (j, js) else map_option (\<lambda>(x, xs). (x, j # xs)) (remove_first P js))"

definition pop_next_job :: "bool \<Rightarrow> job list \<Rightarrow> (job \<times> job list) option" where
  "pop_next_job copy_allowed queue =
     (if copy_allowed then (case queue of [] \<Rightarrow> None | j # js \<Rightarrow> Some (j, js))
      else remove_first (\<lambda>j. j_kind j = Validate) queue)"

definition dispatch_pop :: "bool \<Rightarrow> cache_io \<Rightarrow> cache_io" where
  "dispatch_pop allowed io =
     (case pop_next_job allowed (io_queue io) of
        None \<Rightarrow> io
      | Some (j, q) \<Rightarrow>
          if j_kind j = Validate
          then io\<lparr>io_queue := q, io_workers := io_workers io @ [\<lparr>w_job = j, w_phase = PStart\<rparr>]\<rparr>
          else io\<lparr>io_queue := q, io_waiting := Some j\<rparr>)"

definition acquire_permit :: "cache_io \<Rightarrow> cache_io" where
  "acquire_permit io =
     (case io_waiting io of
        None \<Rightarrow> io
      | Some j \<Rightarrow>
          if io_permits io = 0 then io
          else io\<lparr>io_waiting := None, io_permits := io_permits io - 1,
                  io_workers := io_workers io @ [\<lparr>w_job = j, w_phase = PStart\<rparr>]\<rparr>)"

section \<open>Workers\<close>

text \<open>What the outside answers while a worker takes a step: the clock, statvfs, the backing store and
  the system calls of a copy.\<close>

record surroundings =
  sr_now :: nat
  sr_vfs :: statvfs_fn
  sr_kernel :: backing_kernel
  sr_copy :: copy_env

text \<open>On-demand eviction: the two checks around the eviction, then the check that decides.\<close>

definition make_room :: "surroundings \<Rightarrow> cache_manager \<Rightarrow> path \<Rightarrow> store \<Rightarrow> bool \<times> store" where
  "make_room e cm rel s =
     (let s1 = (if \<not> has_free_space (sr_vfs e) cm (fst s)
                then snd (evict_to_fit cm (file_size_or_0 (sr_kernel e) rel) s) else s)
      in (has_free_space (sr_vfs e) cm (fst s1), s1))"

definition populate_check :: "cache_manager \<Rightarrow> job \<Rightarrow> cache_io \<Rightarrow> phase" where
  "populate_check cm j io =
     (if j_kind j = Populate \<and> is_cached cm (io_disk io) (j_path j) then PFinish else PChecked)"

definition promote :: "job \<Rightarrow> cache_io \<Rightarrow> phase \<times> cache_io" where
  "promote j io =
     (let c = length (io_ctrls io)
      in (PPromoted c, io\<lparr>io_ctrls := io_ctrls io @ [False],
                          io_known := AList.update (job_key j) (Some c) (io_known io)\<rparr>))"

definition validate_run :: "surroundings \<Rightarrow> cache_manager \<Rightarrow> path \<Rightarrow> cache_io \<Rightarrow> phase \<times> cache_io" where
  "validate_run e cm rel io =
     (case is_stale cm (sr_kernel e) (io_db io) rel of
        Fresh live \<Rightarrow> (PFinish, io\<lparr>io_db := refresh_source_metadata cm rel live (io_db io)\<rparr>)
      | NotTracked \<Rightarrow> (PFinish, io)
      | NeedsBackfill st \<Rightarrow> (PFinish, io\<lparr>io_db := backfill_fingerprint (sr_now e) cm rel st (io_db io)\<rparr>)
      | BackingGone \<Rightarrow> (case drop_stale cm rel (io_disk io, io_db io) of
                         (d, db) \<Rightarrow> (PFinish, io\<lparr>io_disk := d, io_db := db\<rparr>))
      | Stale \<Rightarrow> (PReplace, io))"

text \<open>The commit of a copy: on success the row is recorded, on failure only logged.\<close>

definition commit_copy ::
  "surroundings \<Rightarrow> cache_manager \<Rightarrow> path \<Rightarrow> nat \<Rightarrow> stat \<Rightarrow> cache_io \<Rightarrow> cache_io" where
  "commit_copy e cm rel c src_meta io =
     (case copy_finish (sr_kernel e) (sr_copy e) (io_ctrls io ! c) rel (cache_path cm rel) src_meta (io_disk io) of
        (Inl _, d) \<Rightarrow> io\<lparr>io_disk := d\<rparr>
      | (Inr source_meta, d) \<Rightarrow>
          io\<lparr>io_disk := d, io_db := mark_cached (sr_now e) cm rel source_meta (io_db io)\<rparr>)"

text \<open>One step of a worker: its next phase, None when the task ends.\<close>

definition advance ::
  "surroundings \<Rightarrow> cache_manager \<Rightarrow> worker \<Rightarrow> cache_io \<Rightarrow> phase option \<times> cache_io" where
  "advance e cm w io =
     (let j = w_job w; rel = j_path j in
      case w_phase w of
        PStart \<Rightarrow>
          if j_kind j = Validate then apfst Some (validate_run e cm rel io)
          else (Some (populate_check cm j io), io)
      | PChecked \<Rightarrow> apfst Some (promote j io)
      | PPromoted c \<Rightarrow>
          (case make_room e cm rel (io_disk io, io_db io) of
             (ok, d, db) \<Rightarrow> (Some (if ok then PCopying c else PFinish), io\<lparr>io_disk := d, io_db := db\<rparr>))
      | PCopying c \<Rightarrow>
          (case copy_write (sr_kernel e) (sr_copy e) rel (cache_path cm rel) (io_disk io) of
             (Inl _, d) \<Rightarrow> (Some PFinish, io\<lparr>io_disk := d\<rparr>)
           | (Inr src_meta, d) \<Rightarrow> (Some (PWritten c src_meta), io\<lparr>io_disk := d\<rparr>))
      | PWritten c src_meta \<Rightarrow> (Some PFinish, commit_copy e cm rel c src_meta io)
      | PReplace \<Rightarrow> (Some PFinish, submit_locked (sr_now e) (rel, Replace) io)
      | PFinish \<Rightarrow>
          (if j_kind j = Populate then Some PUnpersist else None,
           io\<lparr>io_known := AList.delete (job_key j) (io_known io)\<rparr>)
      | PUnpersist \<Rightarrow> (None, io\<lparr>io_db := remove_deferred rel (io_db io)\<rparr>))"

text \<open>The permit of a copy worker is dropped when its task ends.\<close>

definition settle :: "worker list \<Rightarrow> worker \<Rightarrow> worker list \<Rightarrow> phase option \<Rightarrow> cache_io \<Rightarrow> cache_io" where
  "settle ws w vs np io =
     (case np of
        Some p \<Rightarrow> io\<lparr>io_workers := ws @ w\<lparr>w_phase := p\<rparr> # vs\<rparr>
      | None \<Rightarrow> io\<lparr>io_workers := ws @ vs,
                  io_permits := (if j_kind (w_job w) = Validate then io_permits io else Suc (io_permits io))\<rparr>)"

section \<open>The step relation\<close>

inductive io_step :: "cache_manager \<Rightarrow> cache_io \<Rightarrow> cache_io \<Rightarrow> bool" for cm where
  st_check: "io_step cm io (submit_check cm key io)"
| st_commit: "key \<in> set (io_submitting io) \<Longrightarrow> io_step cm io (submit_commit now key io)"
| st_abort: "io_step cm io (mark_abort rel io)"
| st_expire: "io_step cm io (expire_stale now ttl io)"
| st_unpersist: "io_step cm io (unpersist_expired io)"
| st_pop: "io_waiting io = None \<Longrightarrow> io_step cm io (dispatch_pop allowed io)"
| st_acquire: "io_step cm io (acquire_permit io)"
| st_work: "io_workers io = ws @ w # vs \<Longrightarrow> advance e cm w io = (np, io') \<Longrightarrow>
    io_step cm io (settle ws w vs np io')"
| st_other: "io_step cm io (io\<lparr>io_disk := d, io_db := db\<rparr>)"

inductive io_reachable :: "cache_manager \<Rightarrow> nat \<Rightarrow> cache_io \<Rightarrow> bool" for cm max_copies where
  spawned: "io_reachable cm max_copies (spawn max_copies ttl now d db)"
| stepped: "io_reachable cm max_copies io \<Longrightarrow> io_step cm io io' \<Longrightarrow> io_reachable cm max_copies io'"

section \<open>The invariant\<close>

definition waiting_jobs :: "cache_io \<Rightarrow> job list" where
  "waiting_jobs io = (case io_waiting io of None \<Rightarrow> [] | Some j \<Rightarrow> [j])"

definition holds_key :: "worker \<Rightarrow> bool" where
  "holds_key w = (w_phase w \<noteq> PUnpersist)"

definition worker_key :: "worker \<Rightarrow> key" where
  "worker_key w = job_key (w_job w)"

definition active_keys :: "cache_io \<Rightarrow> key list" where
  "active_keys io = map job_key (io_queue io @ waiting_jobs io) @ map worker_key (filter holds_key (io_workers io))"

definition is_copy :: "worker \<Rightarrow> bool" where
  "is_copy w = (j_kind (w_job w) \<noteq> Validate)"

text \<open>The handle of a worker in flight is the one in \<open>known\<close>.\<close>

definition ctrl_ok :: "cache_io \<Rightarrow> worker \<Rightarrow> bool" where
  "ctrl_ok io w =
     (let in_flight = (\<lambda>c. c < length (io_ctrls io) \<and> is_copy w \<and> map_of (io_known io) (worker_key w) = Some (Some c))
      in case w_phase w of
           PPromoted c \<Rightarrow> in_flight c
         | PCopying c \<Rightarrow> in_flight c
         | PWritten c _ \<Rightarrow> in_flight c
         | PChecked \<Rightarrow> is_copy w
         | PReplace \<Rightarrow> \<not> is_copy w
         | PUnpersist \<Rightarrow> is_copy w
         | _ \<Rightarrow> True)"

definition pipe_inv :: "nat \<Rightarrow> cache_io \<Rightarrow> bool" where
  "pipe_inv max_copies io =
     (distinct (active_keys io) \<and> dom (map_of (io_known io)) = set (active_keys io) \<and>
      io_permits io + length (filter is_copy (io_workers io)) = max_copies \<and>
      (\<forall>j \<in> set (waiting_jobs io). j_kind j \<noteq> Validate) \<and>
      (\<forall>w \<in> set (io_workers io). ctrl_ok io w))"

section \<open>Lemmas\<close>

lemma remove_first_mset: "remove_first P q = Some (j, q') \<Longrightarrow> mset q = mset (j # q') \<and> P j"
  by (induction q arbitrary: q') (auto split: if_splits)

lemma pop_next_job_mset: "pop_next_job a q = Some (j, q') \<Longrightarrow> mset q = mset (j # q')"
  by (auto simp: pop_next_job_def split: if_splits list.splits dest: remove_first_mset)

lemma expire_loop_spec:
  "expire_loop cutoff q known ex =
     (dropWhile (\<lambda>j. j_ts j < cutoff) q,
      fold AList.delete (map job_key (takeWhile (\<lambda>j. j_ts j < cutoff) q)) known,
      ex @ map j_path (filter (\<lambda>j. j_kind j = Populate) (takeWhile (\<lambda>j. j_ts j < cutoff) q)))"
  by (induction q arbitrary: known ex) auto

lemma map_of_fold_delete: "map_of (fold AList.delete ks m) k = (if k \<in> set ks then None else map_of m k)"
  by (induction ks arbitrary: m) (auto simp: delete_conv')

lemma dom_fold_delete: "dom (map_of (fold AList.delete ks m)) = dom (map_of m) - set ks"
  by (auto simp: dom_def map_of_fold_delete)

lemma dom_update: "dom (map_of (AList.update k v m)) = insert k (dom (map_of m))"
  by (simp add: update_conv')

lemma dom_delete: "dom (map_of (AList.delete k m)) = dom (map_of m) - {k}"
  by (simp add: delete_conv')

lemma abort_flag_fields [simp]:
  "io_queue (abort_flag key io) = io_queue io" "io_known (abort_flag key io) = io_known io"
  "io_waiting (abort_flag key io) = io_waiting io" "io_workers (abort_flag key io) = io_workers io"
  "io_permits (abort_flag key io) = io_permits io" "length (io_ctrls (abort_flag key io)) = length (io_ctrls io)"
  "io_disk (abort_flag key io) = io_disk io" "io_db (abort_flag key io) = io_db io"
  "io_submitting (abort_flag key io) = io_submitting io" "io_removals (abort_flag key io) = io_removals io"
  by (simp_all add: abort_flag_def split: option.splits)

lemma mark_abort_fields [simp]:
  "io_queue (mark_abort rel io) = io_queue io" "io_known (mark_abort rel io) = io_known io"
  "io_waiting (mark_abort rel io) = io_waiting io" "io_workers (mark_abort rel io) = io_workers io"
  "io_permits (mark_abort rel io) = io_permits io" "length (io_ctrls (mark_abort rel io)) = length (io_ctrls io)"
  "io_disk (mark_abort rel io) = io_disk io" "io_db (mark_abort rel io) = io_db io"
  by (simp_all add: mark_abort_def)

text \<open>Everything the invariant speaks about.\<close>

lemma pipe_inv_cong:
  assumes "io_queue io' = io_queue io" and "io_known io' = io_known io" and "io_waiting io' = io_waiting io"
    and "io_workers io' = io_workers io" and "io_permits io' = io_permits io"
    and "length (io_ctrls io') = length (io_ctrls io)"
  shows "pipe_inv n io' = pipe_inv n io"
  using assms by (simp add: pipe_inv_def active_keys_def waiting_jobs_def ctrl_ok_def)

lemma ctrl_ok_cong:
  "io_known io' = io_known io \<Longrightarrow> length (io_ctrls io') = length (io_ctrls io) \<Longrightarrow> ctrl_ok io' w = ctrl_ok io w"
  by (simp add: ctrl_ok_def)

lemma ctrl_ok_upd [simp]:
  "ctrl_ok (io\<lparr>io_queue := q\<rparr>) w = ctrl_ok io w" "ctrl_ok (io\<lparr>io_waiting := x\<rparr>) w = ctrl_ok io w"
  "ctrl_ok (io\<lparr>io_workers := ws\<rparr>) w = ctrl_ok io w" "ctrl_ok (io\<lparr>io_permits := m\<rparr>) w = ctrl_ok io w"
  "ctrl_ok (io\<lparr>io_disk := d\<rparr>) w = ctrl_ok io w" "ctrl_ok (io\<lparr>io_db := db\<rparr>) w = ctrl_ok io w"
  "ctrl_ok (io\<lparr>io_removals := ps\<rparr>) w = ctrl_ok io w" "ctrl_ok (io\<lparr>io_submitting := ks\<rparr>) w = ctrl_ok io w"
  by (simp_all add: ctrl_ok_def)

lemma ctrl_ok_start [simp]: "ctrl_ok io \<lparr>w_job = j, w_phase = PStart\<rparr>"
  by (simp add: ctrl_ok_def)

lemma pipe_inv_submit_locked:
  assumes "pipe_inv n io"
  shows "pipe_inv n (submit_locked now key io)"
proof (cases "map_of (io_known io) key = None")
  case False
  then show ?thesis using assms by (simp add: submit_locked_def)
next
  case True
  let ?io = "submit_locked now key io"
  have act: "set (active_keys ?io) = insert key (set (active_keys io))" "mset (active_keys ?io) = add_mset key (mset (active_keys io))"
    using True by (auto simp: submit_locked_def active_keys_def waiting_jobs_def job_key_def)
  have new: "key \<notin> set (active_keys io)" using assms True by (auto simp: pipe_inv_def)
  then have "distinct (active_keys ?io)"
    using assms act(2) by (metis distinct.simps(2) mset.simps(2) mset_eq_imp_distinct_iff pipe_inv_def)
  moreover have "ctrl_ok ?io w" if "ctrl_ok io w" for w
    using that True by (auto simp: ctrl_ok_def submit_locked_def update_conv' split: phase.splits)
  ultimately show ?thesis
    using assms act(1) True
    by (auto simp: pipe_inv_def submit_locked_def dom_update waiting_jobs_def)
qed

lemma pipe_inv_expire:
  assumes "pipe_inv n io"
  shows "pipe_inv n (expire_stale now ttl io)"
proof (cases "ttl = 0")
  case True
  then show ?thesis using assms by (simp add: expire_stale_def)
next
  case False
  let ?P = "\<lambda>j. j_ts j < now - mul64 ttl 60"
  let ?old = "takeWhile ?P (io_queue io)" and ?new = "dropWhile ?P (io_queue io)"
  let ?io = "expire_stale now ttl io"
  have io': "io_queue ?io = ?new" "io_known ?io = fold AList.delete (map job_key ?old) (io_known io)"
    "io_waiting ?io = io_waiting io" "io_workers ?io = io_workers io" "io_permits ?io = io_permits io"
    "io_ctrls ?io = io_ctrls io"
    using False by (simp_all add: expire_stale_def expire_loop_spec)
  have split: "active_keys io = map job_key ?old @ active_keys ?io"
    unfolding active_keys_def io' waiting_jobs_def
    by (simp only: append_assoc [symmetric] map_append [symmetric] takeWhile_dropWhile_id)
  have dist: "distinct (active_keys ?io)" "set (map job_key ?old) \<inter> set (active_keys ?io) = {}"
    using assms unfolding pipe_inv_def split by (auto simp only: distinct_append)
  have dom: "dom (map_of (io_known ?io)) = set (active_keys ?io)"
    using assms dist(2) unfolding io'(2) dom_fold_delete pipe_inv_def split by auto
  have "ctrl_ok ?io w" if "w \<in> set (io_workers io)" for w
  proof -
    have ok: "ctrl_ok io w" using assms that by (simp add: pipe_inv_def)
    have "worker_key w \<notin> set (map job_key ?old)" if "holds_key w"
    proof -
      have "worker_key w \<in> set (active_keys ?io)"
        using that \<open>w \<in> set (io_workers io)\<close> by (auto simp: active_keys_def io')
      with dist(2) show ?thesis by blast
    qed
    then show ?thesis using ok unfolding ctrl_ok_def io' map_of_fold_delete
      by (auto simp: holds_key_def split: phase.splits)
  qed
  then show ?thesis using assms dist(1) dom by (simp add: pipe_inv_def io' waiting_jobs_def)
qed

lemma pipe_inv_pop:
  assumes "pipe_inv n io" and "io_waiting io = None"
  shows "pipe_inv n (dispatch_pop allowed io)"
proof (cases "pop_next_job allowed (io_queue io)")
  case None
  then show ?thesis using assms(1) by (simp add: dispatch_pop_def)
next
  case (Some r)
  obtain j q where r: "r = (j, q)" by (cases r)
  let ?io = "dispatch_pop allowed io"
  have "mset (io_queue io) = mset (j # q)" using pop_next_job_mset Some r by simp
  then have "mset (active_keys ?io) = mset (active_keys io)"
    using Some r assms(2)
    by (auto simp: dispatch_pop_def active_keys_def waiting_jobs_def worker_key_def holds_key_def)
  then have "distinct (active_keys ?io) = distinct (active_keys io)" "set (active_keys ?io) = set (active_keys io)"
    by (metis mset_eq_imp_distinct_iff, metis mset_eq_setD)
  then show ?thesis using assms Some r
    by (auto simp: pipe_inv_def dispatch_pop_def waiting_jobs_def is_copy_def)
qed

lemma pipe_inv_acquire:
  assumes "pipe_inv n io"
  shows "pipe_inv n (acquire_permit io)"
proof (cases "io_waiting io")
  case None
  then show ?thesis using assms by (simp add: acquire_permit_def)
next
  case (Some j)
  let ?io = "acquire_permit io"
  have "mset (active_keys ?io) = mset (active_keys io)"
    using Some by (auto simp: acquire_permit_def active_keys_def waiting_jobs_def worker_key_def holds_key_def)
  then have "distinct (active_keys ?io) = distinct (active_keys io)" "set (active_keys ?io) = set (active_keys io)"
    by (metis mset_eq_imp_distinct_iff, metis mset_eq_setD)
  then show ?thesis using assms Some
    by (auto simp: pipe_inv_def acquire_permit_def waiting_jobs_def is_copy_def)
qed

text \<open>The part of a worker's step that changes nothing the invariant speaks about.\<close>

lemma validate_run_fields:
  "validate_run e cm rel io = (p, io') \<Longrightarrow>
     (p = PFinish \<or> p = PReplace) \<and> io_queue io' = io_queue io \<and> io_known io' = io_known io \<and>
     io_waiting io' = io_waiting io \<and> io_workers io' = io_workers io \<and> io_permits io' = io_permits io \<and>
     io_ctrls io' = io_ctrls io"
  by (auto simp: validate_run_def split: stale_result.splits prod.splits)

lemma commit_copy_fields [simp]:
  "io_queue (commit_copy e cm rel c m io) = io_queue io" "io_known (commit_copy e cm rel c m io) = io_known io"
  "io_waiting (commit_copy e cm rel c m io) = io_waiting io" "io_workers (commit_copy e cm rel c m io) = io_workers io"
  "io_permits (commit_copy e cm rel c m io) = io_permits io" "io_ctrls (commit_copy e cm rel c m io) = io_ctrls io"
  by (simp_all add: commit_copy_def split: prod.splits sum.splits)

lemma submit_locked_fields [simp]:
  "io_workers (submit_locked now key io) = io_workers io" "io_waiting (submit_locked now key io) = io_waiting io"
  "io_permits (submit_locked now key io) = io_permits io" "io_ctrls (submit_locked now key io) = io_ctrls io"
  by (simp_all add: submit_locked_def)

lemma is_copy_phase [simp]: "is_copy (w\<lparr>w_phase := p\<rparr>) = is_copy w" "worker_key (w\<lparr>w_phase := p\<rparr>) = worker_key w"
  by (simp_all add: is_copy_def worker_key_def)

lemma active_keys_phase:
  assumes "io_workers io = ws @ w # vs" and "holds_key w" and "p \<noteq> PUnpersist"
  shows "active_keys (io\<lparr>io_workers := ws @ w\<lparr>w_phase := p\<rparr> # vs\<rparr>) = active_keys io"
  using assms by (simp add: active_keys_def waiting_jobs_def holds_key_def worker_key_def)

text \<open>A step that keeps the worker's key, known and handles.\<close>

lemma pipe_inv_phase:
  assumes "pipe_inv n io" and "io_workers io = ws @ w # vs" and "holds_key w" and "p \<noteq> PUnpersist"
    and "ctrl_ok io (w\<lparr>w_phase := p\<rparr>)"
  shows "pipe_inv n (io\<lparr>io_workers := ws @ w\<lparr>w_phase := p\<rparr> # vs\<rparr>)"
  using assms active_keys_phase [OF assms(2-4)]
  by (auto simp: pipe_inv_def waiting_jobs_def)

lemma other_key:
  assumes "distinct (active_keys io)" and "io_workers io = ws @ w # vs" and "holds_key w"
    and "v \<in> set ws \<union> set vs" and "holds_key v"
  shows "worker_key v \<noteq> worker_key w"
  using assms by (auto simp: active_keys_def image_iff)

lemma pipe_inv_promote:
  assumes inv: "pipe_inv n io" and ws: "io_workers io = ws @ w # vs" and ph: "w_phase w = PChecked"
    and pr: "promote (w_job w) io = (p, io')"
  shows "pipe_inv n (io'\<lparr>io_workers := ws @ w\<lparr>w_phase := p\<rparr> # vs\<rparr>)"
proof -
  let ?c = "length (io_ctrls io)"
  have holds: "holds_key w" using ph by (simp add: holds_key_def)
  have io': "io' = io\<lparr>io_ctrls := io_ctrls io @ [False], io_known := AList.update (worker_key w) (Some ?c) (io_known io)\<rparr>"
    and p: "p = PPromoted ?c"
    using pr by (auto simp: promote_def Let_def worker_key_def)
  let ?io = "io'\<lparr>io_workers := ws @ w\<lparr>w_phase := p\<rparr> # vs\<rparr>"
  have act: "active_keys ?io = active_keys io"
    using ws holds by (simp add: io' p active_keys_def waiting_jobs_def holds_key_def worker_key_def)
  have mem: "worker_key w \<in> set (active_keys io)" using ws holds by (simp add: active_keys_def)
  have dom: "dom (map_of (io_known ?io)) = set (active_keys ?io)"
    using inv mem by (simp add: act) (auto simp: io' dom_update pipe_inv_def)
  have "ctrl_ok io w" using inv ws by (simp add: pipe_inv_def)
  then have self: "ctrl_ok ?io (w\<lparr>w_phase := p\<rparr>)"
    using ph by (simp add: ctrl_ok_def io' p update_conv' worker_key_def is_copy_def)
  have other: "ctrl_ok ?io v" if v: "v \<in> set ws \<union> set vs" for v
  proof (cases "holds_key v")
    case True
    have "worker_key v \<noteq> worker_key w"
      using other_key [OF _ ws holds v True] inv by (simp add: pipe_inv_def)
    then have "map_of (io_known ?io) (worker_key v) = map_of (io_known io) (worker_key v)"
      by (simp add: io' update_conv')
    moreover have "ctrl_ok io v" using inv ws v by (auto simp: pipe_inv_def)
    ultimately show ?thesis
      by (auto simp: ctrl_ok_def io' Let_def split: phase.splits)
  next
    case False
    moreover have "ctrl_ok io v" using inv ws v by (auto simp: pipe_inv_def)
    ultimately show ?thesis by (auto simp: ctrl_ok_def holds_key_def Let_def)
  qed
  show ?thesis
    using inv dom self other act ws
    by (auto simp: pipe_inv_def waiting_jobs_def io')
qed

lemma pipe_inv_finish:
  assumes inv: "pipe_inv n io" and ws: "io_workers io = ws @ w # vs" and ph: "w_phase w = PFinish"
  shows "pipe_inv n (settle ws w vs (if j_kind (w_job w) = Populate then Some PUnpersist else None)
     (io\<lparr>io_known := AList.delete (worker_key w) (io_known io)\<rparr>))" (is "pipe_inv n ?io")
proof -
  have holds: "holds_key w" using ph by (simp add: holds_key_def)
  have act: "mset (active_keys io) = add_mset (worker_key w) (mset (active_keys ?io))"
    using ws holds by (auto simp: settle_def active_keys_def waiting_jobs_def holds_key_def worker_key_def)
  then have dist: "distinct (active_keys ?io)" "worker_key w \<notin> set (active_keys ?io)"
    and set: "set (active_keys io) = insert (worker_key w) (set (active_keys ?io))"
    using inv unfolding pipe_inv_def
    by (metis distinct.simps(2) mset.simps(2) mset_eq_imp_distinct_iff,
        metis distinct.simps(2) mset.simps(2) mset_eq_imp_distinct_iff,
        metis list.simps(15) mset.simps(2) mset_eq_setD)
  have known: "io_known ?io = AList.delete (worker_key w) (io_known io)" by (simp add: settle_def)
  have dom: "dom (map_of (io_known ?io)) = set (active_keys ?io)"
    using inv dist(2) unfolding known dom_delete pipe_inv_def set by auto
  have other: "ctrl_ok ?io v" if v: "v \<in> set ws \<union> set vs" for v
  proof -
    have ok: "ctrl_ok io v" using inv ws v by (auto simp: pipe_inv_def)
    have "map_of (io_known ?io) (worker_key v) = map_of (io_known io) (worker_key v)" if "holds_key v"
      using other_key [OF _ ws holds v that] inv by (simp add: known delete_conv' pipe_inv_def)
    moreover have "io_ctrls ?io = io_ctrls io" by (simp add: settle_def)
    ultimately show ?thesis using ok
      by (auto simp: ctrl_ok_def holds_key_def Let_def split: phase.splits)
  qed
  have copies: "io_permits ?io + length (filter is_copy (io_workers ?io)) = n"
    using inv ws by (auto simp: pipe_inv_def settle_def is_copy_def)
  have self: "ctrl_ok ?io (w\<lparr>w_phase := PUnpersist\<rparr>)" if "j_kind (w_job w) = Populate"
    using that by (simp add: ctrl_ok_def is_copy_def)
  have mem: "v \<in> set ws \<union> set vs \<or> j_kind (w_job w) = Populate \<and> v = w\<lparr>w_phase := PUnpersist\<rparr>"
    if "v \<in> set (io_workers ?io)" for v
    using that by (auto simp: settle_def split: if_splits)
  have all: "\<forall>v \<in> set (io_workers ?io). ctrl_ok ?io v"
  proof
    fix v assume "v \<in> set (io_workers ?io)"
    from mem [OF this] show "ctrl_ok ?io v"
    proof
      assume "v \<in> set ws \<union> set vs" then show ?thesis by (rule other)
    next
      assume "j_kind (w_job w) = Populate \<and> v = w\<lparr>w_phase := PUnpersist\<rparr>"
      then have "v = w\<lparr>w_phase := PUnpersist\<rparr>" "ctrl_ok ?io (w\<lparr>w_phase := PUnpersist\<rparr>)"
        using self by blast+
      then show ?thesis by (rule ssubst)
    qed
  qed
  have "waiting_jobs ?io = waiting_jobs io" by (simp add: settle_def waiting_jobs_def)
  with inv have "\<forall>j \<in> set (waiting_jobs ?io). j_kind j \<noteq> Validate" by (simp only: pipe_inv_def) blast
  with dist(1) dom copies all show ?thesis unfolding pipe_inv_def by blast
qed

lemma pipe_inv_unpersist:
  assumes inv: "pipe_inv n io" and ws: "io_workers io = ws @ w # vs" and ph: "w_phase w = PUnpersist"
  shows "pipe_inv n (settle ws w vs None (io\<lparr>io_db := db\<rparr>))" (is "pipe_inv n ?io")
proof -
  have "ctrl_ok io w" using inv ws by (simp add: pipe_inv_def)
  then have "is_copy w" using ph by (simp add: ctrl_ok_def)
  then have "io_permits ?io + length (filter is_copy (io_workers ?io)) = n"
    using inv ws by (simp add: pipe_inv_def settle_def is_copy_def)
  moreover have "active_keys ?io = active_keys io"
    using ws ph by (simp add: settle_def active_keys_def waiting_jobs_def holds_key_def)
  moreover have "ctrl_ok ?io v = ctrl_ok io v" for v by (rule ctrl_ok_cong) (simp_all add: settle_def)
  ultimately show ?thesis using inv ws
    by (auto simp: pipe_inv_def waiting_jobs_def settle_def)
qed

lemma pipe_inv_work:
  assumes inv: "pipe_inv n io" and ws: "io_workers io = ws @ w # vs" and adv: "advance e cm w io = (np, io')"
  shows "pipe_inv n (settle ws w vs np io')"
proof -
  have okw: "ctrl_ok io w" using inv ws by (simp add: pipe_inv_def)
  have same: "pipe_inv n (io'\<lparr>io_workers := ws @ w\<lparr>w_phase := p\<rparr> # vs\<rparr>)"
    if "pipe_inv n io'" "io_workers io' = io_workers io" "io_known io' = io_known io"
      "length (io_ctrls io') = length (io_ctrls io)" "holds_key w" "p \<noteq> PUnpersist"
      "ctrl_ok io (w\<lparr>w_phase := p\<rparr>)" for p
    using pipe_inv_phase [OF that(1) _ that(5,6)] ws that(2-4,7) ctrl_ok_cong [of io' io] by simp
  have keep: "pipe_inv n io'" if "io_queue io' = io_queue io" "io_known io' = io_known io"
      "io_waiting io' = io_waiting io" "io_workers io' = io_workers io" "io_permits io' = io_permits io"
      "io_ctrls io' = io_ctrls io"
    using inv pipe_inv_cong [of io' io n] that by simp
  show ?thesis
  proof (cases "w_phase w")
    case PStart
    show ?thesis
    proof (cases "j_kind (w_job w) = Validate")
      case True
      then obtain p where "np = Some p" and run: "validate_run e cm (j_path (w_job w)) io = (p, io')"
        using adv PStart by (auto simp: advance_def Let_def apfst_def map_prod_def split: prod.splits)
      note f = validate_run_fields [OF run]
      have "ctrl_ok io (w\<lparr>w_phase := p\<rparr>)" using f True by (auto simp: ctrl_ok_def is_copy_def)
      then show ?thesis unfolding settle_def \<open>np = Some p\<close> option.case
        using f PStart by (intro same keep) (auto simp: holds_key_def)
    next
      case False
      then obtain p where p: "np = Some p" "p = PFinish \<or> p = PChecked" "io' = io"
        using adv PStart by (auto simp: advance_def Let_def populate_check_def split: if_splits)
      then have "ctrl_ok io (w\<lparr>w_phase := p\<rparr>)" using False by (auto simp: ctrl_ok_def is_copy_def)
      then show ?thesis unfolding settle_def p(1) option.case
        using p PStart by (intro same keep) (auto simp: holds_key_def)
    qed
  next
    case PChecked
    then obtain p where "np = Some p" "promote (w_job w) io = (p, io')"
      using adv by (auto simp: advance_def Let_def apfst_def map_prod_def split: prod.splits)
    then show ?thesis using pipe_inv_promote [OF inv ws PChecked] by (simp add: settle_def)
  next
    case (PPromoted c)
    obtain ok d db where "make_room e cm (j_path (w_job w)) (io_disk io, io_db io) = (ok, d, db)"
      by (metis prod.collapse)
    then have eq: "np = Some (if ok then PCopying c else PFinish)" "io' = io\<lparr>io_disk := d, io_db := db\<rparr>"
      using adv PPromoted by (simp_all add: advance_def Let_def)
    then obtain p where p: "np = Some p" "p = PCopying c \<or> p = PFinish" by (cases ok) auto
    then have "ctrl_ok io (w\<lparr>w_phase := p\<rparr>)" using okw PPromoted by (auto simp: ctrl_ok_def)
    then show ?thesis unfolding settle_def p(1) option.case
      using p PPromoted eq(2) by (intro same keep) (auto simp: holds_key_def)
  next
    case (PCopying c)
    then obtain p where p: "np = Some p" "(\<exists>m. p = PWritten c m) \<or> p = PFinish" "\<exists>d. io' = io\<lparr>io_disk := d\<rparr>"
      using adv by (auto simp: advance_def Let_def split: prod.splits sum.splits)
    then have "ctrl_ok io (w\<lparr>w_phase := p\<rparr>)" using okw PCopying by (auto simp: ctrl_ok_def)
    then show ?thesis unfolding settle_def p(1) option.case
      using p PCopying by (intro same keep) (auto simp: holds_key_def)
  next
    case (PWritten c m)
    then have p: "np = Some PFinish" "io' = commit_copy e cm (j_path (w_job w)) c m io"
      using adv by (auto simp: advance_def Let_def)
    have "ctrl_ok io (w\<lparr>w_phase := PFinish\<rparr>)" by (simp add: ctrl_ok_def)
    then show ?thesis unfolding settle_def p(1) option.case
      using p PWritten by (intro same keep) (auto simp: holds_key_def)
  next
    case PReplace
    then have p: "np = Some PFinish" "io' = submit_locked (sr_now e) (j_path (w_job w), Replace) io"
      using adv by (auto simp: advance_def Let_def)
    have inv': "pipe_inv n io'" unfolding p(2) by (rule pipe_inv_submit_locked [OF inv])
    have "ctrl_ok io' (w\<lparr>w_phase := PFinish\<rparr>)" by (simp add: ctrl_ok_def)
    then show ?thesis unfolding settle_def p(1) option.case
      using pipe_inv_phase [OF inv', of ws w vs PFinish] ws p(2) PReplace by (simp add: holds_key_def)
  next
    case PFinish
    then have p: "np = (if j_kind (w_job w) = Populate then Some PUnpersist else None)"
      "io' = io\<lparr>io_known := AList.delete (worker_key w) (io_known io)\<rparr>"
      using adv by (auto simp: advance_def Let_def worker_key_def)
    show ?thesis unfolding p by (rule pipe_inv_finish [OF inv ws PFinish])
  next
    case PUnpersist
    then have p: "np = None" "io' = io\<lparr>io_db := remove_deferred (j_path (w_job w)) (io_db io)\<rparr>"
      using adv by (auto simp: advance_def Let_def)
    show ?thesis unfolding p by (rule pipe_inv_unpersist [OF inv ws PUnpersist])
  qed
qed

lemma rehydrate_spec:
  "dom (map_of known) = job_key ` set queue \<Longrightarrow> distinct (map job_key queue) \<Longrightarrow>
   foldl rehydrate_one (known, queue) rows = (known', queue') \<Longrightarrow>
   dom (map_of known') = job_key ` set queue' \<and> distinct (map job_key queue')"
proof (induction rows arbitrary: known queue)
  case Nil
  then show ?case by simp
next
  case (Cons row rows)
  obtain k p ts where row: "row = (k, p, ts)" by (cases row)
  show ?case
  proof (cases "map_of known (p, Populate)")
    case None
    then have "(p, Populate) \<notin> job_key ` set queue" using Cons.prems(1) None by (metis domIff)
    then show ?thesis
      using Cons.prems None
      by (intro Cons.IH [of "AList.update (p, Populate) None known" "queue @ [\<lparr>j_path = p, j_kind = Populate, j_ts = ts\<rparr>]"])
        (auto simp: rehydrate_one_def row dom_update job_key_def)
  next
    case (Some c)
    then show ?thesis using Cons by (simp add: rehydrate_one_def row)
  qed
qed

lemma pipe_inv_spawn: "pipe_inv n (spawn n ttl now d db)"
proof -
  obtain known queue where r: "foldl rehydrate_one ([], []) (load_deferred now ttl db) = (known, queue)"
    by (metis prod.collapse)
  have "dom (map_of known) = job_key ` set queue \<and> distinct (map job_key queue)"
    by (rule rehydrate_spec [OF _ _ r]) simp_all
  then show ?thesis by (simp add: spawn_def r pipe_inv_def active_keys_def waiting_jobs_def)
qed

lemma pipe_inv_step: "io_step cm io io' \<Longrightarrow> pipe_inv n io \<Longrightarrow> pipe_inv n io'"
proof (induction rule: io_step.induct)
  case (st_check io key)
  then show ?case by (auto simp: submit_check_def pipe_inv_cong [of "io\<lparr>io_submitting := x\<rparr>" io for x])
next
  case (st_commit key io now)
  then show ?case unfolding submit_commit_def
    by (intro pipe_inv_submit_locked) (simp add: pipe_inv_cong [of "io\<lparr>io_submitting := x\<rparr>" io for x])
next
  case (st_abort io rel)
  then show ?case using pipe_inv_cong [of "mark_abort rel io" io n] by simp
next
  case (st_expire io now ttl)
  then show ?case by (rule pipe_inv_expire)
next
  case (st_unpersist io)
  then show ?case using pipe_inv_cong [of "unpersist_expired io" io n]
    by (simp add: unpersist_expired_def split: list.splits)
next
  case (st_pop io allowed)
  then show ?case by (intro pipe_inv_pop)
next
  case (st_acquire io)
  then show ?case by (rule pipe_inv_acquire)
next
  case (st_work io ws w vs e np io')
  then show ?case by (intro pipe_inv_work)
next
  case (st_other io db d)
  then show ?case using pipe_inv_cong [of "io\<lparr>io_disk := d, io_db := db\<rparr>" io n] by simp
qed

lemma pipe_inv_reachable: "io_reachable cm n io \<Longrightarrow> pipe_inv n io"
  by (induction rule: io_reachable.induct) (auto intro: pipe_inv_spawn pipe_inv_step)

section \<open>Properties\<close>

text \<open>C3. In every interleaving of submissions, dispatch, workers, aborts and expiry: a path and kind
  is in the pipeline at most once, from the queue to the end of its worker, \<open>known\<close> lists exactly what
  is in the pipeline (so nothing is forgotten or blocked for ever), and copies in flight and free
  permits add up to the configured number.\<close>

theorem pipeline_exclusive:
  assumes "io_reachable cm max_copies io"
  shows "distinct (active_keys io) \<and> dom (map_of (io_known io)) = set (active_keys io) \<and>
    length (filter is_copy (io_workers io)) + io_permits io = max_copies"
  using pipe_inv_reachable [OF assms] by (auto simp: pipe_inv_def)

text \<open>The handle of a worker whose copy is in flight.\<close>

definition handle_of :: "worker \<Rightarrow> nat option" where
  "handle_of w = (case w_phase w of PPromoted c \<Rightarrow> Some c | PCopying c \<Rightarrow> Some c | PWritten c _ \<Rightarrow> Some c | _ \<Rightarrow> None)"

lemma nth_update_True: "c < length xs \<Longrightarrow> xs ! c \<or> i = c \<Longrightarrow> xs[i := True] ! c"
  by (cases "i = c") auto

lemma mark_abort_sets:
  assumes "map_of (io_known io) (rel, kd) = Some (Some c)" and "kd \<noteq> Validate" and "c < length (io_ctrls io)"
  shows "io_ctrls (mark_abort rel io) ! c"
proof (cases kd)
  case Populate
  with assms show ?thesis
    by (auto simp: mark_abort_def abort_flag_def intro!: nth_update_True split: option.splits)
next
  case Replace
  with assms show ?thesis by (auto simp: mark_abort_def abort_flag_def split: option.splits)
qed (use assms(2) in simp)

lemma abort_flag_stays: "c < length (io_ctrls io) \<Longrightarrow> io_ctrls io ! c \<Longrightarrow> io_ctrls (abort_flag key io) ! c"
  by (auto simp: abort_flag_def intro!: nth_update_True split: option.splits)

lemma ctrls_advance:
  "advance e cm w io = (np, io') \<Longrightarrow> \<exists>xs. io_ctrls io' = io_ctrls io @ xs"
  by (auto simp: advance_def Let_def apfst_def map_prod_def promote_def validate_run_def submit_locked_def
      split: phase.splits prod.splits sum.splits stale_result.splits if_splits)

lemma flag_step:
  "io_step cm io io' \<Longrightarrow> c < length (io_ctrls io) \<and> io_ctrls io ! c \<Longrightarrow> c < length (io_ctrls io') \<and> io_ctrls io' ! c"
proof (induction rule: io_step.induct)
  case (st_abort io rel)
  then show ?case by (simp add: mark_abort_def abort_flag_stays)
next
  case (st_work io ws w vs e np io')
  then obtain xs where "io_ctrls io' = io_ctrls io @ xs" using ctrls_advance by blast
  then show ?case using st_work by (auto simp: settle_def nth_append split: option.splits)
qed (auto simp: submit_check_def submit_commit_def submit_locked_def expire_stale_def unpersist_expired_def
    dispatch_pop_def acquire_permit_def split: prod.splits list.splits option.splits)

lemma flag_steps:
  "(io_step cm)\<^sup>*\<^sup>* io io' \<Longrightarrow> c < length (io_ctrls io) \<and> io_ctrls io ! c \<Longrightarrow> io_ctrls io' ! c"
proof -
  assume "(io_step cm)\<^sup>*\<^sup>* io io'" and "c < length (io_ctrls io) \<and> io_ctrls io ! c"
  then have "c < length (io_ctrls io') \<and> io_ctrls io' ! c"
    by (induction rule: rtranclp_induct) (auto dest: flag_step)
  then show ?thesis by simp
qed


lemma remove_first_None: "remove_first P q = None \<longleftrightarrow> (\<forall>j \<in> set q. \<not> P j)"
  by (induction q) auto

lemma remove_first_split:
  "remove_first P q = Some (j, q') \<Longrightarrow> \<exists>as bs. q = as @ j # bs \<and> q' = as @ bs \<and> P j \<and> (\<forall>x \<in> set as. \<not> P x)"
proof (induction q arbitrary: q')
  case Nil
  then show ?case by simp
next
  case (Cons x xs)
  show ?case
  proof (cases "P x")
    case True
    with Cons.prems show ?thesis by (intro exI [of _ "[]"] exI [of _ xs]) auto
  next
    case False
    then obtain ys where "remove_first P xs = Some (j, ys)" "q' = x # ys" using Cons.prems by auto
    with Cons.IH obtain as bs where "xs = as @ j # bs" "ys = as @ bs" "P j" "\<forall>x \<in> set as. \<not> P x" by blast
    with False \<open>q' = x # ys\<close> show ?thesis by (intro exI [of _ "x # as"] exI [of _ bs]) auto
  qed
qed


lemma sorted_takeWhile_filter:
  "sorted (map f q) \<Longrightarrow> dropWhile (\<lambda>j. f j < (x :: nat)) q = filter (\<lambda>j. x \<le> f j) q \<and>
     takeWhile (\<lambda>j. f j < x) q = filter (\<lambda>j. f j < x) q"
proof (induction q)
  case Nil
  then show ?case by simp
next
  case (Cons j q)
  have "filter (\<lambda>j. x \<le> f j) q = q" "filter (\<lambda>j. f j < x) q = []" if "\<not> f j < x"
    using Cons.prems that by (auto simp: filter_id_conv filter_empty_conv)
  with Cons show ?case by auto
qed

text \<open>Expiry takes exactly the jobs past their time to live out of a queue that is in submission
  order, keeps the order of the rest, releases their keys, and schedules the removal of the deferred
  rows of the expired populate jobs.\<close>

theorem expire_stale_spec:
  assumes "sorted (map j_ts (io_queue io))" and "0 < ttl" and "ttl * 60 < 2 ^ 64"
  shows "io_queue (expire_stale now ttl io) = filter (\<lambda>j. now - ttl * 60 \<le> j_ts j) (io_queue io) \<and>
    map_of (io_known (expire_stale now ttl io)) key =
      (if key \<in> job_key ` {j \<in> set (io_queue io). j_ts j < now - ttl * 60} then None else map_of (io_known io) key) \<and>
    io_removals (expire_stale now ttl io) = io_removals io @
      map j_path (filter (\<lambda>j. j_kind j = Populate \<and> j_ts j < now - ttl * 60) (io_queue io))"
proof -
  have "mul64 ttl 60 = ttl * 60" using assms(3) by (rule mul64_small)
  then show ?thesis
    using assms(2) sorted_takeWhile_filter [OF assms(1), of "now - ttl * 60"]
    by (simp add: expire_stale_def expire_loop_spec map_of_fold_delete conj_commute)
qed

lemma rehydrate_queues:
  "foldl rehydrate_one (known, queue) rows = (known', queue') \<Longrightarrow>
   dom (map_of known) \<subseteq> job_key ` set queue \<Longrightarrow> (k, p, ts) \<in> set rows \<Longrightarrow>
   \<exists>j \<in> set queue'. job_key j = (p, Populate)"
proof (induction rows arbitrary: known queue)
  case Nil
  then show ?case by simp
next
  case (Cons row rows)
  obtain known1 queue1 where step: "rehydrate_one (known, queue) row = (known1, queue1)" by (metis prod.collapse)
  have dom: "dom (map_of known1) \<subseteq> job_key ` set queue1"
  proof (cases row)
    case (fields k' p' ts')
    show ?thesis
    proof (cases "map_of known (p', Populate)")
      case None
      with step fields have "known1 = AList.update (p', Populate) None known"
        "job_key ` set queue1 = insert (p', Populate) (job_key ` set queue)"
        by (auto simp: rehydrate_one_def job_key_def)
      then show ?thesis using Cons.prems(2) by (simp only: dom_update) blast
    next
      case (Some c)
      with step fields Cons.prems(2) show ?thesis by (simp add: rehydrate_one_def)
    qed
  qed
  have "\<exists>j \<in> set queue1. job_key j = (p, Populate)" if "row = (k, p, ts)"
  proof (cases "map_of known (p, Populate)")
    case None
    with step that show ?thesis by (auto simp: rehydrate_one_def job_key_def)
  next
    case (Some c)
    then have "(p, Populate) \<in> job_key ` set queue" using Cons.prems(2) by blast
    with step that Some show ?thesis by (auto simp: rehydrate_one_def)
  qed
  moreover have keep: "\<exists>j \<in> set queue'. job_key j = key" if "\<exists>j \<in> set queue1. job_key j = key" for key
  proof -
    have "set q1 \<subseteq> set q2" if "foldl rehydrate_one (k1, q1) rs = (k2, q2)" for k1 q1 k2 q2 rs
      using that
    proof (induction rs arbitrary: k1 q1)
      case (Cons r rs)
      obtain k3 q3 where "rehydrate_one (k1, q1) r = (k3, q3)" by (metis prod.collapse)
      moreover from this have "set q1 \<subseteq> set q3"
        by (auto simp: rehydrate_one_def split: prod.splits if_splits)
      ultimately show ?case using Cons.IH [of k3 q3] Cons.prems by auto
    qed simp
    with that Cons.prems(1) step show ?thesis by (metis foldl_Cons subsetD)
  qed
  ultimately show ?case
    using Cons.IH [OF _ dom] Cons.prems(1,3) step by (cases "row = (k, p, ts)") auto
qed


section \<open>Runs\<close>

text \<open>The step of the i-th worker, for executions.\<close>

definition work_at :: "surroundings \<Rightarrow> cache_manager \<Rightarrow> nat \<Rightarrow> cache_io \<Rightarrow> cache_io" where
  "work_at e cm i io =
     (let ws = io_workers io; w = ws ! i
      in (case advance e cm w io of (np, io') \<Rightarrow> settle (take i ws) w (drop (Suc i) ws) np io'))"

lemma step_work_at: "i < length (io_workers io) \<Longrightarrow> io_step cm io (work_at e cm i io)"
  unfolding work_at_def Let_def
  by (cases "advance e cm (io_workers io ! i) io") (simp add: st_work [OF id_take_nth_drop])

definition calm :: surroundings where
  "calm = \<lparr>sr_now = 0, sr_vfs = (\<lambda>d p. Some \<lparr>f_blocks = 100, f_frsize = 1, f_bavail = 10, f_bsize = 1\<rparr>),
     sr_kernel = copy_kernel, sr_copy = sample_env\<rparr>"

definition new_file :: path where
  "new_file = [''n'']"

definition run_spawned :: cache_io where
  "run_spawned = spawn 2 5 0 sample_disk db_empty"

definition run_two_queued :: cache_io where
  "run_two_queued = submit_commit 0 (new_file, Replace) (submit_commit 0 (new_file, Populate)
     (submit_check sample_cm (new_file, Replace) (submit_check sample_cm (new_file, Populate) run_spawned)))"

definition run_two_started :: cache_io where
  "run_two_started = acquire_permit (dispatch_pop True (acquire_permit (dispatch_pop True run_two_queued)))"

definition run_two_copying :: cache_io where
  "run_two_copying = foldl (\<lambda>io i. work_at calm sample_cm i io) run_two_started [0, 1, 0, 1, 0, 1]"

lemma new_file_not_cached: "\<not> is_cached sample_cm sample_disk new_file"
  by (simp add: is_cached_def cache_path_def path_exists_def node_at_def sample_disk_def new_file_def)

lemma run_two_queued_eq: "\<exists>db. run_two_queued =
  \<lparr>io_queue = [\<lparr>j_path = new_file, j_kind = Populate, j_ts = 0\<rparr>, \<lparr>j_path = new_file, j_kind = Replace, j_ts = 0\<rparr>],
   io_known = [((new_file, Populate), None), ((new_file, Replace), None)], io_ctrls = [], io_submitting = [],
   io_waiting = None, io_workers = [], io_permits = 2, io_removals = [], io_disk = sample_disk, io_db = db\<rparr>"
  by (simp add: run_two_queued_def run_spawned_def spawn_def load_deferred_def db_empty_def submit_check_def
      submit_commit_def submit_locked_def new_file_not_cached)

lemma run_two_started_eq: "\<exists>db. run_two_started =
  \<lparr>io_queue = [], io_known = [((new_file, Populate), None), ((new_file, Replace), None)], io_ctrls = [],
   io_submitting = [], io_waiting = None,
   io_workers = [\<lparr>w_job = \<lparr>j_path = new_file, j_kind = Populate, j_ts = 0\<rparr>, w_phase = PStart\<rparr>,
     \<lparr>w_job = \<lparr>j_path = new_file, j_kind = Replace, j_ts = 0\<rparr>, w_phase = PStart\<rparr>],
   io_permits = 0, io_removals = [], io_disk = sample_disk, io_db = db\<rparr>"
proof -
  obtain db where q: "run_two_queued =
    \<lparr>io_queue = [\<lparr>j_path = new_file, j_kind = Populate, j_ts = 0\<rparr>, \<lparr>j_path = new_file, j_kind = Replace, j_ts = 0\<rparr>],
     io_known = [((new_file, Populate), None), ((new_file, Replace), None)], io_ctrls = [], io_submitting = [],
     io_waiting = None, io_workers = [], io_permits = 2, io_removals = [], io_disk = sample_disk, io_db = db\<rparr>"
    using run_two_queued_eq by blast
  show ?thesis
    by (simp add: run_two_started_def q dispatch_pop_def pop_next_job_def acquire_permit_def)
qed

lemma calm_has_room: "make_room calm sample_cm rel (d, db) = (True, d, db)"
  by (simp add: make_room_def has_free_space_def free_space_bytes_def calm_def mul64_def sample_cm_def manager_new_def)

text \<open>Populate and Replace of one path are different keys, so both can be in flight at once; they
  write the same partial file.\<close>

lemma run_two_copying_eq:
  "map w_phase (io_workers run_two_copying) = [PCopying 0, PCopying 1]"
  "map (\<lambda>w. j_path (w_job w)) (io_workers run_two_copying) = [new_file, new_file]"
proof -
  obtain db where q: "run_two_started =
    \<lparr>io_queue = [], io_known = [((new_file, Populate), None), ((new_file, Replace), None)], io_ctrls = [],
     io_submitting = [], io_waiting = None,
     io_workers = [\<lparr>w_job = \<lparr>j_path = new_file, j_kind = Populate, j_ts = 0\<rparr>, w_phase = PStart\<rparr>,
       \<lparr>w_job = \<lparr>j_path = new_file, j_kind = Replace, j_ts = 0\<rparr>, w_phase = PStart\<rparr>],
     io_permits = 0, io_removals = [], io_disk = sample_disk, io_db = db\<rparr>"
    using run_two_started_eq by blast
  show "map w_phase (io_workers run_two_copying) = [PCopying 0, PCopying 1]"
    "map (\<lambda>w. j_path (w_job w)) (io_workers run_two_copying) = [new_file, new_file]"
    by (simp_all add: run_two_copying_def q work_at_def settle_def advance_def populate_check_def promote_def
        new_file_not_cached calm_has_room job_key_def)
qed

lemma spawned_reachable: "io_reachable sample_cm 2 run_spawned"
  unfolding run_spawned_def by (rule io_reachable.spawned)

lemma two_queued_reachable: "io_reachable sample_cm 2 run_two_queued"
proof -
  let ?a = "submit_check sample_cm (new_file, Populate) run_spawned"
  let ?b = "submit_check sample_cm (new_file, Replace) ?a"
  have disk: "io_disk run_spawned = sample_disk" "io_submitting run_spawned = []"
    by (simp_all add: run_spawned_def spawn_def split: prod.split)
  have b: "io_reachable sample_cm 2 ?b"
    by (intro io_reachable.stepped [OF _ st_check] spawned_reachable)
  have sub: "io_submitting ?b = [(new_file, Populate), (new_file, Replace)]"
    by (simp add: submit_check_def disk new_file_not_cached)
  have c: "io_reachable sample_cm 2 (submit_commit 0 (new_file, Populate) ?b)"
    by (rule io_reachable.stepped [OF b st_commit]) (simp add: sub)
  have "io_submitting (submit_commit 0 (new_file, Populate) ?b) = [(new_file, Replace)]"
    by (simp add: submit_commit_def submit_locked_def sub)
  then show ?thesis unfolding run_two_queued_def
    by (intro io_reachable.stepped [OF c st_commit]) simp
qed

lemma two_started_reachable: "io_reachable sample_cm 2 run_two_started"
proof -
  obtain db where q: "run_two_queued =
    \<lparr>io_queue = [\<lparr>j_path = new_file, j_kind = Populate, j_ts = 0\<rparr>, \<lparr>j_path = new_file, j_kind = Replace, j_ts = 0\<rparr>],
     io_known = [((new_file, Populate), None), ((new_file, Replace), None)], io_ctrls = [], io_submitting = [],
     io_waiting = None, io_workers = [], io_permits = 2, io_removals = [], io_disk = sample_disk, io_db = db\<rparr>"
    using run_two_queued_eq by blast
  have a: "io_reachable sample_cm 2 (acquire_permit (dispatch_pop True run_two_queued))"
    by (intro io_reachable.stepped [OF _ st_acquire] io_reachable.stepped [OF two_queued_reachable st_pop]) (simp add: q)
  show ?thesis unfolding run_two_started_def
    by (intro io_reachable.stepped [OF _ st_acquire] io_reachable.stepped [OF a st_pop])
      (simp add: q dispatch_pop_def pop_next_job_def acquire_permit_def)
qed

fun works_ok :: "surroundings \<Rightarrow> cache_manager \<Rightarrow> nat list \<Rightarrow> cache_io \<Rightarrow> bool" where
  "works_ok e cm [] io = True"
| "works_ok e cm (i # idx) io = (i < length (io_workers io) \<and> works_ok e cm idx (work_at e cm i io))"

lemma works_reachable:
  "io_reachable cm n io \<Longrightarrow> works_ok e cm idx io \<Longrightarrow>
   io_reachable cm n (foldl (\<lambda>io i. work_at e cm i io) io idx)"
  by (induction idx arbitrary: io) (auto intro: io_reachable.stepped step_work_at)

lemma two_copying_reachable: "io_reachable sample_cm 2 run_two_copying"
proof -
  obtain db where q: "run_two_started =
    \<lparr>io_queue = [], io_known = [((new_file, Populate), None), ((new_file, Replace), None)], io_ctrls = [],
     io_submitting = [], io_waiting = None,
     io_workers = [\<lparr>w_job = \<lparr>j_path = new_file, j_kind = Populate, j_ts = 0\<rparr>, w_phase = PStart\<rparr>,
       \<lparr>w_job = \<lparr>j_path = new_file, j_kind = Replace, j_ts = 0\<rparr>, w_phase = PStart\<rparr>],
     io_permits = 0, io_removals = [], io_disk = sample_disk, io_db = db\<rparr>"
    using run_two_started_eq by blast
  have "works_ok calm sample_cm [0, 1, 0, 1, 0, 1] run_two_started"
    by (simp add: q work_at_def settle_def advance_def populate_check_def promote_def
        new_file_not_cached calm_has_room job_key_def)
  then show ?thesis unfolding run_two_copying_def by (rule works_reachable [OF two_started_reachable])
qed

theorem populate_and_replace_share_partial:
  "io_reachable sample_cm 2 run_two_copying \<and>
   map (\<lambda>w. (w_phase w, partial_path (cache_path sample_cm (j_path (w_job w))))) (io_workers run_two_copying) =
     [(PCopying 0, partial_path (cache_path sample_cm new_file)), (PCopying 1, partial_path (cache_path sample_cm new_file))]"
proof -
  obtain a b where "io_workers run_two_copying = [a, b]" "w_phase a = PCopying 0" "w_phase b = PCopying 1"
    "j_path (w_job a) = new_file" "j_path (w_job b) = new_file"
    using run_two_copying_eq by (cases "io_workers run_two_copying") (auto simp: Cons_eq_map_conv)
  with two_copying_reachable show ?thesis by simp
qed

text \<open>The deferred row of an expired job is removed after the lock is released; if the path is
  submitted again in between, the removal hits the new row, and the queued job is not persisted.\<close>

definition run_resubmitted :: cache_io where
  "run_resubmitted = unpersist_expired (submit_commit 9000 (new_file, Populate)
     (submit_check sample_cm (new_file, Populate) (expire_stale 9000 5 (submit_commit 0 (new_file, Populate)
        (submit_check sample_cm (new_file, Populate) run_spawned)))))"

theorem resubmitted_job_is_not_persisted:
  "io_reachable sample_cm 2 run_resubmitted \<and>
   map job_key (io_queue run_resubmitted) = [(new_file, Populate)] \<and>
   deferred_events (io_db run_resubmitted) = []"
proof -
  let ?s1 = "submit_check sample_cm (new_file, Populate) run_spawned"
  let ?s2 = "submit_commit 0 (new_file, Populate) ?s1"
  let ?s3 = "expire_stale 9000 5 ?s2"
  let ?s4 = "submit_check sample_cm (new_file, Populate) ?s3"
  let ?s5 = "submit_commit 9000 (new_file, Populate) ?s4"
  have sp: "run_spawned = \<lparr>io_queue = [], io_known = [], io_ctrls = [], io_submitting = [], io_waiting = None,
      io_workers = [], io_permits = 2, io_removals = [], io_disk = sample_disk, io_db = db_empty\<rparr>"
    by (simp add: run_spawned_def spawn_def load_deferred_def db_empty_def)
  have r1: "io_reachable sample_cm 2 ?s1" by (intro io_reachable.stepped [OF spawned_reachable st_check])
  have r2: "io_reachable sample_cm 2 ?s2"
    by (rule io_reachable.stepped [OF r1 st_commit]) (simp add: sp submit_check_def new_file_not_cached)
  have r4: "io_reachable sample_cm 2 ?s4"
    by (intro io_reachable.stepped [OF _ st_check] io_reachable.stepped [OF r2 st_expire])
  have s4: "?s4 = \<lparr>io_queue = [], io_known = [], io_ctrls = [], io_submitting = [(new_file, Populate)], io_waiting = None,
      io_workers = [], io_permits = 2, io_removals = [new_file], io_disk = sample_disk,
      io_db = save_deferred new_file new_file 0 db_empty\<rparr>"
    by (simp add: sp submit_check_def submit_commit_def submit_locked_def new_file_not_cached expire_stale_def
        mul64_def job_key_def)
  have r5: "io_reachable sample_cm 2 ?s5"
    by (rule io_reachable.stepped [OF r4 st_commit]) (simp add: s4)
  have "io_reachable sample_cm 2 run_resubmitted"
    unfolding run_resubmitted_def by (intro io_reachable.stepped [OF r5 st_unpersist])
  moreover have "map job_key (io_queue run_resubmitted) = [(new_file, Populate)]"
    unfolding run_resubmitted_def s4 by (simp add: submit_commit_def submit_locked_def unpersist_expired_def job_key_def)
  moreover have "deferred_events (io_db run_resubmitted) = []"
    unfolding run_resubmitted_def s4
    by (simp add: submit_commit_def submit_locked_def unpersist_expired_def remove_deferred_def save_deferred_def
        row_replace_def row_delete_def) (simp add: db_empty_def)
  ultimately show ?thesis by blast
qed

theorem pipeline_exclusive_witness:
  "distinct (active_keys run_two_copying) \<and> length (filter is_copy (io_workers run_two_copying)) + io_permits run_two_copying = 2"
  using pipeline_exclusive [OF two_copying_reachable] by blast



theorem expire_stale_spec_witness:
  "io_removals (expire_stale 9000 5 run_two_queued) = [new_file]"
proof -
  obtain db where q: "run_two_queued =
    \<lparr>io_queue = [\<lparr>j_path = new_file, j_kind = Populate, j_ts = 0\<rparr>, \<lparr>j_path = new_file, j_kind = Replace, j_ts = 0\<rparr>],
     io_known = [((new_file, Populate), None), ((new_file, Replace), None)], io_ctrls = [], io_submitting = [],
     io_waiting = None, io_workers = [], io_permits = 2, io_removals = [], io_disk = sample_disk, io_db = db\<rparr>"
    using run_two_queued_eq by blast
  show ?thesis using expire_stale_spec [of run_two_queued 5 9000 "(new_file, Populate)"] by (simp add: q)
qed


end
