(* ===== verification/Lru.thy ===== *)
theory Lru
  imports Prelude
begin

text \<open>
  The LRU cache the watcher and the discovery use. The lru crate is not part of the repository: its
  operations are the fields of a record, and what its documentation promises of a cache of a given
  capacity is the predicate \<open>lru_laws\<close>, its content being listed from the most to the least recently
  used entry.
\<close>

record ('k, 'v, 'l) lru_ops =
  l_get :: "'k \<Rightarrow> 'l \<Rightarrow> 'v option \<times> 'l"
  l_len :: "'l \<Rightarrow> nat"
  l_pop_lru :: "'l \<Rightarrow> ('k \<times> 'v) option \<times> 'l"
  l_put :: "'k \<Rightarrow> 'v \<Rightarrow> 'l \<Rightarrow> 'l"

definition lru_laws :: "nat \<Rightarrow> ('k, 'v, 'l) lru_ops \<Rightarrow> ('l \<Rightarrow> ('k \<times> 'v) list) \<Rightarrow> bool" where
  "lru_laws cap ops content =
     ((\<forall>p l. fst (l_get ops p l) = map_of (content l) p \<and>
        content (snd (l_get ops p l)) =
          (case map_of (content l) p of None \<Rightarrow> content l | Some w \<Rightarrow> (p, w) # AList.delete p (content l))) \<and>
      (\<forall>l. l_len ops l = length (content l)) \<and>
      (\<forall>l. if content l = [] then l_pop_lru ops l = (None, l)
           else fst (l_pop_lru ops l) = Some (last (content l)) \<and> content (snd (l_pop_lru ops l)) = butlast (content l)) \<and>
      (\<forall>p w l. length (content l) < cap \<longrightarrow> content (l_put ops p w l) = (p, w) # AList.delete p (content l)))"

text \<open>A list as an LRU cache, for the witnesses.\<close>

definition list_lru :: "nat \<Rightarrow> ('k, 'v, ('k \<times> 'v) list) lru_ops" where
  "list_lru cap = \<lparr>
     l_get = (\<lambda>p l. (map_of l p, case map_of l p of None \<Rightarrow> l | Some w \<Rightarrow> (p, w) # AList.delete p l)),
     l_len = length,
     l_pop_lru = (\<lambda>l. if l = [] then (None, l) else (Some (last l), butlast l)),
     l_put = (\<lambda>p w l. take cap ((p, w) # AList.delete p l))\<rparr>"

lemma list_lru_laws: "lru_laws cap (list_lru cap) (\<lambda>l. l)"
proof -
  have "length (AList.delete p l) \<le> length l" for p and l :: "('a \<times> 'b) list"
    by (simp add: AList.delete_eq)
  then have "length l < cap \<Longrightarrow> take cap ((p, w) # AList.delete p l) = (p, w) # AList.delete p l"
    for p and w and l :: "('a \<times> 'b) list"
    by (intro take_all) (metis Suc_le_eq le_less_trans length_Cons)
  then show ?thesis by (simp add: lru_laws_def list_lru_def)
qed

end
