(* ===== verification/BackingWatch.thy ===== *)
theory BackingWatch
  imports CacheIO Lru
begin

text \<open>
  The backing watcher (src/src/backing_watch.rs): which directories are watched, the debouncing of
  inotify events and their dispatch. Whether a directory opens and which descriptor inotify hands out
  are arguments; instants are in nanoseconds.
\<close>

section \<open>Severity\<close>

datatype severity = CreateOrMovedIn | Attr | Modify | Delete

fun severity_rank :: "severity \<Rightarrow> nat" where
  "severity_rank CreateOrMovedIn = 0"
| "severity_rank Attr = 1"
| "severity_rank Modify = 2"
| "severity_rank Delete = 3"

lemma severity_rank_inject: "severity_rank a = severity_rank b \<longleftrightarrow> a = b"
  by (cases a; cases b) simp_all

instantiation severity :: linorder
begin

definition less_eq_severity :: "severity \<Rightarrow> severity \<Rightarrow> bool" where
  "less_eq_severity a b = (severity_rank a \<le> severity_rank b)"

definition less_severity :: "severity \<Rightarrow> severity \<Rightarrow> bool" where
  "less_severity a b = (severity_rank a < severity_rank b)"

instance
  by standard (auto simp: less_eq_severity_def less_severity_def severity_rank_inject)

end

section \<open>State\<close>

type_synonym wd = int
type_synonym debounce_key = "nat \<times> string"

record pending_event =
  pv_deadline :: int
  pv_severity :: severity
  pv_parent_ino :: nat
  pv_parent_rel :: path

record wd_entry =
  we_rel_path :: path
  we_ino :: nat

record 'l watcher =
  wa_lru :: 'l
  wa_wd_map :: "(wd \<times> wd_entry) list"
  wa_debounce :: "(debounce_key \<times> pending_event) list"
  wa_active :: "wd list"

text \<open>\<open>wa_active\<close> is the kernel's side: the watches that inotify holds.\<close>

type_synonym 'l watch_lru = "(path, wd, 'l) lru_ops"

section \<open>Watches\<close>

definition evict_watch :: "'l watch_lru \<Rightarrow> nat \<Rightarrow> 'l watcher \<Rightarrow> 'l watcher" where
  "evict_watch ops max_dirs wa =
     (if l_len ops (wa_lru wa) \<ge> max max_dirs 1
      then (case l_pop_lru ops (wa_lru wa) of
              (None, l) \<Rightarrow> wa\<lparr>wa_lru := l\<rparr>
            | (Some (_, evicted_wd), l) \<Rightarrow>
                wa\<lparr>wa_lru := l, wa_wd_map := AList.delete evicted_wd (wa_wd_map wa),
                   wa_active := removeAll evicted_wd (wa_active wa)\<rparr>)
      else wa)"

text \<open>\<open>opened\<close>: the directory opens below the backing descriptor (the root needs no open); \<open>added\<close>: the
  descriptor inotify returns, None when it fails.\<close>

definition touch_or_add :: "'l watch_lru \<Rightarrow> nat \<Rightarrow> bool \<Rightarrow> wd option \<Rightarrow> path \<Rightarrow> nat \<Rightarrow> 'l watcher \<Rightarrow> 'l watcher" where
  "touch_or_add ops max_dirs opened added rel_path ino wa =
     (case l_get ops rel_path (wa_lru wa) of
        (Some _, l) \<Rightarrow> wa\<lparr>wa_lru := l\<rparr>
      | (None, l) \<Rightarrow>
          let wa = evict_watch ops max_dirs (wa\<lparr>wa_lru := l\<rparr>)
          in if rel_path \<noteq> [] \<and> \<not> opened then wa
             else (case added of
                     None \<Rightarrow> wa
                   | Some wd \<Rightarrow>
                       wa\<lparr>wa_lru := l_put ops rel_path wd (wa_lru wa),
                          wa_wd_map := AList.update wd \<lparr>we_rel_path = rel_path, we_ino = ino\<rparr> (wa_wd_map wa),
                          wa_active := List.insert wd (wa_active wa)\<rparr>))"

definition watcher_start :: "'l watch_lru \<Rightarrow> nat \<Rightarrow> 'l \<Rightarrow> wd option \<Rightarrow> 'l watcher" where
  "watcher_start ops max_dirs new_lru added =
     touch_or_add ops max_dirs True added [] 1
       \<lparr>wa_lru = new_lru, wa_wd_map = [], wa_debounce = [], wa_active = []\<rparr>"

section \<open>Debouncing\<close>

definition IN_MODIFY :: u32 where "IN_MODIFY = 0x2"
definition IN_ATTRIB :: u32 where "IN_ATTRIB = 0x4"
definition IN_MOVED_FROM :: u32 where "IN_MOVED_FROM = 0x40"
definition IN_DELETE :: u32 where "IN_DELETE = 0x200"

record inotify_event =
  ie_wd :: wd
  ie_mask :: u32
  ie_name :: "string option"

definition intersects :: "u32 \<Rightarrow> u32 \<Rightarrow> bool" where
  "intersects a b = (a AND b \<noteq> 0)"

definition event_severity :: "u32 \<Rightarrow> severity" where
  "event_severity m =
     (if intersects m (IN_DELETE OR IN_MOVED_FROM) then Delete
      else if intersects m IN_MODIFY then Modify
      else if intersects m IN_ATTRIB then Attr
      else CreateOrMovedIn)"

definition coalesce :: "int \<Rightarrow> int \<Rightarrow> severity \<Rightarrow> wd_entry \<Rightarrow> pending_event option \<Rightarrow> pending_event" where
  "coalesce now debounce_dur severity entry old =
     (case old of
        Some p \<Rightarrow> if severity > pv_severity p then p\<lparr>pv_severity := severity\<rparr> else p
      | None \<Rightarrow> \<lparr>pv_deadline = now + debounce_dur, pv_severity = severity,
                pv_parent_ino = we_ino entry, pv_parent_rel = we_rel_path entry\<rparr>)"

definition handle_event :: "int \<Rightarrow> int \<Rightarrow> inotify_event \<Rightarrow> 'l watcher \<Rightarrow> 'l watcher" where
  "handle_event now debounce_dur event wa =
     (case ie_name event of
        None \<Rightarrow> wa
      | Some name \<Rightarrow>
          (case map_of (wa_wd_map wa) (ie_wd event) of
             None \<Rightarrow> wa
           | Some entry \<Rightarrow>
               let key = (we_ino entry, name)
               in wa\<lparr>wa_debounce := AList.update key
                       (coalesce now debounce_dur (event_severity (ie_mask event)) entry (map_of (wa_debounce wa) key))
                       (wa_debounce wa)\<rparr>))"

text \<open>The tick: the windows past their deadline, each removed and dispatched.\<close>

definition debounce_tick :: "int \<Rightarrow> 'l watcher \<Rightarrow> (debounce_key \<times> pending_event) list \<times> 'l watcher" where
  "debounce_tick now wa =
     (let expired = filter (\<lambda>(k, p). pv_deadline p \<le> now) (wa_debounce wa)
      in (expired, wa\<lparr>wa_debounce := fold AList.delete (map fst expired) (wa_debounce wa)\<rparr>))"

section \<open>Dispatch\<close>

text \<open>What a dispatch tells the outside: the kernel entry to invalidate and the telemetry strings.\<close>

record notice =
  nt_parent_ino :: nat
  nt_name :: string
  nt_path :: path
  nt_kind :: string
  nt_action :: string

fun kind_str :: "severity \<Rightarrow> string" where
  "kind_str Delete = ''delete''"
| "kind_str Modify = ''modify''"
| "kind_str Attr = ''attr''"
| "kind_str CreateOrMovedIn = ''create''"

definition dispatch :: "cache_manager \<Rightarrow> path \<Rightarrow> nat \<Rightarrow> string \<Rightarrow> severity \<Rightarrow> cache_io \<Rightarrow> notice \<times> cache_io" where
  "dispatch cm dir_rel parent_ino name severity io =
     (let child_rel = (if dir_rel = [] then [name] else join dir_rel [name]);
          queued = is_cached cm (io_disk io) child_rel;
          io' = (if queued then submit_check cm (child_rel, Validate) (mark_abort child_rel io) else io)
      in (\<lparr>nt_parent_ino = parent_ino, nt_name = name, nt_path = child_rel, nt_kind = kind_str severity,
           nt_action = (if queued then ''kernel_notified_validation_queued'' else ''kernel_notified'')\<rparr>, io'))"

section \<open>The loop\<close>

datatype watch_input = Touch path nat bool "wd option" | Inotify int inotify_event | DebounceTick int

definition watch_step :: "'l watch_lru \<Rightarrow> nat \<Rightarrow> int \<Rightarrow> watch_input \<Rightarrow> 'l watcher \<Rightarrow> (debounce_key \<times> pending_event) list \<times> 'l watcher" where
  "watch_step ops max_dirs debounce_dur i wa =
     (case i of
        Touch rel ino opened added \<Rightarrow> ([], touch_or_add ops max_dirs opened added rel ino wa)
      | Inotify now event \<Rightarrow> ([], handle_event now debounce_dur event wa)
      | DebounceTick now \<Rightarrow> debounce_tick now wa)"

text \<open>The watcher's states: a descriptor handed out by inotify may be one already in use, as the kernel
  gives one descriptor per inode. \<open>fresh\<close> restricts the runs to those where it is not.\<close>

inductive watch_reachable :: "bool \<Rightarrow> 'l watch_lru \<Rightarrow> nat \<Rightarrow> int \<Rightarrow> 'l \<Rightarrow> 'l watcher \<Rightarrow> bool"
  for fresh ops max_dirs dur new_lru where
  started: "watch_reachable fresh ops max_dirs dur new_lru (watcher_start ops max_dirs new_lru added)"
| looped: "watch_reachable fresh ops max_dirs dur new_lru wa \<Longrightarrow>
    (\<And>rel ino opened wd. fresh \<Longrightarrow> i = Touch rel ino opened (Some wd) \<Longrightarrow> wd \<notin> set (wa_active wa)) \<Longrightarrow>
    watch_reachable fresh ops max_dirs dur new_lru (snd (watch_step ops max_dirs dur i wa))"

section \<open>The watch table\<close>

declare alist_map_of [simp]

text \<open>Two tables that are each other's inverse: the LRU gives the descriptor of a watched directory, the
  map gives the directory of a descriptor, and the kernel holds exactly these watches.\<close>

definition tables_inverse :: "(path \<times> wd) list \<Rightarrow> (wd \<times> wd_entry) list \<Rightarrow> wd list \<Rightarrow> bool" where
  "tables_inverse ps ws active =
     (distinct (map fst ps) \<and> distinct (map snd ps) \<and> set active = snd ` set ps \<and>
      (\<forall>p w. (p, w) \<in> set ps \<longleftrightarrow> (\<exists>e. map_of ws w = Some e \<and> we_rel_path e = p)))"

definition watch_inv :: "nat \<Rightarrow> ('l \<Rightarrow> (path \<times> wd) list) \<Rightarrow> 'l watcher \<Rightarrow> bool" where
  "watch_inv cap content wa =
     (length (content (wa_lru wa)) \<le> cap \<and> tables_inverse (content (wa_lru wa)) (wa_wd_map wa) (wa_active wa))"

lemma tables_inverse_cong:
  "tables_inverse ps ws active \<Longrightarrow> mset ps = mset qs \<Longrightarrow> tables_inverse qs ws active"
  unfolding tables_inverse_def
  by (metis mset_eq_imp_distinct_iff mset_eq_setD mset_map)

lemma tables_inverse_butlast:
  assumes inv: "tables_inverse (qs @ [(q, wq)]) ws active"
  shows "tables_inverse qs (AList.delete wq ws) (removeAll wq active)"
proof -
  from inv have wq: "wq \<notin> snd ` set qs" by (auto simp: tables_inverse_def)
  with inv have "set (removeAll wq active) = snd ` set qs" by (auto simp: tables_inverse_def)
  moreover have "(p, w) \<in> set qs \<longleftrightarrow> (\<exists>e. map_of (AList.delete wq ws) w = Some e \<and> we_rel_path e = p)" for p w
  proof (cases "w = wq")
    case True
    with wq show ?thesis by force
  next
    case False
    then have "(p, w) \<in> set qs \<longleftrightarrow> (p, w) \<in> set (qs @ [(q, wq)])" by simp
    also have "\<dots> \<longleftrightarrow> (\<exists>e. map_of ws w = Some e \<and> we_rel_path e = p)"
      using inv unfolding tables_inverse_def by blast
    finally show ?thesis using False by simp
  qed
  ultimately show ?thesis using inv unfolding tables_inverse_def by simp
qed

lemma tables_inverse_add:
  assumes inv: "tables_inverse ps ws active" and new: "p \<notin> fst ` set ps" and fresh: "w \<notin> set active"
  shows "tables_inverse ((p, w) # ps) (AList.update w \<lparr>we_rel_path = p, we_ino = ino\<rparr> ws) (List.insert w active)"
proof -
  from inv fresh have w: "w \<notin> snd ` set ps" by (simp add: tables_inverse_def)
  have "(q, v) \<in> set ((p, w) # ps) \<longleftrightarrow>
      (\<exists>e. map_of (AList.update w \<lparr>we_rel_path = p, we_ino = ino\<rparr> ws) v = Some e \<and> we_rel_path e = q)" for q v
  proof (cases "v = w")
    case True
    with w show ?thesis by force
  next
    case False
    then have "(q, v) \<in> set ((p, w) # ps) \<longleftrightarrow> (q, v) \<in> set ps" by simp
    also have "\<dots> \<longleftrightarrow> (\<exists>e. map_of ws v = Some e \<and> we_rel_path e = q)"
      using inv unfolding tables_inverse_def by blast
    finally show ?thesis using False by simp
  qed
  with inv new w show ?thesis unfolding tables_inverse_def by simp
qed

lemma mset_move_front: "distinct (map fst ps) \<Longrightarrow> map_of ps p = Some w \<Longrightarrow> mset ((p, w) # AList.delete p ps) = mset ps"
proof (induction ps)
  case (Cons a ps)
  show ?case
  proof (cases "fst a = p")
    case True
    with Cons.prems have "AList.delete p ps = ps" by (simp add: delete_idem)
    with True Cons.prems show ?thesis by (cases a) simp
  next
    case False
    with Cons show ?thesis by (cases a) auto
  qed
qed simp

lemma delete_absent: "map_of ps p = None \<Longrightarrow> AList.delete p ps = ps"
  by (simp add: delete_idem map_of_eq_None_iff)

lemma evict_watch_inv:
  assumes laws: "lru_laws (max max_dirs 1) ops content" and inv: "watch_inv (max max_dirs 1) content wa"
  shows "watch_inv (max max_dirs 1) content (evict_watch ops max_dirs wa) \<and>
    length (content (wa_lru (evict_watch ops max_dirs wa))) < max max_dirs 1 \<and>
    set (content (wa_lru (evict_watch ops max_dirs wa))) \<subseteq> set (content (wa_lru wa)) \<and>
    set (wa_active (evict_watch ops max_dirs wa)) \<subseteq> set (wa_active wa)"
proof (cases "l_len ops (wa_lru wa) \<ge> max max_dirs 1")
  case False
  then have "evict_watch ops max_dirs wa = wa" unfolding evict_watch_def by (rule if_not_P)
  moreover have "length (content (wa_lru wa)) < max max_dirs 1"
    using False laws unfolding lru_laws_def by (metis not_le)
  ultimately show ?thesis using inv by simp
next
  case True
  let ?c = "content (wa_lru wa)"
  from True laws have "max max_dirs 1 \<le> length ?c" by (simp add: lru_laws_def)
  then have ne: "?c \<noteq> []" by auto
  obtain q wq where last: "last ?c = (q, wq)" by fastforce
  obtain r l where pop: "l_pop_lru ops (wa_lru wa) = (r, l)" by fastforce
  from laws ne have "fst (l_pop_lru ops (wa_lru wa)) = Some (last ?c) \<and>
      content (snd (l_pop_lru ops (wa_lru wa))) = butlast ?c"
    unfolding lru_laws_def by simp
  then have r: "r = Some (q, wq)" and l: "content l = butlast ?c" using last pop by simp_all
  have split: "?c = butlast ?c @ [(q, wq)]" using ne last append_butlast_last_id by metis
  have "evict_watch ops max_dirs wa =
      wa\<lparr>wa_lru := l, wa_wd_map := AList.delete wq (wa_wd_map wa), wa_active := removeAll wq (wa_active wa)\<rparr>"
    using True pop r by (simp add: evict_watch_def)
  moreover have "tables_inverse (butlast ?c) (AList.delete wq (wa_wd_map wa)) (removeAll wq (wa_active wa))"
    using inv split by (intro tables_inverse_butlast [of _ q]) (simp add: watch_inv_def)
  moreover have "length (butlast ?c) < max max_dirs 1"
    using inv ne by (auto simp: watch_inv_def)
  ultimately show ?thesis
    using l by (auto simp: watch_inv_def dest: in_set_butlastD)
qed

lemma touch_inv:
  assumes laws: "lru_laws (max max_dirs 1) ops content" and inv: "watch_inv (max max_dirs 1) content wa"
    and fresh: "\<And>wd. added = Some wd \<Longrightarrow> wd \<notin> set (wa_active wa)"
  shows "watch_inv (max max_dirs 1) content (touch_or_add ops max_dirs opened added rel ino wa)"
proof -
  let ?c = "content (wa_lru wa)"
  obtain r l where get: "l_get ops rel (wa_lru wa) = (r, l)" by fastforce
  have "fst (l_get ops rel (wa_lru wa)) = map_of ?c rel \<and> content (snd (l_get ops rel (wa_lru wa))) =
      (case map_of ?c rel of None \<Rightarrow> ?c | Some w \<Rightarrow> (rel, w) # AList.delete rel ?c)"
    using laws unfolding lru_laws_def by blast
  then have r: "r = map_of ?c rel" and l: "content l = (case map_of ?c rel of None \<Rightarrow> ?c | Some w \<Rightarrow> (rel, w) # AList.delete rel ?c)"
    using get by simp_all
  show ?thesis
  proof (cases "map_of ?c rel")
    case (Some w)
    from inv have "distinct (map fst ?c)" by (simp add: watch_inv_def tables_inverse_def)
    then have m: "mset (content l) = mset ?c" using Some l mset_move_front by fastforce
    then have "length (content l) = length ?c" by (metis size_mset)
    with m inv have "watch_inv (max max_dirs 1) content (wa\<lparr>wa_lru := l\<rparr>)"
      using tables_inverse_cong [OF _ m [symmetric]] by (simp add: watch_inv_def)
    with Some r get show ?thesis by (simp add: touch_or_add_def)
  next
    case None
    let ?wb = "evict_watch ops max_dirs (wa\<lparr>wa_lru := l\<rparr>)"
    have same: "watch_inv (max max_dirs 1) content (wa\<lparr>wa_lru := l\<rparr>)"
      using inv None l by (simp add: watch_inv_def)
    note ev = evict_watch_inv [OF laws same]
    have absent: "map_of (content (wa_lru ?wb)) rel = None"
      using ev None l by (auto simp: map_of_eq_None_iff)
    have put: "watch_inv (max max_dirs 1) content
        (?wb\<lparr>wa_lru := l_put ops rel wd (wa_lru ?wb),
             wa_wd_map := AList.update wd \<lparr>we_rel_path = rel, we_ino = ino\<rparr> (wa_wd_map ?wb),
             wa_active := List.insert wd (wa_active ?wb)\<rparr>)" if wd: "added = Some wd" for wd
    proof -
      have "content (l_put ops rel wd (wa_lru ?wb)) = (rel, wd) # content (wa_lru ?wb)"
        using laws ev delete_absent [OF absent] by (simp add: lru_laws_def)
      moreover have "wd \<notin> set (wa_active ?wb)" using fresh [OF wd] ev by auto
      ultimately show ?thesis
        using ev tables_inverse_add [of _ _ "wa_active ?wb" rel wd ino] absent
        by (simp add: watch_inv_def map_of_eq_None_iff)
    qed
    show ?thesis
    proof (cases added)
      case None
      with ev \<open>map_of ?c rel = None\<close> r get show ?thesis by (simp add: touch_or_add_def Let_def)
    next
      case (Some wd)
      with ev put [OF Some] \<open>map_of ?c rel = None\<close> r get show ?thesis
        by (cases "rel \<noteq> [] \<and> \<not> opened") (simp_all only: touch_or_add_def Let_def prod.case option.case if_True if_False simp_thms)
    qed
  qed
qed

lemma watch_inv_frame:
  "watch_inv cap content (wa\<lparr>wa_debounce := d\<rparr>) = watch_inv cap content wa"
  by (simp add: watch_inv_def)

lemma handle_event_inv: "watch_inv cap content (handle_event now dur event wa) = watch_inv cap content wa"
  by (simp add: handle_event_def Let_def watch_inv_frame split: option.splits)


section \<open>Debounced events\<close>

text \<open>The events that concern a name of a watched directory, with their time, severity and watch entry.\<close>

definition arrival :: "(wd \<times> wd_entry) list \<Rightarrow> debounce_key \<Rightarrow> int \<times> inotify_event \<Rightarrow> (int \<times> severity \<times> wd_entry) option" where
  "arrival ws key te =
     (case ie_name (snd te) of
        None \<Rightarrow> None
      | Some name \<Rightarrow>
          (case map_of ws (ie_wd (snd te)) of
             None \<Rightarrow> None
           | Some entry \<Rightarrow>
               if (we_ino entry, name) = key then Some (fst te, event_severity (ie_mask (snd te)), entry) else None))"

definition receive_all :: "int \<Rightarrow> (int \<times> inotify_event) list \<Rightarrow> 'l watcher \<Rightarrow> 'l watcher" where
  "receive_all dur tes wa = foldl (\<lambda>wa te. handle_event (fst te) dur (snd te) wa) wa tes"

lemma handle_event_lookup:
  "map_of (wa_debounce (handle_event now dur event wa)) key =
     (case arrival (wa_wd_map wa) key (now, event) of
        None \<Rightarrow> map_of (wa_debounce wa) key
      | Some (t, sev, entry) \<Rightarrow> Some (coalesce t dur sev entry (map_of (wa_debounce wa) key)))"
  by (auto simp: handle_event_def arrival_def Let_def split: option.splits)

lemma handle_event_wd_map [simp]: "wa_wd_map (handle_event now dur event wa) = wa_wd_map wa"
  by (simp add: handle_event_def Let_def split: option.splits)

lemma coalesce_max: "coalesce t dur sev entry (Some p) = p\<lparr>pv_severity := max (pv_severity p) sev\<rparr>"
  by (auto simp: coalesce_def max_def)

lemma coalesce_new: "coalesce t dur sev entry None =
    \<lparr>pv_deadline = t + dur, pv_severity = sev, pv_parent_ino = we_ino entry, pv_parent_rel = we_rel_path entry\<rparr>"
  by (simp add: coalesce_def)

lemma receive_all_lookup:
  "map_of (wa_debounce (receive_all dur tes wa)) key =
     fold (\<lambda>(t, sev, entry) old. Some (coalesce t dur sev entry old))
       (List.map_filter (arrival (wa_wd_map wa) key) tes) (map_of (wa_debounce wa) key)"
proof (induction tes arbitrary: wa)
  case Nil
  then show ?case by (simp add: receive_all_def List.map_filter_simps)
next
  case (Cons te tes)
  have "map_of (wa_debounce (receive_all dur (te # tes) wa)) key =
      map_of (wa_debounce (receive_all dur tes (handle_event (fst te) dur (snd te) wa))) key"
    by (simp add: receive_all_def)
  also have "\<dots> = fold (\<lambda>(t, sev, entry) old. Some (coalesce t dur sev entry old))
       (List.map_filter (arrival (wa_wd_map wa) key) tes)
       (map_of (wa_debounce (handle_event (fst te) dur (snd te) wa)) key)"
    by (simp add: Cons.IH)
  also have "\<dots> = fold (\<lambda>(t, sev, entry) old. Some (coalesce t dur sev entry old))
       (List.map_filter (arrival (wa_wd_map wa) key) (te # tes)) (map_of (wa_debounce wa) key)"
    by (simp add: handle_event_lookup List.map_filter_simps split: option.splits prod.splits)
  finally show ?case .
qed

lemma coalesce_all:
  "fold (\<lambda>(t, sev, entry) old. Some (coalesce t dur sev entry old)) xs (Some p) =
     Some (p\<lparr>pv_severity := fold max (map (fst \<circ> snd) xs) (pv_severity p)\<rparr>)"
proof (induction xs arbitrary: p)
  case (Cons x xs)
  then show ?case
    by (cases x) (simp add: coalesce_max max.commute)
qed simp

lemma filter_of_key:
  "distinct (map fst m) \<Longrightarrow> map_of m key = Some p \<Longrightarrow>
   filter (\<lambda>(k, p). k = key) (filter (\<lambda>(k, p). P p) m) = (if P p then [(key, p)] else [])"
proof (induction m)
  case (Cons a m)
  show ?case
  proof (cases "fst a = key")
    case True
    with Cons.prems have "filter (\<lambda>(k, p). k = key) (filter (\<lambda>(k, p). P p) m) = []"
      by (auto simp: filter_empty_conv image_iff)
    with True Cons.prems show ?thesis by (cases a) auto
  next
    case False
    with Cons show ?thesis by (cases a) auto
  qed
qed simp

lemma handle_event_distinct:
  "distinct (map fst (wa_debounce wa)) \<Longrightarrow> distinct (map fst (wa_debounce (handle_event now dur event wa)))"
  by (auto simp: handle_event_def Let_def intro: distinct_update split: option.splits)

lemma receive_all_distinct:
  "distinct (map fst (wa_debounce wa)) \<Longrightarrow> distinct (map fst (wa_debounce (receive_all dur tes wa)))"
  unfolding receive_all_def by (induction tes arbitrary: wa) (simp_all add: handle_event_distinct)

lemma fold_max_Max: "fold max xs (x :: 'a :: linorder) = Max (set (x # xs))"
  by (simp only: Max.set_eq_fold fold_simps)

text \<open>C16. Debouncing: the events a name receives within one window are delivered as one, with the highest
  severity among them, at the first tick after a fixed delay from the first of them, for the directory
  that first event was attributed to; later events do not postpone it, events of other names do not
  affect it, and once delivered it is gone.\<close>

theorem debounce_coalesces:
  assumes "map_of (wa_debounce wa) key = None" and "distinct (map fst (wa_debounce wa))"
    and "List.map_filter (arrival (wa_wd_map wa) key) tes = (t, sev, entry) # later"
    and "debounce_tick now (receive_all dur tes wa) = (delivered, wa')"
  shows "(if t + dur \<le> now
     then filter (\<lambda>(k, p). k = key) delivered =
            [(key, \<lparr>pv_deadline = t + dur, pv_severity = Max (insert sev (set (map (fst \<circ> snd) later))),
                    pv_parent_ino = we_ino entry, pv_parent_rel = we_rel_path entry\<rparr>)] \<and>
          map_of (wa_debounce wa') key = None
     else filter (\<lambda>(k, p). k = key) delivered = [] \<and> map_of (wa_debounce wa') key \<noteq> None)"
proof -
  let ?p = "\<lparr>pv_deadline = t + dur, pv_severity = Max (insert sev (set (map (fst \<circ> snd) later))),
    pv_parent_ino = we_ino entry, pv_parent_rel = we_rel_path entry\<rparr>"
  let ?d = "wa_debounce (receive_all dur tes wa)"
  have look: "map_of ?d key = Some ?p"
    using assms(1,3) by (simp add: receive_all_lookup coalesce_new coalesce_all fold_max_Max del: map_map)
  have dist: "distinct (map fst ?d)"
    using assms(2) by (rule receive_all_distinct)
  have only: "filter (\<lambda>(k, p). k = key) (filter (\<lambda>(k, p). P p) ?d) = (if P ?p then [(key, ?p)] else [])" for P
    by (rule filter_of_key [OF dist look])
  have delivered: "delivered = filter (\<lambda>(k, p). pv_deadline p \<le> now) ?d"
    and wa': "wa_debounce wa' = fold AList.delete (map fst delivered) ?d"
    using assms(4) by (auto simp: debounce_tick_def Let_def)
  have gone: "map_of (wa_debounce wa') key = (if key \<in> fst ` set delivered then None else Some ?p)"
    unfolding wa' by (simp add: map_of_fold_delete look)
  have "key \<in> fst ` set delivered \<longleftrightarrow> filter (\<lambda>(k, p). k = key) delivered \<noteq> []"
    by (force simp: filter_empty_conv)
  with gone only [of "\<lambda>p. pv_deadline p \<le> now"] show ?thesis
    unfolding delivered by (auto split: if_splits)
qed

section \<open>Dispatched events\<close>

lemma mark_abort_step: "io_step cm io (mark_abort rel io)"
  by (rule st_abort)

lemma dispatch_reachable:
  "io_reachable cm n io \<Longrightarrow> io_reachable cm n (snd (dispatch cm dir ino name sev io))"
  by (auto simp: dispatch_def Let_def intro: stepped st_abort st_check)

text \<open>What a delivered event does to the cache: when the changed file is in the cache, every copy of
  it in flight has its abort flag set and one validation of it is on its way into the queue; when it
  is not, the pipeline is left as it is, so that a first copy in flight goes on (it has to notice the
  change itself before it commits).\<close>

theorem watch_dispatch_spec:
  assumes "io_reachable cm n io" and "w \<in> set (io_workers io)" and "handle_of w = Some c"
    and "j_path (w_job w) = join dir [name]"
  shows "if is_cached cm (io_disk io) (join dir [name])
    then io_ctrls (snd (dispatch cm dir ino name sev io)) ! c \<and>
         io_submitting (snd (dispatch cm dir ino name sev io)) = io_submitting io @ [(join dir [name], Validate)]
    else snd (dispatch cm dir ino name sev io) = io"
proof -
  have "ctrl_ok io w" using pipe_inv_reachable [OF assms(1)] assms(2) by (simp add: pipe_inv_def)
  then have c: "c < length (io_ctrls io)" "is_copy w" "map_of (io_known io) (worker_key w) = Some (Some c)"
    using assms(3) by (auto simp: ctrl_ok_def handle_of_def split: phase.splits)
  then have "io_ctrls (mark_abort (join dir [name]) io) ! c"
    using mark_abort_sets [of io "join dir [name]" "j_kind (w_job w)" c] assms(4)
    by (simp add: worker_key_def job_key_def is_copy_def)
  moreover have "io_submitting (mark_abort rel io) = io_submitting io" for rel
    by (simp add: mark_abort_def abort_flag_def split: option.splits)
  moreover have "(if dir = [] then [name] else join dir [name]) = join dir [name]" by simp
  ultimately show ?thesis by (simp only: dispatch_def Let_def submit_check_def) simp
qed

section \<open>Samples\<close>

definition watch_two :: "(path \<times> wd) list watcher" where
  "watch_two = snd (watch_step (list_lru 2) 2 500 (Touch [''tv''] 7 True (Some 2))
     (watcher_start (list_lru 2) 2 [] (Some 1)))"

lemma watch_two_eq: "watch_two =
  \<lparr>wa_lru = [([''tv''], 2), ([], 1)],
   wa_wd_map = [(1, \<lparr>we_rel_path = [], we_ino = 1\<rparr>), (2, \<lparr>we_rel_path = [''tv''], we_ino = 7\<rparr>)],
   wa_debounce = [], wa_active = [2, 1]\<rparr>"
  by (simp add: watch_two_def watch_step_def watcher_start_def touch_or_add_def evict_watch_def list_lru_def)

lemma watch_two_reachable: "watch_reachable True (list_lru 2) 2 500 [] watch_two"
  unfolding watch_two_def
  by (rule looped [OF started])
    (simp add: watcher_start_def touch_or_add_def evict_watch_def list_lru_def)


definition two_events :: "(int \<times> inotify_event) list" where
  "two_events = [(100, \<lparr>ie_wd = 2, ie_mask = 0x100, ie_name = Some ''a.mkv''\<rparr>),
     (300, \<lparr>ie_wd = 2, ie_mask = 0x2, ie_name = Some ''a.mkv''\<rparr>)]"

theorem debounce_coalesces_witness:
  "filter (\<lambda>(k, p). k = (7, ''a.mkv'')) (fst (debounce_tick 600 (receive_all 500 two_events watch_two))) =
     [((7, ''a.mkv''), \<lparr>pv_deadline = 600, pv_severity = Modify, pv_parent_ino = 7, pv_parent_rel = [''tv'']\<rparr>)]"
proof -
  have "List.map_filter (arrival (wa_wd_map watch_two) (7, ''a.mkv'')) two_events =
    [(100, CreateOrMovedIn, \<lparr>we_rel_path = [''tv''], we_ino = 7\<rparr>), (300, Modify, \<lparr>we_rel_path = [''tv''], we_ino = 7\<rparr>)]"
    by (simp add: two_events_def watch_two_eq arrival_def event_severity_def intersects_def IN_DELETE_def
        IN_MOVED_FROM_def IN_MODIFY_def IN_ATTRIB_def List.map_filter_simps)
  from debounce_coalesces [OF _ _ this, of 600 500]
  show ?thesis
    by (cases "debounce_tick 600 (receive_all 500 two_events watch_two)")
      (simp add: watch_two_eq less_eq_severity_def max_def)
qed

text \<open>
  Without the freshness assumption the tables part: inotify gives one descriptor per inode, so a
  renamed directory comes back under its new name with the descriptor of the old one. Evicting the old
  name then removes the watch of the new name, which stays in the LRU, so that touching it again does
  not restore the watch.
\<close>

definition watch_renamed :: "(path \<times> wd) list watcher" where
  "watch_renamed = snd (watch_step (list_lru 2) 2 500 (Touch [''x''] 9 True (Some 3))
     (snd (watch_step (list_lru 2) 2 500 (Touch [''renamed''] 7 True (Some 2)) watch_two)))"

lemma watch_renamed_eq: "watch_renamed =
  \<lparr>wa_lru = [([''x''], 3), ([''renamed''], 2)], wa_wd_map = [(3, \<lparr>we_rel_path = [''x''], we_ino = 9\<rparr>)],
   wa_debounce = [], wa_active = [3]\<rparr>"
  by (simp add: watch_renamed_def watch_two_eq watch_step_def touch_or_add_def evict_watch_def list_lru_def)

lemma watch_reachable_any: "watch_reachable True ops n dur l wa \<Longrightarrow> watch_reachable False ops n dur l wa"
  by (induction rule: watch_reachable.induct) (auto intro: watch_reachable.intros)

theorem shared_descriptor_loses_watch:
  "watch_reachable False (list_lru 2) 2 500 [] watch_renamed \<and>
   ([''renamed''], 2) \<in> set (wa_lru watch_renamed) \<and> 2 \<notin> set (wa_active watch_renamed) \<and>
   wa_active (touch_or_add (list_lru 2) 2 True (Some 5) [''renamed''] 7 watch_renamed) = [3]"
proof -
  have "watch_reachable False (list_lru 2) 2 500 [] watch_renamed"
    unfolding watch_renamed_def
    by (rule looped, rule looped, rule watch_reachable_any [OF watch_two_reachable]) simp_all
  then show ?thesis
    by (simp add: watch_renamed_eq touch_or_add_def list_lru_def)
qed

lemma two_copying_disk: "io_disk run_two_copying = sample_disk"
proof -
  obtain db where q: "run_two_started =
    \<lparr>io_queue = [], io_known = [((new_file, Populate), None), ((new_file, Replace), None)], io_ctrls = [],
     io_submitting = [], io_waiting = None,
     io_workers = [\<lparr>w_job = \<lparr>j_path = new_file, j_kind = Populate, j_ts = 0\<rparr>, w_phase = PStart\<rparr>,
       \<lparr>w_job = \<lparr>j_path = new_file, j_kind = Replace, j_ts = 0\<rparr>, w_phase = PStart\<rparr>],
     io_permits = 0, io_removals = [], io_disk = sample_disk, io_db = db\<rparr>"
    using run_two_started_eq by blast
  show ?thesis
    by (simp add: run_two_copying_def q work_at_def settle_def advance_def populate_check_def promote_def
        new_file_not_cached calm_has_room job_key_def)
qed

theorem watch_dispatch_spec_witness:
  "snd (dispatch sample_cm [] 1 ''n'' Modify run_two_copying) = run_two_copying"
proof -
  obtain a b where w: "io_workers run_two_copying = [a, b]" "w_phase a = PCopying 0" "j_path (w_job a) = new_file"
    using run_two_copying_eq by (cases "io_workers run_two_copying") (auto simp: Cons_eq_map_conv)
  then have "a \<in> set (io_workers run_two_copying)" "handle_of a = Some 0" "j_path (w_job a) = join [] [''n'']"
    by (simp_all add: handle_of_def new_file_def)
  from watch_dispatch_spec [OF two_copying_reachable this, of 1 Modify] new_file_not_cached
  show ?thesis by (simp add: two_copying_disk new_file_def)
qed

end
