(* ===== verification/Syscalls.thy ===== *)
theory Syscalls
  imports BackingStore "HOL-Library.State_Monad"
begin

text \<open>
  The backing store (src/src/backing_store.rs) as the FUSE handlers use it: each method is one system
  call, or a few, relative to the O_PATH descriptor. The kernel is a machine \<open>sys\<close> that answers calls and
  changes its own state \<open>'k\<close>; nothing is assumed of it here. Methods are actions of the state monad
  over the kernel, failing calls give the errno.
\<close>

section \<open>Calls and answers\<close>

type_synonym bytes = "u8 list"
type_synonym timespec = "int \<times> int"

record statfs_answer =
  sf_blocks :: nat
  sf_bfree :: nat
  sf_bavail :: nat
  sf_files :: nat
  sf_ffree :: nat
  sf_bsize :: nat
  sf_namemax :: nat
  sf_frsize :: nat

datatype syscall =
    Fstatat path | Openat path u32 u32 | OpenAbs path | Mkdirat path u32 | Unlinkat path | Rmdirat path
  | Renameat path path u32 | Linkat path path | Symlinkat string path | Mknodat path u32 u32
  | Fchmodat path u32 | Fchownat path u32 u32 | Fchown fd u32 u32 | Ftruncate fd int
  | Utimensat path timespec timespec | Closefd fd | Pread fd nat int | Pwrite fd bytes int | Writefd fd bytes
  | Fsync fd | Fdatasync fd | Readlinkat path nat | Readdir fd | Fstatvfs fd
  | Lsetxattr path string bytes u32 | Lgetxattr path string nat | Llistxattr path nat | Lremovexattr path string

datatype sys_result = Failed errno | Done | GotFd fd | GotStat stat | GotCount nat | GotBytes bytes
  | GotDir "(string \<times> nat) list" | GotStatvfs statfs_answer

type_synonym 'k machine = "syscall \<Rightarrow> 'k \<Rightarrow> sys_result \<times> 'k"

definition EIO :: errno where "EIO = 5"

definition O_ACCMODE :: u32 where "O_ACCMODE = 0x3"
definition O_RDONLY :: u32 where "O_RDONLY = 0x0"
definition O_WRONLY :: u32 where "O_WRONLY = 0x1"
definition O_RDWR :: u32 where "O_RDWR = 0x2"
definition O_CREAT :: u32 where "O_CREAT = 0x40"
definition O_EXCL :: u32 where "O_EXCL = 0x80"
definition O_TRUNC :: u32 where "O_TRUNC = 0x200"
definition O_APPEND :: u32 where "O_APPEND = 0x400"
definition O_DIRECTORY :: u32 where "O_DIRECTORY = 0x10000"
definition O_CLOEXEC :: u32 where "O_CLOEXEC = 0x80000"

definition sys_call :: "'k machine \<Rightarrow> syscall \<Rightarrow> ('k, sys_result) state" where
  "sys_call sys c = State (sys c)"

text \<open>Readings of an answer. An answer of the wrong shape, which no kernel gives, counts as EIO.\<close>

definition syscall_unit :: "sys_result \<Rightarrow> errno + unit" where
  "syscall_unit r = (case r of Failed e \<Rightarrow> Inl e | _ \<Rightarrow> Inr ())"

definition got_fd :: "sys_result \<Rightarrow> errno + fd" where
  "got_fd r = (case r of GotFd n \<Rightarrow> Inr n | Failed e \<Rightarrow> Inl e | _ \<Rightarrow> Inl EIO)"

definition got_stat :: "sys_result \<Rightarrow> stat option" where
  "got_stat r = (case r of GotStat s \<Rightarrow> Some s | _ \<Rightarrow> None)"

definition got_bytes :: "sys_result \<Rightarrow> errno + bytes" where
  "got_bytes r = (case r of GotBytes bs \<Rightarrow> Inr bs | Failed e \<Rightarrow> Inl e | _ \<Rightarrow> Inl EIO)"

definition got_count :: "sys_result \<Rightarrow> errno + nat" where
  "got_count r = (case r of GotCount n \<Rightarrow> Inr n | Failed e \<Rightarrow> Inl e | _ \<Rightarrow> Inl EIO)"

definition unit_call :: "'k machine \<Rightarrow> syscall \<Rightarrow> ('k, errno + unit) state" where
  "unit_call sys c = do { r \<leftarrow> sys_call sys c; State_Monad.return (syscall_unit r) }"

section \<open>Methods\<close>

definition sys_stat :: "'k machine \<Rightarrow> path \<Rightarrow> ('k, stat option) state" where
  "sys_stat sys rel = do { r \<leftarrow> sys_call sys (Fstatat rel); State_Monad.return (got_stat r) }"

definition open_file_with_flags :: "'k machine \<Rightarrow> path \<Rightarrow> u32 \<Rightarrow> u32 \<Rightarrow> ('k, errno + fd) state" where
  "open_file_with_flags sys rel flags mode = do {
     r \<leftarrow> sys_call sys (Openat rel (flags OR O_CLOEXEC) mode);
     State_Monad.return (got_fd r) }"

definition sys_open_file :: "'k machine \<Rightarrow> path \<Rightarrow> ('k, errno + fd) state" where
  "sys_open_file sys rel = open_file_with_flags sys rel O_RDONLY 0"

definition bs_mkdir :: "'k machine \<Rightarrow> path \<Rightarrow> u32 \<Rightarrow> ('k, errno + unit) state" where
  "bs_mkdir sys rel mode = unit_call sys (Mkdirat rel mode)"

definition bs_unlink_file :: "'k machine \<Rightarrow> path \<Rightarrow> ('k, errno + unit) state" where
  "bs_unlink_file sys rel = unit_call sys (Unlinkat rel)"

definition bs_rmdir :: "'k machine \<Rightarrow> path \<Rightarrow> ('k, errno + unit) state" where
  "bs_rmdir sys rel = unit_call sys (Rmdirat rel)"

text \<open>renameat when the flags are zero, renameat2 otherwise: the same call of the machine.\<close>

definition bs_rename :: "'k machine \<Rightarrow> path \<Rightarrow> path \<Rightarrow> u32 \<Rightarrow> ('k, errno + unit) state" where
  "bs_rename sys old new flags = unit_call sys (Renameat old new flags)"

definition bs_link :: "'k machine \<Rightarrow> path \<Rightarrow> path \<Rightarrow> ('k, errno + unit) state" where
  "bs_link sys old new = unit_call sys (Linkat old new)"

definition bs_symlink :: "'k machine \<Rightarrow> string \<Rightarrow> path \<Rightarrow> ('k, errno + unit) state" where
  "bs_symlink sys target link_rel = unit_call sys (Symlinkat target link_rel)"

definition bs_mknod :: "'k machine \<Rightarrow> path \<Rightarrow> u32 \<Rightarrow> u32 \<Rightarrow> ('k, errno + unit) state" where
  "bs_mknod sys rel mode rdev = unit_call sys (Mknodat rel mode rdev)"

definition bs_chmod :: "'k machine \<Rightarrow> path \<Rightarrow> u32 \<Rightarrow> ('k, errno + unit) state" where
  "bs_chmod sys rel mode = unit_call sys (Fchmodat rel mode)"

text \<open>\<open>!0\<close> means unchanged to the kernel.\<close>

definition or_unchanged :: "u32 option \<Rightarrow> u32" where
  "or_unchanged v = (case v of Some x \<Rightarrow> x | None \<Rightarrow> NOT 0)"

definition bs_chown :: "'k machine \<Rightarrow> path \<Rightarrow> u32 option \<Rightarrow> u32 option \<Rightarrow> ('k, errno + unit) state" where
  "bs_chown sys rel uid gid = unit_call sys (Fchownat rel (or_unchanged uid) (or_unchanged gid))"

definition bs_truncate :: "'k machine \<Rightarrow> path \<Rightarrow> nat \<Rightarrow> ('k, errno + unit) state" where
  "bs_truncate sys rel sz = do {
     opened \<leftarrow> open_file_with_flags sys rel O_WRONLY 0;
     (case opened of
        Inl e \<Rightarrow> State_Monad.return (Inl e)
      | Inr fh \<Rightarrow> do {
          rc \<leftarrow> unit_call sys (Ftruncate fh (as_i64 sz));
          _ \<leftarrow> sys_call sys (Closefd fh);
          State_Monad.return rc }) }"

definition bs_utimens :: "'k machine \<Rightarrow> path \<Rightarrow> timespec \<Rightarrow> timespec \<Rightarrow> ('k, errno + unit) state" where
  "bs_utimens sys rel atime mtime = unit_call sys (Utimensat rel atime mtime)"

definition bs_setxattr :: "'k machine \<Rightarrow> path \<Rightarrow> string \<Rightarrow> bytes \<Rightarrow> u32 \<Rightarrow> ('k, errno + unit) state" where
  "bs_setxattr sys rel name value flags = unit_call sys (Lsetxattr rel name value flags)"

text \<open>With size zero only the length is asked for, and comes back as that many zeros.\<close>

definition xattr_answer :: "nat \<Rightarrow> sys_result \<Rightarrow> errno + bytes" where
  "xattr_answer sz r =
     (case r of
        Failed e \<Rightarrow> Inl e
      | GotBytes bs \<Rightarrow> Inr (if sz = 0 then replicate (length bs) 0 else take sz bs)
      | GotCount n \<Rightarrow> Inr (replicate (if sz = 0 then n else min n sz) 0)
      | _ \<Rightarrow> Inl EIO)"

definition bs_getxattr :: "'k machine \<Rightarrow> path \<Rightarrow> string \<Rightarrow> nat \<Rightarrow> ('k, errno + bytes) state" where
  "bs_getxattr sys rel name sz = do {
     r \<leftarrow> sys_call sys (Lgetxattr rel name sz);
     State_Monad.return (xattr_answer sz r) }"

definition bs_listxattr :: "'k machine \<Rightarrow> path \<Rightarrow> nat \<Rightarrow> ('k, errno + bytes) state" where
  "bs_listxattr sys rel sz = do {
     r \<leftarrow> sys_call sys (Llistxattr rel sz);
     State_Monad.return (xattr_answer sz r) }"

definition bs_removexattr :: "'k machine \<Rightarrow> path \<Rightarrow> string \<Rightarrow> ('k, errno + unit) state" where
  "bs_removexattr sys rel name = unit_call sys (Lremovexattr rel name)"

section \<open>Actions that keep a property of the state\<close>

definition keeps :: "('s \<Rightarrow> bool) \<Rightarrow> ('s, 'a) state \<Rightarrow> bool" where
  "keeps P m = (\<forall>s. P s \<longrightarrow> P (snd (run_state m s)))"

named_theorems keep_intros \<open>actions that keep an invariant\<close>

lemma keepsI: "(\<And>s. P s \<Longrightarrow> P (snd (run_state m s))) \<Longrightarrow> keeps P m"
  by (simp add: keeps_def)

lemma keepsD: "keeps P m \<Longrightarrow> P s \<Longrightarrow> P (snd (run_state m s))"
  by (simp add: keeps_def)

lemma keeps_return [keep_intros]: "keeps P (State_Monad.return a)"
  by (simp add: keeps_def)

lemma keeps_get [keep_intros]: "keeps P State_Monad.get"
  by (simp add: keeps_def)

lemma keeps_bind [keep_intros]: "keeps P m \<Longrightarrow> (\<And>a. keeps P (f a)) \<Longrightarrow> keeps P (State_Monad.bind m f)"
  by (auto simp: keeps_def split: prod.splits)

lemma keeps_if [keep_intros]: "(b \<Longrightarrow> keeps P m) \<Longrightarrow> (\<not> b \<Longrightarrow> keeps P n) \<Longrightarrow> keeps P (if b then m else n)"
  by simp

lemma keeps_sum [keep_intros]:
  "(\<And>e. r = Inl e \<Longrightarrow> keeps P (f e)) \<Longrightarrow> (\<And>a. r = Inr a \<Longrightarrow> keeps P (g a)) \<Longrightarrow>
   keeps P (case r of Inl e \<Rightarrow> f e | Inr a \<Rightarrow> g a)"
  by (cases r) simp_all

lemma keeps_option [keep_intros]:
  "(r = None \<Longrightarrow> keeps P m) \<Longrightarrow> (\<And>a. r = Some a \<Longrightarrow> keeps P (g a)) \<Longrightarrow>
   keeps P (case r of None \<Rightarrow> m | Some a \<Rightarrow> g a)"
  by (cases r) simp_all

lemma keeps_dir_answer [keep_intros]:
  "(\<And>names. r = GotDir names \<Longrightarrow> keeps P (f names)) \<Longrightarrow> keeps P m \<Longrightarrow>
   keeps P (case r of GotDir names \<Rightarrow> f names | _ \<Rightarrow> m)"
  by (cases r) simp_all

end
