(* ===== verification/Prediction.thy ===== *)
theory Prediction
  imports Text BackingStore "HOL-Library.Product_Lexorder" "HOL-Library.Multiset"
begin

text \<open>
  Episode prediction (src/src/prediction_utils.rs): reading season and episode out of names, and the
  search for the episodes that follow a file. The two regular expressions are translated by hand
  for ASCII names: \<open>(?i)[Ss](\d{1,2})[Ee](\d{1,3})\<close>, searched from the left, and
  \<open>(?i)^Season\s+0*(\d+)$\<close>.
\<close>

section \<open>Names\<close>

text \<open>The first expression anchored at the head. A run of three digits after the S cannot match: the
  letter E has to follow the first or the second.\<close>

definition match_season_episode :: "string \<Rightarrow> (nat \<times> nat) option" where
  "match_season_episode s =
     (case s of
        [] \<Rightarrow> None
      | c # r \<Rightarrow>
          let ds = takeWhile is_digit r; rest = dropWhile is_digit r
          in if to_lower c \<noteq> CHR ''s'' \<or> ds = [] \<or> length ds > 2 then None
             else (case rest of
                     [] \<Rightarrow> None
                   | e # r2 \<Rightarrow>
                       let es = take 3 (takeWhile is_digit r2)
                       in if to_lower e \<noteq> CHR ''e'' \<or> es = [] then None
                          else Some (digits_val ds, digits_val es)))"

fun parse_season_episode :: "string \<Rightarrow> (nat \<times> nat) option" where
  "parse_season_episode [] = None"
| "parse_season_episode (c # r) =
     (case match_season_episode (c # r) of Some se \<Rightarrow> Some se | None \<Rightarrow> parse_season_episode r)"

definition parse_season_dir :: "string \<Rightarrow> nat option" where
  "parse_season_dir name =
     (let r = drop 6 name; ds = dropWhile is_space r
      in if map to_lower (take 6 name) = ''season'' \<and> ds \<noteq> r \<and> ds \<noteq> [] \<and> list_all is_digit ds \<and> digits_val ds < 2 ^ 32
         then Some (digits_val ds) else None)"

definition show_root :: "path \<Rightarrow> path" where
  "show_root rel = parent_or_empty rel"

section \<open>Candidates\<close>

type_synonym episode = "nat \<times> nat \<times> path"

definition ep_key :: "episode \<Rightarrow> nat \<times> nat" where
  "ep_key x = (fst x, fst (snd x))"

definition ep_path :: "episode \<Rightarrow> path" where
  "ep_path x = snd (snd x)"

text \<open>The filter_map over a directory: entries whose name parses and passes the test.\<close>

definition episodes_in :: "backing_kernel \<Rightarrow> path \<Rightarrow> (nat \<times> nat \<Rightarrow> bool) \<Rightarrow> episode list" where
  "episodes_in k dir ok =
     List.map_filter (\<lambda>n. case parse_season_episode n of
        None \<Rightarrow> None
      | Some se \<Rightarrow> if ok se then Some (fst se, snd se, join dir [n]) else None) (list_dir k dir)"

definition same_season :: "backing_kernel \<Rightarrow> path \<Rightarrow> nat \<Rightarrow> nat \<Rightarrow> episode list" where
  "same_season k dir season episode =
     sort_key ep_key (episodes_in k dir (\<lambda>(s, e). s = season \<and> e > episode))"

definition next_seasons :: "backing_kernel \<Rightarrow> path \<Rightarrow> nat \<Rightarrow> (nat \<times> path) list" where
  "next_seasons k show_dir season =
     sort_key fst (List.map_filter (\<lambda>n. case parse_season_dir n of
        None \<Rightarrow> None
      | Some s \<Rightarrow> if s > season then Some (s, join show_dir [n]) else None) (list_dir k show_dir))"

text \<open>The inner loop; the flag says that the outer one is left.\<close>

fun push_episodes :: "nat \<Rightarrow> episode list \<Rightarrow> episode list \<Rightarrow> bool \<times> episode list" where
  "push_episodes lookahead candidates [] = (False, candidates)"
| "push_episodes lookahead candidates (ep # eps) =
     (if length candidates \<ge> lookahead then (True, candidates)
      else push_episodes lookahead (candidates @ [ep]) eps)"

fun push_seasons :: "backing_kernel \<Rightarrow> nat \<Rightarrow> episode list \<Rightarrow> (nat \<times> path) list \<Rightarrow> episode list" where
  "push_seasons k lookahead candidates [] = candidates"
| "push_seasons k lookahead candidates ((_, season_dir) # rest) =
     (case push_episodes lookahead candidates (sort_key ep_key (episodes_in k season_dir (\<lambda>_. True))) of
        (True, cs) \<Rightarrow> cs
      | (False, cs) \<Rightarrow> push_seasons k lookahead cs rest)"

definition find_next_episodes :: "path \<Rightarrow> backing_kernel \<Rightarrow> nat \<Rightarrow> path list" where
  "find_next_episodes rel k lookahead =
     (case file_name rel of
        None \<Rightarrow> []
      | Some name \<Rightarrow>
          (case parse_season_episode name of
             None \<Rightarrow> []
           | Some (season, episode) \<Rightarrow>
               let dir = parent_or_empty rel;
                   candidates = take lookahead (same_season k dir season episode);
                   all = (if length candidates < lookahead
                          then let needed = lookahead - length candidates;
                                   parent_name = (case file_name dir of None \<Rightarrow> [] | Some n \<Rightarrow> n)
                               in if parse_season_dir parent_name \<noteq> None
                                  then push_seasons k lookahead candidates
                                         (next_seasons k (parent_or_empty dir) season)
                                  else candidates @ take needed
                                         (sort_key ep_key (episodes_in k dir (\<lambda>(s, _). s > season)))
                          else candidates)
               in map ep_path (take lookahead all)))"

section \<open>Lemmas\<close>

lemma set_map_filter: "set (List.map_filter f xs) = {y. \<exists>x \<in> set xs. f x = Some y}"
  by (induction xs) (auto simp: map_filter_simps split: option.splits)

lemma set_episodes_in:
  "x \<in> set (episodes_in k dir ok) \<longleftrightarrow>
     (\<exists>n s e. n \<in> set (list_dir k dir) \<and> parse_season_episode n = Some (s, e) \<and> ok (s, e) \<and> x = (s, e, dir @ [n]))"
proof -
  have "(case o' of None \<Rightarrow> None | Some se \<Rightarrow> if ok se then Some (fst se, snd se, p) else None) = Some x \<longleftrightarrow>
      (\<exists>s e. o' = Some (s, e) \<and> ok (s, e) \<and> x = (s, e, p))" for o' p
    by (cases o') auto
  then show ?thesis by (auto simp: episodes_in_def set_map_filter)
qed

lemma episodes_in_filter:
  "episodes_in k dir ok = filter (\<lambda>x. ok (ep_key x)) (episodes_in k dir (\<lambda>_. True))"
proof -
  let ?f = "\<lambda>ok n. case parse_season_episode n of None \<Rightarrow> None
      | Some se \<Rightarrow> if ok se then Some (fst se, snd se, join dir [n]) else None"
  have "List.map_filter (?f ok) ns = filter (\<lambda>x. ok (ep_key x)) (List.map_filter (?f (\<lambda>_. True)) ns)" for ns
    by (induction ns) (auto simp: map_filter_simps ep_key_def split: option.splits)
  then show ?thesis by (simp add: episodes_in_def)
qed

text \<open>A stable sort of a list cut at a threshold.\<close>

lemma sort_key_split:
  fixes f :: "'a \<Rightarrow> 'b :: linorder"
  assumes "\<And>x y. x \<in> set xs \<Longrightarrow> y \<in> set xs \<Longrightarrow> P x \<Longrightarrow> \<not> P y \<Longrightarrow> f x < f y"
  shows "sort_key f xs = sort_key f (filter P xs) @ sort_key f (filter (\<lambda>x. \<not> P x) xs)"
proof (rule properties_for_sort_key)
  let ?ys = "sort_key f (filter P xs) @ sort_key f (filter (\<lambda>x. \<not> P x) xs)"
  show "mset ?ys = mset xs" by (simp add: multiset_partition [symmetric])
  show "sorted (map f ?ys)"
    using assms by (auto simp: sorted_append intro: less_imp_le)
  fix k assume "k \<in> set ?ys"
  then have k: "k \<in> set xs" by auto
  have st: "filter (\<lambda>x. f k = f x) (sort_key f zs) = filter (\<lambda>x. f k = f x) zs" for zs
  proof -
    have "(\<lambda>x. f k = f x) = (\<lambda>x. f x = f k)" by auto
    then show ?thesis by (simp only: sort_key_stable)
  qed
  have "filter (\<lambda>x. f k = f x) ?ys = filter (\<lambda>x. f k = f x) (filter P xs) @ filter (\<lambda>x. f k = f x) (filter (\<lambda>x. \<not> P x) xs)"
    by (simp only: filter_append st)
  also have "\<dots> = filter (\<lambda>x. f k = f x) xs"
  proof (cases "P k")
    case True
    then have P: "\<forall>y \<in> set xs. f k = f y \<longrightarrow> P y" using assms k by force
    have "filter (\<lambda>x. f k = f x) (filter P xs) = filter (\<lambda>x. f k = f x) xs"
      unfolding filter_filter by (rule filter_cong) (use P in auto)
    moreover have "filter (\<lambda>x. f k = f x) (filter (\<lambda>x. \<not> P x) xs) = []"
      using P by (auto simp: filter_empty_conv)
    ultimately show ?thesis by (simp only: append_Nil2)
  next
    case False
    then have P: "\<forall>y \<in> set xs. f k = f y \<longrightarrow> \<not> P y" using assms k by force
    have "filter (\<lambda>x. f k = f x) (filter (\<lambda>x. \<not> P x) xs) = filter (\<lambda>x. f k = f x) xs"
      unfolding filter_filter by (rule filter_cong) (use P in auto)
    moreover have "filter (\<lambda>x. f k = f x) (filter P xs) = []"
      using P by (auto simp: filter_empty_conv)
    ultimately show ?thesis by (simp only: append_Nil)
  qed
  finally show "filter (\<lambda>x. f k = f x) ?ys = filter (\<lambda>x. f k = f x) xs" .
qed

text \<open>Every episode of the directory that comes after the given one, in order.\<close>

definition later_episodes :: "backing_kernel \<Rightarrow> path \<Rightarrow> nat \<times> nat \<Rightarrow> episode list" where
  "later_episodes k dir se = sort_key ep_key (filter (\<lambda>x. se < ep_key x) (episodes_in k dir (\<lambda>_. True)))"

lemma later_episodes_split:
  "later_episodes k dir (season, episode) =
     same_season k dir season episode @ sort_key ep_key (episodes_in k dir (\<lambda>(s, _). s > season))"
proof -
  let ?E = "episodes_in k dir (\<lambda>_. True)" and ?P = "\<lambda>x. fst (ep_key x) = season"
  let ?L = "filter (\<lambda>x. (season, episode) < ep_key x) ?E"
  have "sort_key ep_key ?L = sort_key ep_key (filter ?P ?L) @ sort_key ep_key (filter (\<lambda>x. \<not> ?P x) ?L)"
    by (rule sort_key_split) (auto simp: less_prod_def)
  also have "filter ?P ?L = episodes_in k dir (\<lambda>(s, e). s = season \<and> e > episode)"
    by (subst episodes_in_filter) (auto simp: less_prod_def intro!: filter_cong)
  also have "filter (\<lambda>x. \<not> ?P x) ?L = episodes_in k dir (\<lambda>(s, _). s > season)"
    by (subst episodes_in_filter) (auto simp: less_prod_def intro!: filter_cong)
  finally show ?thesis by (simp add: later_episodes_def same_season_def)
qed

lemma push_episodes_eq:
  "length cs \<le> lookahead \<Longrightarrow> snd (push_episodes lookahead cs eps) = take lookahead (cs @ eps) \<and>
     (fst (push_episodes lookahead cs eps) \<longrightarrow> length (snd (push_episodes lookahead cs eps)) = lookahead)"
proof (induction eps arbitrary: cs)
  case Nil
  then show ?case by simp
next
  case (Cons ep eps)
  show ?case
  proof (cases "length cs = lookahead")
    case True
    then show ?thesis by simp
  next
    case False
    with Cons have "length (cs @ [ep]) \<le> lookahead" by simp
    from Cons.IH [OF this] False Cons.prems show ?thesis
      by (auto simp del: take_append length_take)
  qed
qed

definition season_episodes :: "backing_kernel \<Rightarrow> (nat \<times> path) list \<Rightarrow> episode list" where
  "season_episodes k seasons = concat (map (\<lambda>(_, d). sort_key ep_key (episodes_in k d (\<lambda>_. True))) seasons)"

lemma in_season_episodes:
  "x \<in> set (season_episodes k ss) \<longleftrightarrow> (\<exists>s d. (s, d) \<in> set ss \<and> x \<in> set (episodes_in k d (\<lambda>_. True)))"
proof (induction ss)
  case Nil
  then show ?case by (simp add: season_episodes_def)
next
  case (Cons sd ss)
  obtain s d where "sd = (s, d)" by (cases sd)
  with Cons show ?case by (auto simp: season_episodes_def)
qed

lemma push_seasons_eq:
  "length cs \<le> lookahead \<Longrightarrow> push_seasons k lookahead cs seasons = take lookahead (cs @ season_episodes k seasons)"
proof (induction seasons arbitrary: cs)
  case Nil
  then show ?case by (simp add: season_episodes_def)
next
  case (Cons sd seasons)
  obtain s d where sd: "sd = (s, d)" by (cases sd)
  let ?eps = "sort_key ep_key (episodes_in k d (\<lambda>_. True))"
  obtain stop cs' where push: "push_episodes lookahead cs ?eps = (stop, cs')" by (metis prod.collapse)
  have eq: "cs' = take lookahead (cs @ ?eps)" and full: "stop \<Longrightarrow> length cs' = lookahead"
    using push_episodes_eq [OF Cons.prems, of ?eps] push by auto
  show ?case
  proof (cases stop)
    case True
    with full eq have "lookahead \<le> length (cs @ ?eps)" by (metis length_take min.cobounded1)
    then have "take lookahead (cs @ ?eps @ rest) = take lookahead (cs @ ?eps)" for rest
      using take_append [of lookahead "cs @ ?eps" rest] by simp
    with True push eq show ?thesis by (simp add: sd season_episodes_def del: take_append)
  next
    case False
    have "length cs' \<le> lookahead" using eq by simp
    from Cons.IH [OF this] False push
    have "push_seasons k lookahead cs (sd # seasons) = take lookahead (cs' @ season_episodes k seasons)"
      by (simp add: sd)
    also have "\<dots> = take lookahead ((cs @ ?eps) @ season_episodes k seasons)"
      using Cons.prems by (cases "lookahead \<le> length (cs @ ?eps)") (simp_all add: eq min_absorb1)
    finally show ?thesis by (simp add: sd season_episodes_def)
  qed
qed

lemma find_next_eq:
  assumes "file_name rel = Some name" and "parse_season_episode name = Some (season, episode)"
  shows "find_next_episodes rel k lookahead = map ep_path (take lookahead
     (if parse_season_dir (case file_name (parent_or_empty rel) of None \<Rightarrow> [] | Some n \<Rightarrow> n) \<noteq> None
      then same_season k (parent_or_empty rel) season episode @
             season_episodes k (next_seasons k (parent_or_empty (parent_or_empty rel)) season)
      else later_episodes k (parent_or_empty rel) (season, episode)))"
proof -
  let ?c = "same_season k (parent_or_empty rel) season episode"
  show ?thesis
  proof (cases "length ?c < lookahead")
    case True
    then show ?thesis using assms
      by (simp add: find_next_episodes_def Let_def later_episodes_split push_seasons_eq take_map)
  next
    case False
    then have "take lookahead (?c @ rest) = take lookahead ?c" for rest by simp
    with False assms show ?thesis
      by (simp add: find_next_episodes_def Let_def later_episodes_split min_def)
  qed
qed

section \<open>Properties\<close>

lemma file_name_of_dir: "file_name d = Some n \<Longrightarrow> d = butlast d @ [n]"
  by (cases d) auto

text \<open>C17. Flat layout: the prediction is the first \<open>lookahead\<close> of all episodes in the directory that come
  after the opened one, in the order of season and episode, ties in directory order; the two phases
  of the search leave no gap and no overlap.\<close>

theorem find_next_flat_in_order:
  assumes "file_name rel = Some name" and "parse_season_episode name = Some (season, episode)"
    and "parse_season_dir (case file_name (parent_or_empty rel) of None \<Rightarrow> [] | Some n \<Rightarrow> n) = None"
  shows "find_next_episodes rel k lookahead =
    map ep_path (take lookahead (sort_key ep_key (filter (\<lambda>x. (season, episode) < ep_key x)
      (episodes_in k (parent_or_empty rel) (\<lambda>_. True)))))"
  using assms by (simp add: find_next_eq later_episodes_def)

text \<open>Whatever the layout, at most \<open>lookahead\<close> files are predicted; each is an entry of the listed
  directory whose name is an episode, either a later one of the opened file's directory, or one in
  a sibling season directory with a higher number than the opened file's season.\<close>

theorem find_next_sound:
  assumes "file_name rel = Some name" and "parse_season_episode name = Some (season, episode)"
  shows "length (find_next_episodes rel k lookahead) \<le> lookahead \<and>
    (\<forall>x \<in> set (find_next_episodes rel k lookahead). \<exists>d n se. x = d @ [n] \<and> n \<in> set (list_dir k d) \<and>
       parse_season_episode n = Some se \<and>
       (d = parent_or_empty rel \<and> (season, episode) < se \<or>
        (\<exists>sd t. d = parent_or_empty (parent_or_empty rel) @ [sd] \<and>
           sd \<in> set (list_dir k (parent_or_empty (parent_or_empty rel))) \<and>
           parse_season_dir sd = Some t \<and> season < t)))"
proof -
  let ?dir = "parent_or_empty rel"
  let ?ok = "\<lambda>x. \<exists>d n se. x = d @ [n] \<and> n \<in> set (list_dir k d) \<and> parse_season_episode n = Some se \<and>
       (d = ?dir \<and> (season, episode) < se \<or>
        (\<exists>sd t. d = parent_or_empty ?dir @ [sd] \<and> sd \<in> set (list_dir k (parent_or_empty ?dir)) \<and>
           parse_season_dir sd = Some t \<and> season < t))"
  have later: "?ok (ep_path x)" if "x \<in> set (later_episodes k ?dir (season, episode))" for x
    using that by (auto simp: later_episodes_def set_episodes_in ep_key_def ep_path_def)
  have same: "?ok (ep_path x)" if "x \<in> set (same_season k ?dir season episode)" for x
    by (rule later) (use that in \<open>simp add: later_episodes_split\<close>)
  have other: "?ok (ep_path x)"
    if mem: "x \<in> set (season_episodes k (next_seasons k (parent_or_empty ?dir) season))" for x
  proof -
    obtain s d where d: "(s, d) \<in> set (next_seasons k (parent_or_empty ?dir) season)"
      and x: "x \<in> set (episodes_in k d (\<lambda>_. True))"
      using mem unfolding in_season_episodes by blast
    obtain sd where "sd \<in> set (list_dir k (parent_or_empty ?dir))" "parse_season_dir sd = Some s" "season < s"
      "d = parent_or_empty ?dir @ [sd]"
      using d by (auto simp: next_seasons_def set_map_filter split: option.splits if_splits)
    with x show ?thesis by (auto simp: set_episodes_in ep_path_def)
  qed
  have "?ok y" if mem: "y \<in> set (find_next_episodes rel k lookahead)" for y
  proof -
    obtain x where y: "y = ep_path x" and "x \<in> set (later_episodes k ?dir (season, episode)) \<or>
        x \<in> set (same_season k ?dir season episode) \<or>
        x \<in> set (season_episodes k (next_seasons k (parent_or_empty ?dir) season))"
      using mem unfolding find_next_eq [OF assms]
      by (auto dest!: in_set_takeD split: if_splits)
    then show ?thesis using later same other by blast
  qed
  moreover have "length (find_next_episodes rel k lookahead) \<le> lookahead"
    unfolding find_next_eq [OF assms] by simp
  ultimately show ?thesis by blast
qed

definition show_kernel :: backing_kernel where
  "show_kernel = \<lparr>k_fstatat = (\<lambda>p. None), k_openat = (\<lambda>p. Inl 2), k_fstat = (\<lambda>fd. None),
     k_readdir = (\<lambda>p. Some [''.'', ''S01E03.mkv'', ''S01E01.mkv'', ''S02E01.mkv'', ''S01E02.mkv''])\<rparr>"

lemma show_names:
  "parse_season_episode ''S01E01.mkv'' = Some (1, 1)" "parse_season_episode ''S01E02.mkv'' = Some (1, 2)"
  "parse_season_episode ''S01E03.mkv'' = Some (1, 3)" "parse_season_episode ''S02E01.mkv'' = Some (2, 1)"
  "parse_season_episode ''S001E01.mkv'' = None"
  by code_simp+

lemma show_dirs: "parse_season_dir ''Show'' = None" "parse_season_dir ''Season 02'' = Some 2"
proof -
  have low: "map to_lower ''Season'' = ''season''" "map to_lower ''Show'' = ''show''" by code_simp+
  show "parse_season_dir ''Show'' = None" by (simp add: parse_season_dir_def Let_def low del: list.map)
  show "parse_season_dir ''Season 02'' = Some 2"
    by (simp add: parse_season_dir_def Let_def low code_of_def is_space_def is_digit_def digits_val_def digit_val_def
        del: list.map)
qed

theorem find_next_flat_in_order_witness:
  "find_next_episodes [''Show'', ''S01E01.mkv''] show_kernel 3 =
     [[''Show'', ''S01E02.mkv''], [''Show'', ''S01E03.mkv''], [''Show'', ''S02E01.mkv'']]"
  by (subst find_next_flat_in_order [of _ "''S01E01.mkv''" 1 1])
    (simp_all add: show_names show_dirs parent_or_empty_def episodes_in_def list_dir_def show_kernel_def map_filter_simps
      ep_key_def ep_path_def del: parse_season_episode.simps)

theorem find_next_sound_witness:
  "length (find_next_episodes [''Show'', ''S01E01.mkv''] show_kernel 2) \<le> 2"
  using find_next_sound [of "[''Show'', ''S01E01.mkv'']" "''S01E01.mkv''" 1 1 show_kernel 2]
  by (simp add: show_names del: parse_season_episode.simps)

end
