(* ===== verification/Process.thy ===== *)
theory Process
  imports Text
begin

text \<open>
  Who opened a file and whether the process policy lets it trigger caching (src/src/preset.rs).
  /proc is the kernel's: its two views, the status text and the target of the exe link, are
  arguments.
\<close>

section \<open>Capturing the opener\<close>

record process_info =
  p_pid :: nat
  p_name :: "string option"
  p_cmdline :: "string option"
  p_ancestors :: "string list"

record proc_fs =
  pf_exe :: "nat \<Rightarrow> path option"
  pf_status :: "nat \<Rightarrow> string option"
  pf_cmdline :: "nat \<Rightarrow> string option"

definition proc_name :: "proc_fs \<Rightarrow> nat \<Rightarrow> string option" where
  "proc_name pf pid = (case pf_exe pf pid of None \<Rightarrow> None | Some exe \<Rightarrow> file_name exe)"

fun ppid_line :: "string list \<Rightarrow> nat option" where
  "ppid_line [] = None"
| "ppid_line (l # ls) =
     (case strip_text_prefix (''PPid:'' @ [CHR 0x09]) l of
        Some rest \<Rightarrow> parse_u32 (trim rest)
      | None \<Rightarrow> ppid_line ls)"

definition proc_parent_pid :: "proc_fs \<Rightarrow> nat \<Rightarrow> nat option" where
  "proc_parent_pid pf pid =
     (case pf_status pf pid of None \<Rightarrow> None | Some status \<Rightarrow> ppid_line (lines status))"

text \<open>The loop \<open>for _ in 0..16\<close>, counted down.\<close>

fun ancestors_loop :: "proc_fs \<Rightarrow> nat \<Rightarrow> nat \<Rightarrow> string list" where
  "ancestors_loop pf 0 current = []"
| "ancestors_loop pf (Suc n) current =
     (if current \<le> 1 then []
      else (case proc_parent_pid pf current of
              None \<Rightarrow> []
            | Some ppid \<Rightarrow>
                if ppid \<noteq> current \<and> ppid > 1
                then (case proc_name pf ppid of None \<Rightarrow> [] | Some name \<Rightarrow> [name])
                     @ ancestors_loop pf n ppid
                else []))"

definition collect_ancestors :: "proc_fs \<Rightarrow> nat \<Rightarrow> string list" where
  "collect_ancestors pf pid = ancestors_loop pf 16 pid"

definition capture :: "proc_fs \<Rightarrow> nat \<Rightarrow> process_info" where
  "capture pf pid =
     \<lparr>p_pid = pid, p_name = proc_name pf pid, p_cmdline = pf_cmdline pf pid,
      p_ancestors = collect_ancestors pf pid\<rparr>"

section \<open>The policy\<close>

definition matches_opener :: "process_info \<Rightarrow> string list \<Rightarrow> bool" where
  "matches_opener p names =
     (case p_name p of None \<Rightarrow> False | Some name \<Rightarrow> list_ex (\<lambda>n. name = n) names)"

definition matches_any :: "process_info \<Rightarrow> string list \<Rightarrow> bool" where
  "matches_any p names =
     (if matches_opener p names then True
      else list_ex (\<lambda>a. list_ex (\<lambda>n. a = n) names) (p_ancestors p))"

definition is_blocked_by :: "process_info \<Rightarrow> string list \<Rightarrow> bool" where
  "is_blocked_by p blocklist = matches_any p blocklist"

record process_filter_policy =
  pol_allowlist :: "string list"
  pol_blocklist :: "string list"

definition policy_should_filter :: "process_filter_policy \<Rightarrow> process_info \<Rightarrow> bool" where
  "policy_should_filter pol p =
     (if pol_blocklist pol \<noteq> [] \<and> is_blocked_by p (pol_blocklist pol) then True
      else pol_allowlist pol \<noteq> [] \<and> \<not> matches_opener p (pol_allowlist pol))"

section \<open>Lemmas\<close>

lemma length_ancestors_loop: "length (ancestors_loop pf n pid) \<le> n"
proof (induction n arbitrary: pid)
  case 0
  then show ?case by simp
next
  case (Suc n)
  have "length (ancestors_loop pf n q) \<le> Suc n" for q using Suc [of q] by simp
  then show ?case using Suc by (auto split: option.splits)
qed

lemma matches_opener_iff: "matches_opener p names \<longleftrightarrow> (\<exists>n \<in> set names. p_name p = Some n)"
  by (auto simp: matches_opener_def list_ex_iff split: option.splits)

lemma matches_any_iff:
  "matches_any p names \<longleftrightarrow>
     (\<exists>n \<in> set names. p_name p = Some n) \<or> set (p_ancestors p) \<inter> set names \<noteq> {}"
  by (auto simp: matches_any_def matches_opener_iff list_ex_iff)

lemma policy_should_filter_iff:
  "policy_should_filter pol p \<longleftrightarrow>
     matches_any p (pol_blocklist pol) \<or>
     (pol_allowlist pol \<noteq> [] \<and> \<not> matches_opener p (pol_allowlist pol))"
  by (auto simp: policy_should_filter_def is_blocked_by_def matches_any_iff)

text \<open>The process policy in one formula: an open is suppressed exactly when the opener or one
  of its (at most 16) recorded ancestors is on the blocklist, or when there is an allowlist and the
  opener itself is not on it; an allowed ancestor does not help and a blocked one always wins.\<close>

theorem process_policy_spec:
  "(policy_should_filter pol (capture pf pid) \<longleftrightarrow>
      (\<exists>n. n \<in> set (pol_blocklist pol) \<and>
         (p_name (capture pf pid) = Some n \<or> n \<in> set (p_ancestors (capture pf pid)))) \<or>
      (pol_allowlist pol \<noteq> [] \<and>
         (\<nexists>n. n \<in> set (pol_allowlist pol) \<and> p_name (capture pf pid) = Some n))) \<and>
     length (p_ancestors (capture pf pid)) \<le> 16"
proof -
  have "length (p_ancestors (capture pf pid)) \<le> 16"
    unfolding capture_def collect_ancestors_def using length_ancestors_loop by simp
  then show ?thesis
    by (auto simp: policy_should_filter_iff matches_any_iff matches_opener_iff)
qed

end
