(* ===== verification/Presets.thy ===== *)
theory Presets
  imports Prediction Process
begin

text \<open>
  The caching behaviours (src/src/preset.rs, CachePreset; src/src/presets/): the trait as a record of
  its methods, the Plex episode preset and the prefetch preset, and the contract the engine relies
  on as a locale. Regular expressions given by the user belong to the regex crate: their compilation
  and matching are arguments.
\<close>

section \<open>The trait\<close>

datatype cache_action = Cache "path list" | Evict "path list"

record cache_preset_methods =
  cp_name :: string
  cp_should_filter :: "process_info \<Rightarrow> bool"
  cp_on_miss :: "backing_kernel \<Rightarrow> path \<Rightarrow> cache_action list"
  cp_on_hit :: "backing_kernel \<Rightarrow> path \<Rightarrow> cache_action list"
  cp_on_close :: "backing_kernel \<Rightarrow> path \<Rightarrow> nat \<Rightarrow> cache_action list"
  cp_on_tick :: "backing_kernel \<Rightarrow> cache_action list"
  cp_deduplicate_key :: "path \<Rightarrow> path"

text \<open>The default methods.\<close>

definition default_preset :: "string \<Rightarrow> cache_preset_methods" where
  "default_preset name = \<lparr>cp_name = name, cp_should_filter = (\<lambda>p. False), cp_on_miss = (\<lambda>k p. []),
     cp_on_hit = (\<lambda>k p. []), cp_on_close = (\<lambda>k p n. []), cp_on_tick = (\<lambda>k. []),
     cp_deduplicate_key = (\<lambda>p. p)\<rparr>"

text \<open>
  What the engine relies on: the process policy of a preset vetoes, a miss asks for files to cache and
  for nothing else, a hit does what a miss does or nothing, and closes and ticks are silent.
\<close>

locale cache_preset =
  fixes methods :: cache_preset_methods and policy :: process_filter_policy
  assumes policy_vetoes: "policy_should_filter policy p \<Longrightarrow> cp_should_filter methods p"
    and miss_caches: "a \<in> set (cp_on_miss methods k x) \<Longrightarrow> \<exists>fs. a = Cache fs \<and> fs \<noteq> []"
    and hit_like_miss: "cp_on_hit methods k x \<noteq> [] \<Longrightarrow> cp_on_hit methods k x = cp_on_miss methods k x"
    and silent: "cp_on_close methods k x n = []" "cp_on_tick methods k = []"
begin

lemma hit_caches: "a \<in> set (cp_on_hit methods k x) \<Longrightarrow> \<exists>fs. a = Cache fs \<and> fs \<noteq> []"
  by (metis empty_iff empty_set hit_like_miss miss_caches)

lemma never_evicts:
  "Evict fs \<notin> set (cp_on_miss methods k x) \<union> set (cp_on_hit methods k x) \<union> set (cp_on_close methods k x n) \<union> set (cp_on_tick methods k)"
  using miss_caches hit_caches silent by fastforce

lemma blocked_opener: "matches_any p (pol_blocklist policy) \<Longrightarrow> cp_should_filter methods p"
  by (rule policy_vetoes) (simp add: policy_should_filter_iff)

end

section \<open>Plex episode prediction\<close>

record plex_episode_prediction =
  px_lookahead :: nat
  px_process_policy :: process_filter_policy
  px_rolling_buffer :: bool

definition plex_new :: "nat \<Rightarrow> string list \<Rightarrow> string list \<Rightarrow> bool \<Rightarrow> plex_episode_prediction" where
  "plex_new lookahead allowlist blocklist rolling_buffer =
     \<lparr>px_lookahead = lookahead,
      px_process_policy = \<lparr>pol_allowlist = allowlist, pol_blocklist = blocklist\<rparr>,
      px_rolling_buffer = rolling_buffer\<rparr>"

definition STREAMING_FORMATS :: "string list" where
  "STREAMING_FORMATS = [''dash'', ''ssegment'', ''mpegts'']"

fun playback_loop :: "string \<Rightarrow> string list \<Rightarrow> bool" where
  "playback_loop prev [] = False"
| "playback_loop prev (tok # toks) =
     (if prev = ''-f'' \<and> tok \<in> set STREAMING_FORMATS then True else playback_loop tok toks)"

definition cmdline_tokens :: "string \<Rightarrow> string list" where
  "cmdline_tokens cmdline = split_at (\<lambda>b. code_of b = 0) cmdline"

definition is_plex_playback_cmdline :: "string \<Rightarrow> bool" where
  "is_plex_playback_cmdline cmdline = playback_loop [] (cmdline_tokens cmdline)"

definition plex_should_filter :: "plex_episode_prediction \<Rightarrow> process_info \<Rightarrow> bool" where
  "plex_should_filter x p =
     (if policy_should_filter (px_process_policy x) p then True
      else if p_name p = Some ''Plex Transcoder''
           then (case p_cmdline p of Some c \<Rightarrow> \<not> is_plex_playback_cmdline c | None \<Rightarrow> True)
           else False)"

definition plex_on_miss :: "plex_episode_prediction \<Rightarrow> backing_kernel \<Rightarrow> path \<Rightarrow> cache_action list" where
  "plex_on_miss x k p = [Cache (p # find_next_episodes p k (px_lookahead x))]"

definition plex_on_hit :: "plex_episode_prediction \<Rightarrow> backing_kernel \<Rightarrow> path \<Rightarrow> cache_action list" where
  "plex_on_hit x k p = (if \<not> px_rolling_buffer x then [] else plex_on_miss x k p)"

definition plex_preset :: "plex_episode_prediction \<Rightarrow> cache_preset_methods" where
  "plex_preset x = (default_preset ''plex_episode_prediction'')
     \<lparr>cp_should_filter := plex_should_filter x, cp_on_miss := plex_on_miss x, cp_on_hit := plex_on_hit x,
      cp_deduplicate_key := show_root\<rparr>"

interpretation plex: cache_preset "plex_preset x" "px_process_policy x" for x
  by unfold_locales
    (auto simp: plex_preset_def default_preset_def plex_should_filter_def plex_on_miss_def plex_on_hit_def
      split: if_splits)

section \<open>Prefetch\<close>

datatype prefetch_mode = CacheHitOnly | CacheNeighbors | CacheParentRecursively

definition parse_mode :: "string \<Rightarrow> string + prefetch_mode" where
  "parse_mode s =
     (if s = ''cache-hit-only'' then Inr CacheHitOnly
      else if s = ''cache-neighbors'' then Inr CacheNeighbors
      else if s = ''cache-parent-recursively'' then Inr CacheParentRecursively
      else Inl s)"

record 'r prefetch =
  pf_mode :: prefetch_mode
  pf_max_depth :: nat
  pf_process_policy :: process_filter_policy
  pf_whitelist :: "'r list"
  pf_blacklist :: "'r list"

fun compile_patterns :: "(string \<Rightarrow> 'r option) \<Rightarrow> string list \<Rightarrow> string + 'r list" where
  "compile_patterns compile [] = Inr []"
| "compile_patterns compile (p # ps) =
     (case compile p of
        None \<Rightarrow> Inl p
      | Some r \<Rightarrow> (case compile_patterns compile ps of Inl e \<Rightarrow> Inl e | Inr rs \<Rightarrow> Inr (r # rs)))"

definition prefetch_new ::
  "(string \<Rightarrow> 'r option) \<Rightarrow> prefetch_mode \<Rightarrow> nat \<Rightarrow> string list \<Rightarrow> string list \<Rightarrow> string list \<Rightarrow> string list \<Rightarrow> string + 'r prefetch" where
  "prefetch_new compile mode max_depth allowlist blocklist white black =
     (case compile_patterns compile white of
        Inl e \<Rightarrow> Inl e
      | Inr w \<Rightarrow>
          (case compile_patterns compile black of
             Inl e \<Rightarrow> Inl e
           | Inr b \<Rightarrow> Inr \<lparr>pf_mode = mode, pf_max_depth = max_depth,
               pf_process_policy = \<lparr>pol_allowlist = allowlist, pol_blocklist = blocklist\<rparr>,
               pf_whitelist = w, pf_blacklist = b\<rparr>))"

definition passes_filter :: "('r \<Rightarrow> string \<Rightarrow> bool) \<Rightarrow> 'r prefetch \<Rightarrow> string \<Rightarrow> bool" where
  "passes_filter is_match x filename =
     (if pf_whitelist x \<noteq> [] then list_ex (\<lambda>r. is_match r filename) (pf_whitelist x)
      else \<not> list_ex (\<lambda>r. is_match r filename) (pf_blacklist x))"

definition collect_neighbors :: "('r \<Rightarrow> string \<Rightarrow> bool) \<Rightarrow> 'r prefetch \<Rightarrow> backing_kernel \<Rightarrow> path \<Rightarrow> path list" where
  "collect_neighbors is_match x k p =
     (let par = parent_or_empty p
      in List.map_filter (\<lambda>name.
           if \<not> passes_filter is_match x name then None
           else if is_dir k (join par [name]) then None else Some (join par [name])) (list_dir k par))"

fun collect_recursive :: "('r \<Rightarrow> string \<Rightarrow> bool) \<Rightarrow> 'r prefetch \<Rightarrow> backing_kernel \<Rightarrow> path \<Rightarrow> nat \<Rightarrow> path list" where
  "collect_recursive is_match x k dir 0 = []"
| "collect_recursive is_match x k dir (Suc depth) =
     concat (map (\<lambda>name.
       if is_dir k (join dir [name]) then collect_recursive is_match x k (join dir [name]) depth
       else if passes_filter is_match x name then [join dir [name]] else []) (list_dir k dir))"

definition gather_files :: "('r \<Rightarrow> string \<Rightarrow> bool) \<Rightarrow> 'r prefetch \<Rightarrow> backing_kernel \<Rightarrow> path \<Rightarrow> cache_action list" where
  "gather_files is_match x k p =
     (let files = (case pf_mode x of
                     CacheHitOnly \<Rightarrow> [p]
                   | CacheNeighbors \<Rightarrow> collect_neighbors is_match x k p
                   | CacheParentRecursively \<Rightarrow> collect_recursive is_match x k (parent_or_empty p) (pf_max_depth x))
      in if files = [] then [] else [Cache files])"

definition prefetch_preset :: "('r \<Rightarrow> string \<Rightarrow> bool) \<Rightarrow> 'r prefetch \<Rightarrow> cache_preset_methods" where
  "prefetch_preset is_match x = (default_preset ''prefetch'')
     \<lparr>cp_should_filter := policy_should_filter (pf_process_policy x), cp_on_miss := gather_files is_match x,
      cp_on_hit := gather_files is_match x\<rparr>"

interpretation prefetch: cache_preset "prefetch_preset is_match x" "pf_process_policy x" for is_match x
  by unfold_locales
    (auto simp: prefetch_preset_def default_preset_def gather_files_def Let_def split: if_splits)

section \<open>Properties\<close>

lemma playback_loop_iff:
  "playback_loop prev toks \<longleftrightarrow>
     (\<exists>as fmt bs. prev # toks = as @ ''-f'' # fmt # bs \<and> fmt \<in> set STREAMING_FORMATS)"
proof (induction toks arbitrary: prev)
  case Nil
  then show ?case by (simp add: Cons_eq_append_conv)
next
  case (Cons tok toks)
  show ?case
  proof (cases "prev = ''-f'' \<and> tok \<in> set STREAMING_FORMATS")
    case True
    then have "prev # tok # toks = [] @ ''-f'' # tok # toks" by simp
    with True show ?thesis by (metis playback_loop.simps(2))
  next
    case False
    have "(\<exists>as fmt bs. prev # tok # toks = as @ ''-f'' # fmt # bs \<and> fmt \<in> set STREAMING_FORMATS) \<longleftrightarrow>
        (\<exists>as fmt bs. tok # toks = as @ ''-f'' # fmt # bs \<and> fmt \<in> set STREAMING_FORMATS)" (is "?L \<longleftrightarrow> ?R")
    proof
      assume ?L
      then obtain as fmt bs where l: "prev # tok # toks = as @ ''-f'' # fmt # bs" "fmt \<in> set STREAMING_FORMATS" by blast
      with False have "as \<noteq> []" by auto
      then obtain as' where "as = prev # as'" using l(1) by (cases as) auto
      with l show ?R by auto
    next
      assume ?R
      then show ?L by (metis append_Cons)
    qed
    with False Cons.IH [of tok] show ?thesis by (simp only: playback_loop.simps if_False)
  qed
qed

text \<open>Plex playback detection: a command line counts as playback exactly when two consecutive
  arguments are -f and one of the streaming formats; and a Plex Transcoder triggers caching only
  then (never with an unreadable command line), unless the process policy vetoes it anyway.\<close>

theorem plex_transcoder_filter:
  "(is_plex_playback_cmdline c \<longleftrightarrow>
      (\<exists>as fmt bs. cmdline_tokens c = as @ ''-f'' # fmt # bs \<and> fmt \<in> {''dash'', ''ssegment'', ''mpegts''})) \<and>
   cp_should_filter (plex_preset x) \<lparr>p_pid = pid, p_name = Some ''Plex Transcoder'', p_cmdline = cl, p_ancestors = an\<rparr> =
      (policy_should_filter (px_process_policy x) \<lparr>p_pid = pid, p_name = Some ''Plex Transcoder'', p_cmdline = cl, p_ancestors = an\<rparr> \<or>
       (case cl of None \<Rightarrow> True | Some c \<Rightarrow> \<not> is_plex_playback_cmdline c))"
proof -
  have "(\<exists>as fmt bs. [] # ts = as @ ''-f'' # fmt # bs \<and> fmt \<in> set STREAMING_FORMATS) \<longleftrightarrow>
      (\<exists>as fmt bs. ts = as @ ''-f'' # fmt # bs \<and> fmt \<in> set STREAMING_FORMATS)" for ts :: "string list"
    by (auto simp: Cons_eq_append_conv)
  then show ?thesis
    by (auto simp: is_plex_playback_cmdline_def playback_loop_iff STREAMING_FORMATS_def plex_preset_def
        plex_should_filter_def split: option.splits)
qed

fun dir_chain :: "backing_kernel \<Rightarrow> path \<Rightarrow> string list \<Rightarrow> bool" where
  "dir_chain k dir [] = True"
| "dir_chain k dir (n # ns) = (n \<in> set (list_dir k dir) \<and> is_dir k (join dir [n]) \<and> dir_chain k (join dir [n]) ns)"

text \<open>The recursive prefetch finds exactly the files that lie at most \<open>max_depth\<close> levels below the
  directory (every step being a directory entry) and whose own name passes the filter; it ends
  because of the bound, whatever the tree looks like.\<close>

theorem collect_recursive_spec:
  "x \<in> set (collect_recursive is_match pf k dir depth) \<longleftrightarrow>
     (\<exists>ns n. x = dir @ ns @ [n] \<and> length ns < depth \<and> dir_chain k dir ns \<and> n \<in> set (list_dir k (dir @ ns)) \<and>
        \<not> is_dir k x \<and> passes_filter is_match pf n)"
proof (induction depth arbitrary: dir)
  case 0
  then show ?case by simp
next
  case (Suc depth)
  let ?R = "\<lambda>dir depth ns n. x = dir @ ns @ [n] \<and> length ns < depth \<and> dir_chain k dir ns \<and>
      n \<in> set (list_dir k (dir @ ns)) \<and> \<not> is_dir k x \<and> passes_filter is_match pf n"
  have "x \<in> set (collect_recursive is_match pf k dir (Suc depth)) \<longleftrightarrow>
      (\<exists>m \<in> set (list_dir k dir). if is_dir k (dir @ [m]) then (\<exists>ns n. ?R (dir @ [m]) depth ns n)
         else x = dir @ [m] \<and> passes_filter is_match pf m)"
    using Suc.IH by (auto split: if_splits)
  also have "\<dots> \<longleftrightarrow> (\<exists>ns n. ?R dir (Suc depth) ns n)" (is "?A \<longleftrightarrow> ?B")
  proof
    assume ?A
    then obtain m where m: "m \<in> set (list_dir k dir)" and
      c: "if is_dir k (dir @ [m]) then (\<exists>ns n. ?R (dir @ [m]) depth ns n) else x = dir @ [m] \<and> passes_filter is_match pf m"
      by blast
    show ?B
    proof (cases "is_dir k (dir @ [m])")
      case True
      then obtain ns n where "?R (dir @ [m]) depth ns n" using c by auto
      then have "?R dir (Suc depth) (m # ns) n" using m True by auto
      then show ?thesis by blast
    next
      case False
      then have "?R dir (Suc depth) [] m" using c m by simp
      then show ?thesis by blast
    qed
  next
    assume ?B
    then obtain ns n where r: "?R dir (Suc depth) ns n" by blast
    show ?A
    proof (cases ns)
      case Nil
      then have "n \<in> set (list_dir k dir)" "\<not> is_dir k (dir @ [n])" "x = dir @ [n]" "passes_filter is_match pf n" using r by auto
      then show ?thesis by (auto intro!: bexI [of _ n])
    next
      case (Cons m ms)
      then have "m \<in> set (list_dir k dir)" "is_dir k (dir @ [m])" "?R (dir @ [m]) depth ms n" using r by auto
      then show ?thesis by (auto intro!: bexI [of _ m])
    qed
  qed
  finally show ?case .
qed

text \<open>No preset ever asks for an eviction, and a process whose name or ancestor is on the blocklist
  is filtered by both.\<close>

theorem presets_respect_policy:
  assumes "matches_any q (pol_blocklist (px_process_policy x))" and "matches_any q (pol_blocklist (pf_process_policy y))"
  shows "Evict fs \<notin> set (cp_on_miss (plex_preset x) k p) \<union> set (cp_on_hit (plex_preset x) k p) \<and>
   Evict fs \<notin> set (cp_on_miss (prefetch_preset is_match y) k p) \<union> set (cp_on_hit (prefetch_preset is_match y) k p) \<and>
   cp_should_filter (plex_preset x) q \<and> cp_should_filter (prefetch_preset is_match y) q"
  using plex.never_evicts prefetch.never_evicts plex.blocked_opener [OF assms(1)] prefetch.blocked_opener [OF assms(2)]
  by blast

definition scanner :: process_info where
  "scanner = \<lparr>p_pid = 9, p_name = Some ''Scanner'', p_cmdline = None, p_ancestors = [''bad'']\<rparr>"

definition blocking_prefetch :: "string prefetch" where
  "blocking_prefetch = \<lparr>pf_mode = CacheNeighbors, pf_max_depth = 1,
     pf_process_policy = \<lparr>pol_allowlist = [], pol_blocklist = [''bad'']\<rparr>, pf_whitelist = [], pf_blacklist = []\<rparr>"

theorem presets_respect_policy_witness:
  "cp_should_filter (plex_preset (plex_new 2 [] [''bad''] True)) scanner \<and>
   cp_should_filter (prefetch_preset (\<lambda>r n. r = n) blocking_prefetch) scanner"
  using presets_respect_policy [of scanner "plex_new 2 [] [''bad''] True" blocking_prefetch]
  by (simp add: matches_any_iff scanner_def plex_new_def blocking_prefetch_def)

end
