(* ===== verification/ActionEngine.thy ===== *)
theory ActionEngine
  imports CacheIO Presets
begin

text \<open>
  The action engine (src/src/engine/action.rs): the access filter, which holds an access back until
  the file has been open long enough or has been read to its end, and the action loop, which asks
  the preset for files and submits them to the pipeline under the pull budget. One iteration of the
  select loop is a step: an event received or a tick. Instants are integers in nanoseconds.
\<close>

section \<open>Events\<close>

datatype event_kind = Miss | Hit | Close nat

record access_event =
  ev_path :: path
  ev_kind :: event_kind

record pending_entry =
  pe_event :: access_event
  pe_inserted_at :: int
  pe_open_handles :: u32
  pe_total_bytes_read :: nat

type_synonym pending = "(path \<times> pending_entry) list"

record action_engine =
  ae_preset :: "cache_preset_methods option"
  ae_max_cache_pull_bytes :: nat
  ae_min_access_secs :: nat
  ae_min_file_size_mb :: nat

fun is_close :: "event_kind \<Rightarrow> bool" where
  "is_close (Close n) = True"
| "is_close _ = False"

section \<open>The access filter\<close>

definition sub1 :: "u32 \<Rightarrow> u32" where
  "sub1 w = (if w = 0 then 0 else w - 1)"

definition filter_close :: "backing_kernel \<Rightarrow> access_event \<Rightarrow> nat \<Rightarrow> pending \<Rightarrow> access_event list \<times> pending" where
  "filter_close k event bytes_read pending =
     (case map_of pending (ev_path event) of
        None \<Rightarrow> ([event], pending)
      | Some entry \<Rightarrow>
          let entry = entry\<lparr>pe_open_handles := sub1 (pe_open_handles entry),
                            pe_total_bytes_read := add64 (pe_total_bytes_read entry) bytes_read\<rparr>
          in if pe_open_handles entry = 0
             then (let file_size = file_size_or_0 k (ev_path event)
                   in (if file_size > 0 \<and> pe_total_bytes_read entry \<ge> file_size then [pe_event entry] else [],
                       AList.delete (ev_path event) pending))
             else ([], AList.update (ev_path event) entry pending))"

definition passes_size_floor :: "action_engine \<Rightarrow> backing_kernel \<Rightarrow> path \<Rightarrow> bool" where
  "passes_size_floor ae k rel =
     (ae_min_file_size_mb ae > 0 \<longrightarrow> \<not> file_size_or_0 k rel < mul64 (ae_min_file_size_mb ae) 1048576)"

definition filter_open :: "action_engine \<Rightarrow> backing_kernel \<Rightarrow> int \<Rightarrow> access_event \<Rightarrow> pending \<Rightarrow> access_event list \<times> pending" where
  "filter_open ae k now event pending =
     (if \<not> passes_size_floor ae k (ev_path event) then ([], pending)
      else if ae_min_access_secs ae > 0
      then (case map_of pending (ev_path event) of
              Some entry \<Rightarrow>
                ([], AList.update (ev_path event) (entry\<lparr>pe_open_handles := pe_open_handles entry + 1\<rparr>) pending)
            | None \<Rightarrow>
                ([], AList.update (ev_path event)
                       \<lparr>pe_event = event, pe_inserted_at = now, pe_open_handles = 1, pe_total_bytes_read = 0\<rparr> pending))
      else ([event], pending))"

definition receive :: "action_engine \<Rightarrow> backing_kernel \<Rightarrow> int \<Rightarrow> access_event \<Rightarrow> pending \<Rightarrow> access_event list \<times> pending" where
  "receive ae k now event pending =
     (case ev_kind event of
        Close bytes_read \<Rightarrow> filter_close k event bytes_read pending
      | _ \<Rightarrow> filter_open ae k now event pending)"

definition secs :: "nat \<Rightarrow> int" where
  "secs n = int n * 1000000000"

fun promote_ready :: "path list \<Rightarrow> pending \<Rightarrow> access_event list \<times> pending" where
  "promote_ready [] pending = ([], pending)"
| "promote_ready (key # ready) pending =
     (case map_of pending key of
        None \<Rightarrow> promote_ready ready pending
      | Some entry \<Rightarrow> apfst ((#) (pe_event entry)) (promote_ready ready (AList.delete key pending)))"

definition access_check_tick :: "action_engine \<Rightarrow> int \<Rightarrow> pending \<Rightarrow> access_event list \<times> pending" where
  "access_check_tick ae now pending =
     (if ae_min_access_secs ae > 0
      then promote_ready
             (map fst (filter (\<lambda>(_, entry). pe_inserted_at entry \<le> now - secs (ae_min_access_secs ae)) pending))
             pending
      else ([], pending))"

datatype input = Received access_event | Tick

definition engine_step :: "action_engine \<Rightarrow> int \<times> backing_kernel \<times> input \<Rightarrow> pending \<Rightarrow> access_event list \<times> pending" where
  "engine_step ae s pending =
     (case s of
        (now, k, Received event) \<Rightarrow> receive ae k now event pending
      | (now, k, Tick) \<Rightarrow> access_check_tick ae now pending)"

text \<open>The loop over a sequence of inputs: what each iteration hands to the action loop.\<close>

fun engine_run :: "action_engine \<Rightarrow> (int \<times> backing_kernel \<times> input) list \<Rightarrow> pending \<Rightarrow> access_event list list \<times> pending" where
  "engine_run ae [] pending = ([], pending)"
| "engine_run ae (s # ss) pending =
     (case engine_step ae s pending of
        (to_process, pending') \<Rightarrow> apfst ((#) to_process) (engine_run ae ss pending'))"

section \<open>The action loop\<close>

datatype request = SubmitValidation path | SubmitCache path

definition preset_actions :: "cache_preset_methods \<Rightarrow> backing_kernel \<Rightarrow> access_event \<Rightarrow> cache_action list" where
  "preset_actions preset k event =
     (case ev_kind event of
        Miss \<Rightarrow> cp_on_miss preset k (ev_path event)
      | Hit \<Rightarrow> cp_on_hit preset k (ev_path event)
      | Close bytes_read \<Rightarrow> cp_on_close preset k (ev_path event) bytes_read)"

definition cache_paths :: "cache_action \<Rightarrow> path list option" where
  "cache_paths action = (case action of Cache paths \<Rightarrow> Some paths | Evict _ \<Rightarrow> None)"

definition next_paths :: "action_engine \<Rightarrow> backing_kernel \<Rightarrow> access_event \<Rightarrow> path list" where
  "next_paths ae k event =
     (case ae_preset ae of
        None \<Rightarrow> []
      | Some preset \<Rightarrow> concat (List.map_filter cache_paths (preset_actions preset k event)))"

text \<open>
  The budget loop. The disk is asked for every candidate at its own time, the workers running in
  between, so the argument gives the disk for each remaining candidate.
\<close>

fun budget_loop ::
  "action_engine \<Rightarrow> cache_manager \<Rightarrow> backing_kernel \<Rightarrow> (nat \<Rightarrow> disk) \<Rightarrow> nat \<Rightarrow> bool \<Rightarrow> path list \<Rightarrow> path list" where
  "budget_loop ae cm k disks running_total first [] = []"
| "budget_loop ae cm k disks running_total first (rel # rels) =
     (if is_cached cm (disks (length rels)) rel then budget_loop ae cm k disks running_total first rels
      else if ae_max_cache_pull_bytes ae > 0
      then (let file_size = file_size_or_0 k rel
            in if \<not> first \<and> add64 running_total file_size > ae_max_cache_pull_bytes ae then []
               else rel # budget_loop ae cm k disks (add64 running_total file_size) False rels)
      else rel # budget_loop ae cm k disks running_total False rels)"

definition process_event ::
  "action_engine \<Rightarrow> cache_manager \<Rightarrow> backing_kernel \<Rightarrow> cache_db \<Rightarrow> (nat \<Rightarrow> disk) \<Rightarrow> access_event \<Rightarrow> request list" where
  "process_event ae cm k db disks event =
     (if ev_kind event = Hit \<and> cm_check_on_hit cm then [SubmitValidation (ev_path event)] else []) @
     map SubmitCache
       (budget_loop ae cm k disks
         (if ae_max_cache_pull_bytes ae > 0 then total_cached_bytes (cm_mount_id cm) db else 0)
         True (next_paths ae k event))"

definition issue :: "cache_manager \<Rightarrow> request \<Rightarrow> cache_io \<Rightarrow> cache_io" where
  "issue cm r = (case r of SubmitValidation rel \<Rightarrow> submit_check cm (rel, Validate)
                          | SubmitCache rel \<Rightarrow> submit_check cm (rel, Populate))"

text \<open>run_maintenance_task: one round of its loop, which does not exist when the interval is zero.\<close>

definition maintenance_round :: "nat \<Rightarrow> cache_manager \<Rightarrow> cache_io \<Rightarrow> cache_io" where
  "maintenance_round poll_interval_secs cm io =
     (if poll_interval_secs = 0 then io else submit_maintenance_validation cm io)"

section \<open>The pending buffer as a keyed store\<close>

interpretation pend: keyed_store "\<lambda>p s. map_of (s :: pending) p" AList.update AList.delete "\<lambda>s. distinct (map fst s)" "\<lambda>e. True"
  by unfold_locales (auto simp: AList.update_conv' AList.delete_conv' intro: distinct_update distinct_delete)


declare alist_map_of [simp]

section \<open>What the filter lets through\<close>

text \<open>The bytes that the closes of a path report in a stretch of inputs.\<close>

definition closes_of :: "path \<Rightarrow> (int \<times> backing_kernel \<times> input) list \<Rightarrow> nat" where
  "closes_of p ss = sum_list (map (\<lambda>(now, k, i).
     case i of Tick \<Rightarrow> 0
     | Received e \<Rightarrow> if ev_path e = p then (case ev_kind e of Close n \<Rightarrow> n | _ \<Rightarrow> 0) else 0) ss)"

text \<open>
  An access is earned when it is let through at input \<open>s\<close> after the inputs \<open>hs\<close>: a close goes straight
  through, and so does an open when the filter is off; otherwise the open was received earlier, it
  passed the size floor, and either a tick finds it old enough or a close of the same path completes
  the file.
\<close>

definition earned :: "action_engine \<Rightarrow> (int \<times> backing_kernel \<times> input) list \<Rightarrow> int \<times> backing_kernel \<times> input \<Rightarrow> access_event \<Rightarrow> bool" where
  "earned ae hs s ev =
     (if is_close (ev_kind ev) then \<exists>now k. s = (now, k, Received ev)
      else if ae_min_access_secs ae = 0
      then \<exists>now k. s = (now, k, Received ev) \<and> passes_size_floor ae k (ev_path ev)
      else \<exists>pre now k post. hs = pre @ (now, k, Received ev) # post \<and> passes_size_floor ae k (ev_path ev) \<and>
             (case s of
                (now', k', Tick) \<Rightarrow> now + secs (ae_min_access_secs ae) \<le> now'
              | (now', k', Received c) \<Rightarrow>
                  is_close (ev_kind c) \<and> ev_path c = ev_path ev \<and> 0 < file_size_or_0 k' (ev_path ev) \<and>
                  file_size_or_0 k' (ev_path ev) \<le> closes_of (ev_path ev) (post @ [s])))"

definition opened_by :: "action_engine \<Rightarrow> (int \<times> backing_kernel \<times> input) list \<Rightarrow> path \<Rightarrow> pending_entry \<Rightarrow> bool" where
  "opened_by ae hs p e =
     (\<exists>pre k post. hs = pre @ (pe_inserted_at e, k, Received (pe_event e)) # post \<and> ev_path (pe_event e) = p \<and>
        \<not> is_close (ev_kind (pe_event e)) \<and> passes_size_floor ae k p \<and> pe_total_bytes_read e \<le> closes_of p post)"

definition filter_inv :: "action_engine \<Rightarrow> (int \<times> backing_kernel \<times> input) list \<Rightarrow> pending \<Rightarrow> bool" where
  "filter_inv ae hs pending =
     (distinct (map fst pending) \<and> (\<forall>p e. map_of pending p = Some e \<longrightarrow> opened_by ae hs p e) \<and>
      (ae_min_access_secs ae = 0 \<longrightarrow> pending = []))"

lemma closes_of_append [simp]: "closes_of p (xs @ ys) = closes_of p xs + closes_of p ys"
  by (simp add: closes_of_def)

lemma add64_le: "add64 a b \<le> a + b"
  by (simp add: add64_def)

lemma opened_by_later: "opened_by ae hs p e \<Longrightarrow> opened_by ae (hs @ [s]) p e"
  unfolding opened_by_def
proof (elim exE conjE)
  fix pre k post
  assume "hs = pre @ (pe_inserted_at e, k, Received (pe_event e)) # post" "ev_path (pe_event e) = p"
    "\<not> is_close (ev_kind (pe_event e))" "passes_size_floor ae k p" "pe_total_bytes_read e \<le> closes_of p post"
  then show "\<exists>pre k post. hs @ [s] = pre @ (pe_inserted_at e, k, Received (pe_event e)) # post \<and>
      ev_path (pe_event e) = p \<and> \<not> is_close (ev_kind (pe_event e)) \<and> passes_size_floor ae k p \<and>
      pe_total_bytes_read e \<le> closes_of p post"
    by (intro exI [of _ pre] exI [of _ k] exI [of _ "post @ [s]"]) simp
qed

lemma promote_ready_spec:
  "promote_ready ks pending = (outs, pending') \<Longrightarrow> distinct (map fst pending) \<Longrightarrow>
   distinct (map fst pending') \<and> (\<forall>p. map_of pending' p = (if p \<in> set ks then None else map_of pending p)) \<and>
   (\<forall>ev \<in> set outs. \<exists>p e. p \<in> set ks \<and> map_of pending p = Some e \<and> ev = pe_event e)"
proof (induction ks pending arbitrary: outs pending' rule: promote_ready.induct)
  case (1 pending)
  then show ?case by simp
next
  case (2 key ready pending)
  show ?case
  proof (cases "map_of pending key")
    case None
    with 2(3) have "promote_ready ready pending = (outs, pending')" by simp
    from 2(1) [OF None this 2(4)] show ?thesis using None by simp blast
  next
    case (Some entry)
    with 2(3) obtain outs1 where o: "promote_ready ready (AList.delete key pending) = (outs1, pending')"
      and outs: "outs = pe_event entry # outs1"
      by (auto simp: apfst_def map_prod_def split: prod.splits)
    from 2(4) have "distinct (map fst (AList.delete key pending))"
      by (rule distinct_delete)
    from 2(2) [OF Some o this] have ih: "distinct (map fst pending')"
      "\<forall>p. map_of pending' p = (if p \<in> set ready then None else map_of (AList.delete key pending) p)"
      "\<forall>ev \<in> set outs1. \<exists>p e. p \<in> set ready \<and> map_of (AList.delete key pending) p = Some e \<and> ev = pe_event e"
      by blast+
    from ih(3) have "\<forall>ev \<in> set outs1. \<exists>p e. p \<in> set (key # ready) \<and> map_of pending p = Some e \<and> ev = pe_event e"
      by (fastforce split: if_splits)
    with ih(1,2) Some show ?thesis unfolding outs by auto
  qed
qed


lemma filter_close_step:
  assumes inv: "filter_inv ae hs pending" and ev: "ev_kind event = Close n"
    and step: "filter_close k event n pending = (outs, pending')"
  shows "filter_inv ae (hs @ [(now, k, Received event)]) pending' \<and>
    (\<forall>ev \<in> set outs. earned ae hs (now, k, Received event) ev)"
proof (cases "map_of pending (ev_path event)")
  case None
  with step have "outs = [event]" "pending' = pending"
    by (auto simp: filter_close_def)
  with inv ev show ?thesis
    by (auto simp: filter_inv_def earned_def intro: opened_by_later)
next
  case (Some entry)
  let ?p = "ev_path event" and ?s = "(now, k, Received event)"
  let ?e = "entry\<lparr>pe_open_handles := sub1 (pe_open_handles entry),
     pe_total_bytes_read := add64 (pe_total_bytes_read entry) n\<rparr>"
  from inv Some have ob: "opened_by ae hs ?p entry" and on: "ae_min_access_secs ae \<noteq> 0"
    by (auto simp: filter_inv_def)
  then obtain pre k0 post where hs: "hs = pre @ (pe_inserted_at entry, k0, Received (pe_event entry)) # post"
    and path: "ev_path (pe_event entry) = ?p" and kind: "\<not> is_close (ev_kind (pe_event entry))"
    and floor: "passes_size_floor ae k0 ?p" and total: "pe_total_bytes_read entry \<le> closes_of ?p post"
    unfolding opened_by_def by blast
  have now_total: "pe_total_bytes_read ?e \<le> closes_of ?p (post @ [?s])"
    using total add64_le [of "pe_total_bytes_read entry" n] ev by (simp add: closes_of_def)
  then have ob': "opened_by ae (hs @ [?s]) ?p ?e"
    unfolding opened_by_def hs using path kind floor
    by (intro exI [of _ pre] exI [of _ k0] exI [of _ "post @ [?s]"]) simp
  have earn: "earned ae hs ?s (pe_event entry)"
    if "0 < file_size_or_0 k ?p" "file_size_or_0 k ?p \<le> pe_total_bytes_read ?e"
    unfolding earned_def hs using kind on path floor ev that now_total
    by simp (rule exI [of _ pre], rule exI [of _ "pe_inserted_at entry"], rule exI [of _ k0], rule exI [of _ post], simp)
  have keep: "filter_inv ae (hs @ [?s]) (AList.update ?p ?e pending)"
    using inv on ob' by (auto simp: filter_inv_def intro: distinct_update opened_by_later)
  have gone: "filter_inv ae (hs @ [?s]) (AList.delete ?p pending)"
    using inv on by (auto simp: filter_inv_def intro: distinct_delete opened_by_later)
  show ?thesis
  proof (cases "pe_open_handles ?e = 0")
    case True
    with step Some have "pending' = AList.delete ?p pending"
      "outs = (if 0 < file_size_or_0 k ?p \<and> file_size_or_0 k ?p \<le> pe_total_bytes_read ?e then [pe_event entry] else [])"
      by (auto simp: filter_close_def Let_def)
    with gone earn show ?thesis by auto
  next
    case False
    with step Some have "pending' = AList.update ?p ?e pending" "outs = []"
      by (auto simp: filter_close_def Let_def)
    with keep show ?thesis by simp
  qed
qed


lemma filter_open_step:
  assumes inv: "filter_inv ae hs pending" and ev: "\<not> is_close (ev_kind event)"
    and step: "filter_open ae k now event pending = (outs, pending')"
  shows "filter_inv ae (hs @ [(now, k, Received event)]) pending' \<and>
    (\<forall>ev \<in> set outs. earned ae hs (now, k, Received event) ev)"
proof -
  let ?p = "ev_path event" and ?s = "(now, k, Received event)"
  have keep: "filter_inv ae (hs @ [?s]) pending"
    using inv by (auto simp: filter_inv_def intro: opened_by_later)
  consider (small) "\<not> passes_size_floor ae k ?p"
    | (off) "passes_size_floor ae k ?p" "ae_min_access_secs ae = 0"
    | (again) e where "passes_size_floor ae k ?p" "ae_min_access_secs ae > 0" "map_of pending ?p = Some e"
    | (fresh) "passes_size_floor ae k ?p" "ae_min_access_secs ae > 0" "map_of pending ?p = None"
    by (cases "map_of pending ?p") auto
  then show ?thesis
  proof cases
    case small
    with step keep show ?thesis by (auto simp: filter_open_def)
  next
    case off
    with step keep ev show ?thesis by (auto simp: filter_open_def earned_def)
  next
    case again
    let ?e = "e\<lparr>pe_open_handles := pe_open_handles e + 1\<rparr>"
    from again step have "pending' = AList.update ?p ?e pending" "outs = []"
      by (auto simp: filter_open_def)
    moreover have "opened_by ae (hs @ [?s]) ?p ?e"
      using opened_by_later [of ae hs ?p e ?s] keep again(3) inv
      by (simp add: opened_by_def filter_inv_def)
    ultimately show ?thesis using keep again(2)
      by (auto simp: filter_inv_def intro: distinct_update)
  next
    case fresh
    let ?e = "\<lparr>pe_event = event, pe_inserted_at = now, pe_open_handles = 1, pe_total_bytes_read = 0\<rparr>"
    from fresh step have "pending' = AList.update ?p ?e pending" "outs = []"
      by (auto simp: filter_open_def)
    moreover have "opened_by ae (hs @ [?s]) ?p ?e"
      unfolding opened_by_def using fresh ev by (intro exI [of _ hs] exI [of _ k] exI [of _ "[]"]) simp
    ultimately show ?thesis using keep fresh(2)
      by (auto simp: filter_inv_def intro: distinct_update)
  qed
qed

lemma filter_tick_step:
  assumes inv: "filter_inv ae hs pending" and step: "access_check_tick ae now pending = (outs, pending')"
  shows "filter_inv ae (hs @ [(now, k, Tick)]) pending' \<and> (\<forall>ev \<in> set outs. earned ae hs (now, k, Tick) ev)"
proof (cases "ae_min_access_secs ae = 0")
  case True
  with inv step show ?thesis
    by (auto simp: access_check_tick_def filter_inv_def)
next
  case False
  let ?old = "\<lambda>e. pe_inserted_at e \<le> now - secs (ae_min_access_secs ae)"
  let ?ready = "map fst (filter (\<lambda>(_, e). ?old e) pending)"
  from False step have run: "promote_ready ?ready pending = (outs, pending')"
    by (simp add: access_check_tick_def)
  have d: "distinct (map fst pending)" using inv by (simp add: filter_inv_def)
  note spec = promote_ready_spec [OF run d]
  from spec have inv': "filter_inv ae (hs @ [(now, k, Tick)]) pending'"
    using inv False by (auto simp: filter_inv_def intro: opened_by_later split: if_splits)
  have "earned ae hs (now, k, Tick) ev" if out: "ev \<in> set outs" for ev
  proof -
    from spec out obtain p e where p: "p \<in> set ?ready" "map_of pending p = Some e" and ev: "ev = pe_event e"
      by blast
    from p(1) obtain b where b: "(p, b) \<in> set pending" "?old b" by auto
    with map_of_is_SomeI [OF d b(1)] p(2) have old: "?old e" by simp
    from inv p(2) have "opened_by ae hs p e" by (simp add: filter_inv_def)
    then obtain pre k0 post where "hs = pre @ (pe_inserted_at e, k0, Received (pe_event e)) # post"
      "ev_path (pe_event e) = p" "\<not> is_close (ev_kind (pe_event e))" "passes_size_floor ae k0 p"
      unfolding opened_by_def by blast
    with old False show ?thesis
      unfolding earned_def ev
      by simp (rule exI [of _ pre], rule exI [of _ "pe_inserted_at e"], rule exI [of _ k0], simp)
  qed
  with inv' show ?thesis by blast
qed

lemma engine_step_inv:
  assumes "filter_inv ae hs pending" and "engine_step ae s pending = (outs, pending')"
  shows "filter_inv ae (hs @ [s]) pending' \<and> (\<forall>ev \<in> set outs. earned ae hs s ev)"
proof -
  obtain now k i where s: "s = (now, k, i)" by (cases s) auto
  show ?thesis
  proof (cases i)
    case Tick
    with assms s show ?thesis by (simp add: engine_step_def filter_tick_step)
  next
    case (Received event)
    with assms s filter_close_step [OF assms(1), of event] filter_open_step [OF assms(1), of event] show ?thesis
      by (cases "ev_kind event") (simp_all add: engine_step_def receive_def)
  qed
qed

lemma engine_run_earned:
  assumes "filter_inv ae hs pending" and "engine_run ae ss pending = (outs, pending')"
    and "i < length ss" and "ev \<in> set (outs ! i)"
  shows "earned ae (hs @ take i ss) (ss ! i) ev"
  using assms
proof (induction ss arbitrary: hs pending outs i)
  case Nil
  then show ?case by simp
next
  case (Cons s ss)
  obtain out1 pending1 where one: "engine_step ae s pending = (out1, pending1)" by fastforce
  obtain outs1 where rest: "engine_run ae ss pending1 = (outs1, pending')" and outs: "outs = out1 # outs1"
    using Cons.prems(2) one by (auto simp: apfst_def map_prod_def split: prod.splits)
  note inv = engine_step_inv [OF Cons.prems(1) one]
  show ?case
  proof (cases i)
    case 0
    with inv Cons.prems(4) outs show ?thesis by simp
  next
    case (Suc j)
    with Cons.IH [of "hs @ [s]" pending1 outs1 j] inv rest Cons.prems(3,4) outs show ?thesis by simp
  qed
qed

text \<open>No open is let through twice: the opens let through and those still pending are at most those received.\<close>

definition opens :: "access_event list \<Rightarrow> nat" where
  "opens evs = length (filter (\<lambda>e. \<not> is_close (ev_kind e)) evs)"

definition received :: "(int \<times> backing_kernel \<times> input) list \<Rightarrow> access_event list" where
  "received ss = concat (map (\<lambda>(now, k, i). case i of Tick \<Rightarrow> [] | Received e \<Rightarrow> [e]) ss)"

lemma opens_simps [simp]: "opens [] = 0" "opens (e # es) = (if is_close (ev_kind e) then 0 else 1) + opens es"
  "opens (es @ fs) = opens es + opens fs"
  by (simp_all add: opens_def)

lemma length_delete: "map_of m k = Some v \<Longrightarrow> Suc (length (AList.delete k m)) \<le> length m"
  by (induction m) (auto simp: AList.delete_eq intro: length_filter_le)

lemma length_update: "length (AList.update k v m) = (if map_of m k = None then Suc (length m) else length m)"
  by (induction m) auto

lemma promote_ready_length: "promote_ready ks pending = (outs, pending') \<Longrightarrow> length outs + length pending' \<le> length pending"
proof (induction ks pending arbitrary: outs pending' rule: promote_ready.induct)
  case (2 key ready pending)
  then show ?case
    using length_delete [of pending key]
    by (fastforce simp: apfst_def map_prod_def split: option.splits prod.splits)
qed simp

lemma opens_le: "opens es \<le> length es"
  by (simp add: opens_def)

lemma engine_step_opens:
  assumes "engine_step ae s pending = (outs, pending')"
  shows "opens outs + length pending' \<le> length pending + opens (received [s])"
proof -
  obtain now k i where s: "s = (now, k, i)" by (cases s) auto
  show ?thesis
  proof (cases i)
    case Tick
    with assms s promote_ready_length opens_le [of outs] show ?thesis
      by (fastforce simp: engine_step_def access_check_tick_def received_def split: if_splits)
  next
    case (Received event)
    show ?thesis
    proof (cases "map_of pending (ev_path event)")
      case None
      with assms s Received show ?thesis
        by (auto simp: engine_step_def receive_def filter_close_def filter_open_def received_def length_update
            split: event_kind.splits if_splits)
    next
      case (Some entry)
      with assms s Received length_delete [OF Some] show ?thesis
        by (auto simp: engine_step_def receive_def filter_close_def filter_open_def received_def length_update Let_def
            split: event_kind.splits if_splits)
    qed
  qed
qed

lemma engine_run_opens:
  "engine_run ae ss pending = (outs, pending') \<Longrightarrow>
   opens (concat outs) + length pending' \<le> length pending + opens (received ss)"
proof (induction ss arbitrary: pending outs)
  case Nil
  then show ?case by simp
next
  case (Cons s ss)
  obtain out1 pending1 where one: "engine_step ae s pending = (out1, pending1)" by fastforce
  obtain outs1 where rest: "engine_run ae ss pending1 = (outs1, pending')" and outs: "outs = out1 # outs1"
    using Cons.prems one by (auto simp: apfst_def map_prod_def split: prod.splits)
  have "opens (received (s # ss)) = opens (received [s]) + opens (received ss)"
    by (simp add: received_def)
  with Cons.IH [OF rest] engine_step_opens [OF one] outs show ?case by simp
qed

text \<open>C13. The access filter lets through only what has been earned: every access it hands to the action
  loop is a close, or an open it received earlier that passed the size floor and, when the filter is
  on, either has been pending for \<open>min_access_secs\<close> at that tick, or is completed by a close of the same
  path after which the closes since the open have read at least the whole (non-empty) file. The opens
  it lets through and those still pending are together at most the opens received.\<close>

theorem access_filter_earned:
  assumes "engine_run ae ss [] = (outs, pending)" and "i < length ss" and "ev \<in> set (outs ! i)"
  shows "earned ae (take i ss) (ss ! i) ev \<and> opens (concat outs) + length pending \<le> opens (received ss)"
  using engine_run_earned [of ae "[]", OF _ assms] engine_run_opens [OF assms(1)] by (simp add: filter_inv_def)

section \<open>The pull budget\<close>

text \<open>The candidates that are not in the cache when the loop asks.\<close>

fun uncached :: "cache_manager \<Rightarrow> (nat \<Rightarrow> disk) \<Rightarrow> path list \<Rightarrow> path list" where
  "uncached cm disks [] = []"
| "uncached cm disks (rel # rels) =
     (if is_cached cm (disks (length rels)) rel then uncached cm disks rels else rel # uncached cm disks rels)"

definition sizes :: "backing_kernel \<Rightarrow> path list \<Rightarrow> nat" where
  "sizes k rels = sum_list (map (file_size_or_0 k) rels)"

lemma sizes_simps [simp]: "sizes k [] = 0" "sizes k (r # rs) = file_size_or_0 k r + sizes k rs"
  by (simp_all add: sizes_def)

lemma budget_loop_spec:
  assumes "ae_max_cache_pull_bytes ae > 0" and "t + sizes k (uncached cm disks rels) < 2 ^ 64"
  shows "\<exists>rest. uncached cm disks rels = budget_loop ae cm k disks t first rels @ rest \<and>
    (let subs = budget_loop ae cm k disks t first rels in
      (length subs \<le> (if first then 1 else 0) \<or> t + sizes k subs \<le> ae_max_cache_pull_bytes ae) \<and>
      (rest \<noteq> [] \<longrightarrow> (first \<longrightarrow> subs \<noteq> []) \<and> ae_max_cache_pull_bytes ae < t + sizes k subs + file_size_or_0 k (hd rest)))"
  using assms
proof (induction rels arbitrary: t first)
  case Nil
  then show ?case by simp
next
  case (Cons rel rels)
  let ?n = "file_size_or_0 k rel" and ?max = "ae_max_cache_pull_bytes ae"
  show ?case
  proof (cases "is_cached cm (disks (length rels)) rel")
    case True
    with Cons show ?thesis by simp
  next
    case False
    with Cons.prems have small: "t + ?n < 2 ^ 64" and rest: "(t + ?n) + sizes k (uncached cm disks rels) < 2 ^ 64"
      by simp_all
    from small have add: "add64 t ?n = t + ?n" by (rule add64_small)
    show ?thesis
    proof (cases "\<not> first \<and> t + ?n > ?max")
      case True
      with False Cons.prems add show ?thesis by simp
    next
      case go: False
      let ?subs = "budget_loop ae cm k disks (t + ?n) False rels"
      from Cons.IH [OF Cons.prems(1) rest, of False] obtain rem where rem: "uncached cm disks rels = ?subs @ rem"
        "?subs = [] \<or> t + ?n + sizes k ?subs \<le> ?max" "rem \<noteq> [] \<Longrightarrow> ?max < t + ?n + sizes k ?subs + file_size_or_0 k (hd rem)"
        by (auto simp: Let_def)
      from go False Cons.prems(1) add have "budget_loop ae cm k disks t first (rel # rels) = rel # ?subs"
        by auto
      with False rem go show ?thesis
        by (intro exI [of _ rem]) (auto simp: Let_def)
    qed
  qed
qed

text \<open>C14. Pull budget: with a budget set, the files submitted for one access are the not yet cached
  candidates of the preset in its order, up to the first one that does not fit: together with what
  the mount already caches they stay within the budget unless there is only one, and the first
  candidate left out would have exceeded it.\<close>

theorem pull_budget_respected:
  assumes "ae_max_cache_pull_bytes ae > 0"
    and "total_cached_bytes (cm_mount_id cm) db + sizes k (uncached cm disks (next_paths ae k event)) < 2 ^ 64"
  shows "\<exists>validations subs rest.
    process_event ae cm k db disks event = validations @ map SubmitCache subs \<and>
    set validations \<subseteq> {SubmitValidation (ev_path event)} \<and>
    uncached cm disks (next_paths ae k event) = subs @ rest \<and>
    (length subs \<le> 1 \<or> total_cached_bytes (cm_mount_id cm) db + sizes k subs \<le> ae_max_cache_pull_bytes ae) \<and>
    (rest \<noteq> [] \<longrightarrow> subs \<noteq> [] \<and>
       ae_max_cache_pull_bytes ae < total_cached_bytes (cm_mount_id cm) db + sizes k subs + file_size_or_0 k (hd rest))"
proof -
  let ?t = "total_cached_bytes (cm_mount_id cm) db"
  let ?subs = "budget_loop ae cm k disks ?t True (next_paths ae k event)"
  let ?v = "if ev_kind event = Hit \<and> cm_check_on_hit cm then [SubmitValidation (ev_path event)] else []"
  have "process_event ae cm k db disks event = ?v @ map SubmitCache ?subs"
    using assms(1) by (simp add: process_event_def)
  moreover have "set ?v \<subseteq> {SubmitValidation (ev_path event)}" by auto
  ultimately show ?thesis
    using budget_loop_spec [OF assms, of True] by (simp only: Let_def if_True) metis
qed

section \<open>Requests\<close>

text \<open>A preset that keeps the contract asks for nothing when a file is closed, and what the engine
  issues are steps of the pipeline.\<close>

lemma close_is_silent:
  assumes "cache_preset preset policy" and "ae_preset ae = Some preset" and "ev_kind event = Close n"
  shows "process_event ae cm k db disks event = []"
  using assms cache_preset.silent(1) [OF assms(1)]
  by (simp add: process_event_def next_paths_def preset_actions_def List.map_filter_simps)

lemma issue_step: "io_step cm io (issue cm r io)"
  by (cases r) (simp_all add: issue_def st_check)

lemma issue_reachable: "io_reachable cm n io \<Longrightarrow> io_reachable cm n (fold (issue cm) rs io)"
  by (induction rs arbitrary: io) (auto intro: stepped issue_step)

section \<open>Sample\<close>

definition sample_ae :: action_engine where
  "sample_ae = \<lparr>ae_preset = Some (plex_preset (plex_new 2 [] [] False)), ae_max_cache_pull_bytes = 1000,
     ae_min_access_secs = 60, ae_min_file_size_mb = 0\<rparr>"

definition sample_inputs :: "(int \<times> backing_kernel \<times> input) list" where
  "sample_inputs =
     [(0, show_kernel, Received \<lparr>ev_path = [''m.mkv''], ev_kind = Miss\<rparr>), (61000000000, show_kernel, Tick)]"

lemma sample_engine_run:
  "engine_run sample_ae sample_inputs [] = ([[], [\<lparr>ev_path = [''m.mkv''], ev_kind = Miss\<rparr>]], [])"
  by (simp add: sample_inputs_def engine_step_def receive_def filter_open_def passes_size_floor_def sample_ae_def
      access_check_tick_def secs_def apfst_def)

theorem access_filter_earned_witness:
  "earned sample_ae (take 1 sample_inputs) (sample_inputs ! 1) \<lparr>ev_path = [''m.mkv''], ev_kind = Miss\<rparr> \<and>
   opens (concat [[], [\<lparr>ev_path = [''m.mkv''], ev_kind = Miss\<rparr>]]) + length ([] :: pending) \<le> opens (received sample_inputs)"
  by (rule access_filter_earned [OF sample_engine_run]) (simp_all add: sample_inputs_def)

text \<open>A budget of 1000 with 12 bytes cached admits one of two files of 600 bytes.\<close>

definition pair_ae :: action_engine where
  "pair_ae = sample_ae\<lparr>ae_preset := Some ((default_preset ''pair'')\<lparr>cp_on_miss := \<lambda>k p. [Cache [[''a''], [''b'']]]\<rparr>)\<rparr>"

definition sized_kernel :: backing_kernel where
  "sized_kernel = show_kernel\<lparr>k_openat := \<lambda>p. Inr 3, k_fstat := \<lambda>fd. Some (sample_stat 600 1)\<rparr>"

definition miss_x :: access_event where
  "miss_x = \<lparr>ev_path = [''x''], ev_kind = Miss\<rparr>"

lemma pair_next: "next_paths pair_ae k miss_x = [[''a''], [''b'']]"
  by (simp add: next_paths_def pair_ae_def sample_ae_def default_preset_def preset_actions_def miss_x_def
      cache_paths_def List.map_filter_simps)

lemma sized_file: "file_size_or_0 sized_kernel p = 600"
  by (simp add: sized_kernel_def show_kernel_def file_size_or_0_def file_size_def open_file_def sample_stat_def int_casts)

lemma pair_uncached: "uncached sample_cm (\<lambda>n. sample_disk) [[''a''], [''b'']] = [[''a''], [''b'']]"
  by (simp add: is_cached_def cache_path_def sample_cm_def manager_new_def path_exists_def node_at_def sample_disk_def)

lemma sample_rows_total: "total_cached_bytes [''c''] sample_rows = 12"
  using sample_rows_ok(1)
  by (simp add: total_cached_bytes_def sum_bytes_def mount_rows_def sample_rows_files sample_cm_def manager_new_def
      writable_def max0_u64_def)

theorem pull_budget_respected_witness:
  "\<exists>validations subs rest.
    process_event pair_ae sample_cm sized_kernel sample_rows (\<lambda>n. sample_disk) miss_x = validations @ map SubmitCache subs \<and>
    set validations \<subseteq> {SubmitValidation (ev_path miss_x)} \<and>
    uncached sample_cm (\<lambda>n. sample_disk) (next_paths pair_ae sized_kernel miss_x) = subs @ rest \<and>
    (length subs \<le> 1 \<or> total_cached_bytes (cm_mount_id sample_cm) sample_rows + sizes sized_kernel subs \<le> ae_max_cache_pull_bytes pair_ae) \<and>
    (rest \<noteq> [] \<longrightarrow> subs \<noteq> [] \<and>
       ae_max_cache_pull_bytes pair_ae < total_cached_bytes (cm_mount_id sample_cm) sample_rows + sizes sized_kernel subs + file_size_or_0 sized_kernel (hd rest))"
  by (rule pull_budget_respected)
    (simp_all add: pair_next sized_file pair_uncached sample_rows_total del: uncached.simps, simp add: pair_ae_def sample_ae_def)

end
