(* ===== verification/Inode.thy ===== *)
theory Inode
  imports Prelude
begin

text \<open>
  The inode table (src/src/fuse/inode.rs): the two hash maps between FUSE inode numbers and relative
  paths, with the lookup counts the kernel's forget requests decrement. A hash map is an association
  list with at most one entry per key; its order stands for the map's arbitrary iteration order.
\<close>

section \<open>State and operations\<close>

definition ROOT_INO :: nat where
  "ROOT_INO = 1"

record inode_entry =
  ie_path :: path
  ie_refcount :: nat

record inode_table =
  by_ino :: "(nat \<times> inode_entry) list"
  by_path :: "(path \<times> nat) list"
  next_ino :: nat

definition inode_new :: inode_table where
  "inode_new =
     \<lparr>by_ino = [(ROOT_INO, \<lparr>ie_path = [], ie_refcount = u64_max\<rparr>)],
      by_path = [([], ROOT_INO)],
      next_ino = 2\<rparr>"

definition get_path :: "inode_table \<Rightarrow> nat \<Rightarrow> path option" where
  "get_path t ino = map_option ie_path (map_of (by_ino t) ino)"

definition get_path_ino :: "inode_table \<Rightarrow> path \<Rightarrow> nat option" where
  "get_path_ino t p = map_of (by_path t) p"

definition remove_path :: "path \<Rightarrow> inode_table \<Rightarrow> inode_table" where
  "remove_path p t =
     (if p = [] then t
      else (case map_of (by_path t) p of
              None \<Rightarrow> t
            | Some ino \<Rightarrow> t\<lparr>by_path := AList.delete p (by_path t),
                             by_ino := AList.delete ino (by_ino t)\<rparr>))"

text \<open>One key of by_path is re-pointed: the body shared by the renamed path and its descendants.\<close>

definition move_path :: "path \<Rightarrow> path \<Rightarrow> inode_table \<Rightarrow> inode_table" where
  "move_path p q t =
     (case map_of (by_path t) p of
        None \<Rightarrow> t
      | Some ino \<Rightarrow>
          t\<lparr>by_path := AList.update q ino (AList.delete p (by_path t)),
            by_ino := (case map_of (by_ino t) ino of
                         None \<Rightarrow> by_ino t
                       | Some e \<Rightarrow> AList.update ino (e\<lparr>ie_path := q\<rparr>) (by_ino t))\<rparr>)"

definition move_child :: "path \<Rightarrow> path \<Rightarrow> path \<Rightarrow> inode_table \<Rightarrow> inode_table" where
  "move_child old new child t =
     (case strip_prefix child old of
        None \<Rightarrow> t
      | Some suff \<Rightarrow> move_path child (join new suff) t)"

definition rename_path :: "path \<Rightarrow> path \<Rightarrow> inode_table \<Rightarrow> inode_table" where
  "rename_path old new t =
     (if old = [] then t
      else
        let t1 = move_path old new (remove_path new t);
            descendants = filter (\<lambda>p. starts_with p old \<and> p \<noteq> old) (map fst (by_path t1))
        in fold (move_child old new) descendants t1)"

definition remove_subtree :: "path \<Rightarrow> inode_table \<Rightarrow> inode_table" where
  "remove_subtree p t =
     (if p = [] then t
      else fold remove_path (filter (\<lambda>c. starts_with c p) (map fst (by_path t))) t)"

text \<open>
  \<open>get_mut(&ino).unwrap()\<close> panics when by_path names an inode that by_ino does not hold: None.
\<close>

definition get_or_create :: "path \<Rightarrow> inode_table \<Rightarrow> (nat \<times> inode_table) option" where
  "get_or_create p t =
     (case map_of (by_path t) p of
        Some ino \<Rightarrow>
          (case map_of (by_ino t) ino of
             None \<Rightarrow> None
           | Some e \<Rightarrow>
               Some (ino, t\<lparr>by_ino := AList.update ino
                              (e\<lparr>ie_refcount := sat_add64 (ie_refcount e) 1\<rparr>) (by_ino t)\<rparr>))
      | None \<Rightarrow>
          (let ino = next_ino t
           in Some (ino,
                t\<lparr>next_ino := add64 (next_ino t) 1,
                  by_ino := AList.update ino \<lparr>ie_path = p, ie_refcount = 1\<rparr> (by_ino t),
                  by_path := AList.update p ino (by_path t)\<rparr>)))"

definition forget :: "nat \<Rightarrow> nat \<Rightarrow> inode_table \<Rightarrow> inode_table" where
  "forget ino nlookup t =
     (if ino = ROOT_INO then t
      else
        (case map_of (by_ino t) ino of
           None \<Rightarrow> t
         | Some e \<Rightarrow>
             (let e' = e\<lparr>ie_refcount := ie_refcount e - nlookup\<rparr>
              in if ie_refcount e' = 0
                 then t\<lparr>by_ino := AList.delete ino (by_ino t),
                        by_path := AList.delete (ie_path e) (by_path t)\<rparr>
                 else t\<lparr>by_ino := AList.update ino e' (by_ino t)\<rparr>)))"

section \<open>What each operation does to the two maps\<close>

text \<open>
  \<open>get_path\<close> and \<open>get_path_ino\<close> are the table's two readings; every operation is described by
  what it does to them, and the rest of the theory works with these equations only.
\<close>

lemmas alist_simps = update_conv' delete_conv'

lemmas inode_maps = get_path_def get_path_ino_def alist_simps

lemma ino_remove_path:
  "get_path_ino (remove_path p t) q = (if p \<noteq> [] \<and> q = p then None else get_path_ino t q)"
  "get_path (remove_path p t) i =
     (if p \<noteq> [] \<and> get_path_ino t p = Some i then None else get_path t i)"
  "next_ino (remove_path p t) = next_ino t"
  by (auto simp: remove_path_def inode_maps split: option.splits)

lemma ino_move_path:
  "get_path_ino (move_path p q t) r =
     (if get_path_ino t p = None then get_path_ino t r
      else if r = q then get_path_ino t p else if r = p then None else get_path_ino t r)"
  "get_path (move_path p q t) i =
     (if get_path_ino t p = Some i then map_option (\<lambda>_. q) (get_path t i) else get_path t i)"
  "next_ino (move_path p q t) = next_ino t"
  by (auto simp: move_path_def inode_maps split: option.splits)

lemma ino_forget:
  "get_path (forget i n t) j =
     (if i \<noteq> ROOT_INO \<and> j = i \<and> (\<exists>e. map_of (by_ino t) i = Some e \<and> ie_refcount e \<le> n)
      then None else get_path t j)"
  "get_path_ino (forget i n t) p =
     (if i \<noteq> ROOT_INO \<and> get_path t i = Some p \<and>
         (\<exists>e. map_of (by_ino t) i = Some e \<and> ie_refcount e \<le> n)
      then None else get_path_ino t p)"
  "next_ino (forget i n t) = next_ino t"
  by (auto simp: forget_def inode_maps Let_def split: option.splits)

section \<open>The invariant\<close>

text \<open>
  The two maps are inverse to each other, the root is present, and the next inode number is fresh.
\<close>

definition inode_inv :: "inode_table \<Rightarrow> bool" where
  "inode_inv t \<longleftrightarrow>
     (\<forall>i p. get_path t i = Some p \<longleftrightarrow> get_path_ino t p = Some i) \<and>
     get_path_ino t [] = Some ROOT_INO \<and>
     (\<forall>i p. get_path t i = Some p \<longrightarrow> i < next_ino t) \<and>
     1 < next_ino t"

lemma inode_invD:
  assumes "inode_inv t"
  shows inode_inv_iff: "get_path t i = Some p \<longleftrightarrow> get_path_ino t p = Some i"
    and inode_inv_root: "get_path_ino t [] = Some ROOT_INO"
    and inode_inv_less: "get_path t i = Some p \<Longrightarrow> i < next_ino t"
    and inode_inv_next: "1 < next_ino t"
  using assms by (auto simp: inode_inv_def)

lemma inode_inv_inj:
  assumes "inode_inv t" "get_path_ino t p = Some i" "get_path_ino t q = Some i"
  shows "p = q"
  using assms inode_inv_iff [OF assms(1)] by (metis option.inject)

lemma inode_inv_root_only:
  assumes "inode_inv t" "get_path_ino t p = Some ROOT_INO"
  shows "p = []"
  using assms inode_inv_inj inode_inv_root by blast

lemma inode_inv_new: "inode_inv inode_new"
  by (auto simp: inode_inv_def inode_new_def inode_maps ROOT_INO_def split: if_splits)

lemma inode_inv_remove_path: "inode_inv t \<Longrightarrow> inode_inv (remove_path p t)"
  using inode_inv_inj [of t] unfolding inode_inv_def
  by (auto simp: ino_remove_path split: if_splits)

lemma inode_inv_forget: "inode_inv t \<Longrightarrow> inode_inv (forget i n t)"
  using inode_inv_inj [of t] inode_inv_root_only [of t] unfolding inode_inv_def
  by (auto simp: ino_forget split: if_splits)

lemma inode_inv_remove_subtree: "inode_inv t \<Longrightarrow> inode_inv (remove_subtree p t)"
proof -
  have "inode_inv t \<Longrightarrow> inode_inv (fold remove_path ps t)" for ps
    by (induction ps arbitrary: t) (auto intro: inode_inv_remove_path)
  then show "inode_inv t \<Longrightarrow> ?thesis" by (simp add: remove_subtree_def)
qed

lemma inode_inv_move_path:
  assumes "inode_inv t" "p \<noteq> []" "q \<noteq> []" "get_path_ino t q = None"
  shows "inode_inv (move_path p q t)"
  using assms inode_inv_inj [OF assms(1)] unfolding inode_inv_def
  by (auto simp: ino_move_path split: if_splits)


text \<open>
  Moving a list of distinct descendants of \<open>old\<close>, none of whose new names is taken: each new name
  gets the inode of the old one, the old names disappear, everything else stays.
\<close>

lemma fold_move_child:
  assumes "inode_inv t" and "distinct ds" and "old \<noteq> []" and "new \<noteq> []"
    and "\<forall>s. old @ s \<in> set ds \<longrightarrow> get_path_ino t (old @ s) \<noteq> None"
    and "\<forall>d \<in> set ds. prefix old d"
    and "\<forall>s. old @ s \<in> set ds \<longrightarrow> new @ s \<notin> set ds \<and> get_path_ino t (new @ s) = None"
  shows "inode_inv (fold (move_child old new) ds t) \<and>
     next_ino (fold (move_child old new) ds t) = next_ino t \<and>
     (\<forall>s. old @ s \<in> set ds \<longrightarrow>
        get_path_ino (fold (move_child old new) ds t) (new @ s) = get_path_ino t (old @ s)) \<and>
     (\<forall>q \<in> set ds. get_path_ino (fold (move_child old new) ds t) q = None) \<and>
     (\<forall>q. q \<notin> set ds \<longrightarrow> (\<forall>s. q = new @ s \<longrightarrow> old @ s \<notin> set ds) \<longrightarrow>
        get_path_ino (fold (move_child old new) ds t) q = get_path_ino t q)"
  using assms
proof (induction ds arbitrary: t)
  case Nil
  then show ?case by simp
next
  case (Cons d ds)
  obtain s where d: "d = old @ s" using Cons.prems(6) by (auto simp: prefix_def)
  have some: "get_path_ino t d \<noteq> None" and free: "get_path_ino t (new @ s) = None"
    using Cons.prems(5,7) d by auto
  let ?t = "move_path d (new @ s) t"
  have step: "fold (move_child old new) (d # ds) t = fold (move_child old new) ds ?t"
    by (simp add: move_child_def d)
  have inv: "inode_inv ?t"
    using Cons.prems(1,3,4) free d by (intro inode_inv_move_path) auto
  have notin: "d \<notin> set ds" "new @ s \<noteq> d" "new @ s \<notin> set ds"
    using Cons.prems(2,7) d by auto
  have keep: "\<forall>r. old @ r \<in> set ds \<longrightarrow> get_path_ino ?t (old @ r) = get_path_ino t (old @ r)"
    using notin by (auto simp: ino_move_path)
  have free': "\<forall>r. old @ r \<in> set ds \<longrightarrow> new @ r \<notin> set ds \<and> get_path_ino ?t (new @ r) = None"
    using Cons.prems(7) notin d by (auto simp: ino_move_path)
  have "\<forall>r. old @ r \<in> set ds \<longrightarrow> get_path_ino ?t (old @ r) \<noteq> None"
    using keep Cons.prems(5) by auto
  note IH = Cons.IH [OF inv _ Cons.prems(3,4) this _ free']
  have "distinct ds" "\<forall>d \<in> set ds. prefix old d" using Cons.prems(2,6) by auto
  note IH = IH [OF this]
  have apart: "\<forall>r. old @ r \<in> set ds \<longrightarrow> d \<noteq> new @ r" using Cons.prems(7) by auto
  show ?case
    unfolding step using IH some free notin d keep apart by (auto simp: ino_move_path)
qed

text \<open>
  Renaming: every entry at or below \<open>old\<close> moves to the same place under \<open>new\<close>, keeping its inode
  number; the old names are gone; nothing else changes. The kernel renames a directory only over an
  empty one, so no entry lies below \<open>new\<close>.
\<close>

definition renamed :: "path \<Rightarrow> path \<Rightarrow> path \<Rightarrow> path" where
  "renamed old new p = (if prefix old p then new @ drop (length old) p else p)"

lemma rename_path_start:
  assumes "inode_inv t" and "old \<noteq> []" "new \<noteq> []" and "old \<noteq> new" and "get_path_ino t old \<noteq> None"
  defines "t1 \<equiv> move_path old new (remove_path new t)"
  shows "inode_inv t1" and "next_ino t1 = next_ino t"
    and "get_path_ino t1 q =
      (if q = new then get_path_ino t old else if q = old then None else get_path_ino t q)"
proof -
  show "inode_inv t1"
    unfolding t1_def using assms
    by (intro inode_inv_move_path inode_inv_remove_path) (auto simp: ino_remove_path)
  show "next_ino t1 = next_ino t" "get_path_ino t1 q =
      (if q = new then get_path_ino t old else if q = old then None else get_path_ino t q)"
    unfolding t1_def using assms by (auto simp: ino_move_path ino_remove_path)
qed

lemma set_path_keys: "fst ` set (by_path t) = {p. get_path_ino t p \<noteq> None}"
  by (auto simp: get_path_ino_def) (metis image_eqI fst_conv map_of_eq_None_iff not_None_eq)+

lemma distinct_path_keys:
  "distinct (map fst (by_path t)) \<Longrightarrow>
   distinct (map fst (by_path (move_path p q (remove_path r t))))"
  by (auto simp: move_path_def remove_path_def distinct_update distinct_delete split: option.splits)

lemma rename_path_correct:
  assumes inv: "inode_inv t" and ne: "old \<noteq> []" "new \<noteq> []" and np: "\<not> prefix old new"
    and below: "\<forall>s. s \<noteq> [] \<longrightarrow> get_path_ino t (new @ s) = None"
    and dom: "distinct (map fst (by_path t))" and some: "get_path_ino t old \<noteq> None"
  shows "inode_inv (rename_path old new t) \<and> next_ino (rename_path old new t) = next_ino t \<and>
     get_path_ino (rename_path old new t) = (\<lambda>q. case strip_prefix q new of
         Some s \<Rightarrow> get_path_ino t (old @ s)
       | None \<Rightarrow> if prefix old q then None else get_path_ino t q)"
proof -
  define t1 where "t1 = move_path old new (remove_path new t)"
  define ds where "ds = filter (\<lambda>p. starts_with p old \<and> p \<noteq> old) (map fst (by_path t1))"
  have nn: "old \<noteq> new" using np by auto
  have np2: "\<not> prefix new old"
    using below some nn by (auto simp: prefix_def)
  note start = rename_path_start [OF inv ne nn some, folded t1_def]
  have ds_iff: "d \<in> set ds \<longleftrightarrow> (\<exists>s. d = old @ s \<and> s \<noteq> []) \<and> get_path_ino t d \<noteq> None" for d
    using np by (auto simp: ds_def set_path_keys starts_with_iff start(3) prefix_def)
  have new_notin: "new @ s \<notin> set ds" for s
    using below np by (cases "s = []") (auto simp: ds_iff prefix_def)
  have free: "old @ s \<in> set ds \<Longrightarrow> get_path_ino t1 (new @ s) = None" for s
    using below np2 by (auto simp: ds_iff start(3) prefix_def)
  have keep: "old @ s \<in> set ds \<Longrightarrow> get_path_ino t1 (old @ s) = get_path_ino t (old @ s)" for s
    using np by (auto simp: ds_iff start(3) prefix_def)
  have moved: "inode_inv (fold (move_child old new) ds t1) \<and>
     next_ino (fold (move_child old new) ds t1) = next_ino t1 \<and>
     (\<forall>s. old @ s \<in> set ds \<longrightarrow>
        get_path_ino (fold (move_child old new) ds t1) (new @ s) = get_path_ino t1 (old @ s)) \<and>
     (\<forall>q \<in> set ds. get_path_ino (fold (move_child old new) ds t1) q = None) \<and>
     (\<forall>q. q \<notin> set ds \<longrightarrow> (\<forall>s. q = new @ s \<longrightarrow> old @ s \<notin> set ds) \<longrightarrow>
        get_path_ino (fold (move_child old new) ds t1) q = get_path_ino t1 q)"
  proof (rule fold_move_child [OF start(1) _ ne])
    show "distinct ds" using distinct_path_keys [OF dom] by (simp add: ds_def t1_def)
    show "\<forall>s. old @ s \<in> set ds \<longrightarrow> get_path_ino t1 (old @ s) \<noteq> None" using keep by (simp add: ds_iff)
    show "\<forall>d \<in> set ds. prefix old d" by (auto simp: ds_iff)
    show "\<forall>s. old @ s \<in> set ds \<longrightarrow> new @ s \<notin> set ds \<and> get_path_ino t1 (new @ s) = None"
      using new_notin free by blast
  qed
  have t': "rename_path old new t = fold (move_child old new) ds t1"
    by (simp add: rename_path_def ne Let_def t1_def ds_def)
  have "get_path_ino (rename_path old new t) q = (case strip_prefix q new of
         Some s \<Rightarrow> get_path_ino t (old @ s)
       | None \<Rightarrow> if prefix old q then None else get_path_ino t q)" for q
  proof (cases "strip_prefix q new")
    case None
    then have nq: "\<not> (\<exists>s. q = new @ s)" by (simp add: strip_prefix_None starts_with_iff)
    show ?thesis
    proof (cases "q \<in> set ds")
      case True
      then show ?thesis using moved None by (auto simp: t' ds_iff)
    next
      case False
      then have "get_path_ino (rename_path old new t) q = get_path_ino t1 q"
        using moved nq by (auto simp: t')
      then show ?thesis using None False nq ds_iff [of q] by (auto simp: start(3) prefix_def)
    qed
  next
    case (Some s)
    then have q: "q = new @ s" by (simp add: strip_prefix_Some)
    show ?thesis
    proof (cases "old @ s \<in> set ds")
      case True
      then show ?thesis using moved Some q keep by (simp add: t')
    next
      case False
      then have "get_path_ino (rename_path old new t) q = get_path_ino t1 q"
        using moved q new_notin by (simp add: t')
      then show ?thesis using Some q False ds_iff [of "old @ s"] below np2
        by (cases "s = []") (auto simp: start(3) prefix_def)
    qed
  qed
  then show ?thesis using moved start(2) by (auto simp: t')
qed


text \<open>Looking a path up or creating it: an existing entry keeps its number, a new one is fresh.\<close>

lemma ino_get_or_create:
  assumes "get_or_create p t = Some (i, t')"
  shows "get_path_ino t' q = (if q = p then Some i else get_path_ino t q)"
    and "get_path_ino t p \<noteq> None \<Longrightarrow> get_path t' j = get_path t j \<and> next_ino t' = next_ino t"
    and "get_path_ino t p = None \<Longrightarrow>
           i = next_ino t \<and> next_ino t' = add64 (next_ino t) 1 \<and>
           get_path t' j = (if j = i then Some p else get_path t j)"
  using assms by (auto simp: get_or_create_def inode_maps Let_def split: option.splits)

lemma get_or_create_total: "inode_inv t \<Longrightarrow> get_or_create p t \<noteq> None"
proof -
  assume inv: "inode_inv t"
  have "\<And>i. map_of (by_path t) p = Some i \<Longrightarrow> map_of (by_ino t) i \<noteq> None"
    using inode_inv_iff [OF inv] by (force simp: inode_maps)
  then show ?thesis by (auto simp: get_or_create_def Let_def split: option.splits)
qed

lemma inode_inv_get_or_create:
  assumes inv: "inode_inv t" and g: "get_or_create p t = Some (i, t')" and b: "next_ino t < u64_max"
  shows "inode_inv t'"
proof (cases "get_path_ino t p")
  case None
  have fresh: "get_path t (next_ino t) = None"
    using inode_inv_less [OF inv, of "next_ino t"] by (cases "get_path t (next_ino t)") auto
  have unused: "get_path_ino t q \<noteq> Some (next_ino t)" for q
    using fresh inode_inv_iff [OF inv, of "next_ino t" q] by simp
  have "add64 (next_ino t) 1 = Suc (next_ino t)"
    using b by (simp add: add64_def u64_max_def)
  then show ?thesis
    using inv None fresh unused ino_get_or_create [OF g] unfolding inode_inv_def
    by (auto simp: less_Suc_eq split: if_splits)
next
  case (Some k)
  then have "i = k" using g by (auto simp: get_or_create_def inode_maps split: option.splits)
  then show ?thesis
    using inv Some ino_get_or_create [OF g] unfolding inode_inv_def by (auto split: if_splits)
qed

lemma inode_inv_rename_path:
  assumes "inode_inv t" "old \<noteq> []" "new \<noteq> []" "\<not> prefix old new" "get_path_ino t old \<noteq> None"
    "\<forall>s. s \<noteq> [] \<longrightarrow> get_path_ino t (new @ s) = None" "distinct (map fst (by_path t))"
  shows "inode_inv (rename_path old new t)"
  using rename_path_correct [OF assms(1-4) assms(6,7,5)] by blast

section \<open>Keys stay unique\<close>

abbreviation path_keys :: "inode_table \<Rightarrow> bool" where
  "path_keys t \<equiv> distinct (map fst (by_path t))"

lemma path_keys_move_path: "path_keys t \<Longrightarrow> path_keys (move_path p q t)"
  by (simp add: move_path_def distinct_update distinct_delete split: option.splits)

lemma path_keys_remove_path: "path_keys t \<Longrightarrow> path_keys (remove_path p t)"
  by (simp add: remove_path_def distinct_delete split: option.splits)

lemma path_keys_fold:
  assumes "\<And>x u. path_keys u \<Longrightarrow> path_keys (f x u)"
  shows "path_keys t \<Longrightarrow> path_keys (fold f xs t)"
  using assms by (induction xs arbitrary: t) auto

lemma path_keys_ops:
  assumes "path_keys t"
  shows "path_keys (remove_subtree p t)" "path_keys (rename_path old new t)"
    "path_keys (forget i n t)"
    "get_or_create p t = Some (i, t') \<Longrightarrow> path_keys t'"
proof -
  show "path_keys (remove_subtree p t)"
    unfolding remove_subtree_def using assms by (auto intro!: path_keys_fold path_keys_remove_path)
  have "path_keys u \<Longrightarrow> path_keys (move_child old new d u)" for d u
    by (simp add: move_child_def path_keys_move_path split: option.splits)
  then show "path_keys (rename_path old new t)"
    unfolding rename_path_def Let_def using assms
    by (auto intro!: path_keys_fold path_keys_move_path path_keys_remove_path)
  show "path_keys (forget i n t)"
    using assms by (simp add: forget_def Let_def distinct_delete split: option.splits)
  show "get_or_create p t = Some (i, t') \<Longrightarrow> path_keys t'"
    using assms by (auto simp: get_or_create_def Let_def distinct_update split: option.splits)
qed

section \<open>Reachable tables\<close>

text \<open>
  The requests that change the table. A rename reaches the table after renameat succeeded, so the
  kernel has excluded moving a directory into itself and moving over a non-empty directory.
\<close>

inductive inode_step :: "inode_table \<Rightarrow> inode_table \<Rightarrow> bool" where
  lookup: "get_or_create p t = Some (i, t') \<Longrightarrow> next_ino t < u64_max \<Longrightarrow> inode_step t t'"
| forgotten: "inode_step t (forget i n t)"
| unlinked: "inode_step t (remove_path p t)"
| rmdired: "inode_step t (remove_subtree p t)"
| renamed: "old \<noteq> [] \<Longrightarrow> new \<noteq> [] \<Longrightarrow> \<not> prefix old new \<Longrightarrow> get_path_ino t old \<noteq> None \<Longrightarrow>
     \<forall>s. s \<noteq> [] \<longrightarrow> get_path_ino t (new @ s) = None \<Longrightarrow> inode_step t (rename_path old new t)"

inductive inode_reachable :: "inode_table \<Rightarrow> bool" where
  start: "inode_reachable inode_new"
| step: "inode_reachable t \<Longrightarrow> inode_step t t' \<Longrightarrow> inode_reachable t'"

lemma inode_step_inv: "inode_step t t' \<Longrightarrow> inode_inv t \<and> path_keys t \<Longrightarrow> inode_inv t' \<and> path_keys t'"
  by (induction rule: inode_step.induct)
    (auto intro: inode_inv_get_or_create inode_inv_forget inode_inv_remove_path
       inode_inv_remove_subtree inode_inv_rename_path path_keys_remove_path path_keys_ops)

lemma inode_reachable_inv: "inode_reachable t \<Longrightarrow> inode_inv t \<and> path_keys t"
proof (induction rule: inode_reachable.induct)
  case start
  show ?case using inode_inv_new by (simp add: inode_new_def)
next
  case (step t t')
  then show ?case using inode_step_inv by blast
qed


text \<open>A rename keeps every inode number: what was at or below the old path is found, with the
  same number, at the same place below the new path; the old paths are gone and no other entry
  changes.\<close>

theorem rename_keeps_inodes:
  assumes "inode_reachable t" and "old \<noteq> []" "new \<noteq> []" and "\<not> prefix old new"
    and "\<forall>s. s \<noteq> [] \<longrightarrow> get_path_ino t (new @ s) = None" and "get_path_ino t old \<noteq> None"
  shows "get_path_ino (rename_path old new t) = (\<lambda>q. case strip_prefix q new of
         Some s \<Rightarrow> get_path_ino t (old @ s)
       | None \<Rightarrow> if prefix old q then None else get_path_ino t q)"
  using rename_path_correct [OF _ assms(2-5) _ assms(6)] inode_reachable_inv [OF assms(1)] by blast

text \<open>A path that is looked up gets an inode number that names it from then on; a path already
  known keeps its number, and every other entry is untouched.\<close>

theorem get_or_create_spec:
  assumes "inode_reachable t" and "next_ino t < u64_max"
  shows "\<exists>i t'. get_or_create p t = Some (i, t') \<and> get_path t' i = Some p \<and>
     (\<forall>k. get_path_ino t p = Some k \<longrightarrow> i = k) \<and>
     (\<forall>j q. get_path t j = Some q \<longrightarrow> get_path t' j = Some q) \<and> inode_reachable t'"
proof -
  have inv: "inode_inv t" using inode_reachable_inv [OF assms(1)] by blast
  obtain i t' where g: "get_or_create p t = Some (i, t')"
    using get_or_create_total [OF inv, of p] by auto
  note eqs = ino_get_or_create [OF g]
  have inv': "inode_inv t'" by (rule inode_inv_get_or_create [OF inv g assms(2)])
  have "get_path t' i = Some p" using eqs(1) [of p] inode_inv_iff [OF inv'] by simp
  moreover have "\<forall>k. get_path_ino t p = Some k \<longrightarrow> i = k"
    using g by (auto simp: get_or_create_def inode_maps split: option.splits)
  moreover have "get_path t j = Some q \<longrightarrow> get_path t' j = Some q" for j q
    using eqs(2,3) [of j] inode_inv_less [OF inv, of j q] by (cases "get_path_ino t p") auto
  moreover have "inode_reachable t'" using assms inode_step.lookup [OF g] inode_reachable.step by blast
  ultimately show ?thesis using g by blast
qed

section \<open>Witnesses\<close>

definition table_ab :: inode_table where
  "table_ab =
     (case get_or_create [''a''] inode_new of None \<Rightarrow> inode_new
      | Some (_, t) \<Rightarrow> (case get_or_create [''a'', ''x''] t of None \<Rightarrow> t | Some (_, u) \<Rightarrow> u))"

lemma table_ab_eval:
  "table_ab =
     \<lparr>by_ino = [(1, \<lparr>ie_path = [], ie_refcount = u64_max\<rparr>),
                (2, \<lparr>ie_path = [''a''], ie_refcount = 1\<rparr>),
                (3, \<lparr>ie_path = [''a'', ''x''], ie_refcount = 1\<rparr>)],
      by_path = [([], 1), ([''a''], 2), ([''a'', ''x''], 3)],
      next_ino = 4\<rparr>"
  by (simp add: table_ab_def inode_new_def get_or_create_def ROOT_INO_def add64_def)

lemma table_ab_reachable: "inode_reachable table_ab"
proof -
  obtain t where t: "get_or_create [''a''] inode_new = Some (2, t)" "next_ino t = 3"
    by (simp add: inode_new_def get_or_create_def ROOT_INO_def add64_def)
  have "inode_reachable t"
    using inode_reachable.step [OF inode_reachable.start inode_step.lookup [OF t(1)]]
    by (simp add: inode_new_def u64_max_def)
  moreover have "get_or_create [''a'', ''x''] t = Some (3, table_ab)"
    using t(1) by (auto simp: table_ab_def inode_new_def get_or_create_def ROOT_INO_def add64_def)
  ultimately show ?thesis
    using inode_reachable.step inode_step.lookup t(2) by (fastforce simp: u64_max_def)
qed


theorem rename_keeps_inodes_witness:
  "get_path_ino (rename_path [''a''] [''b''] table_ab) [''b'', ''x''] = Some 3 \<and>
   get_path_ino (rename_path [''a''] [''b''] table_ab) [''a'', ''x''] = None"
proof -
  have "get_path_ino (rename_path [''a''] [''b''] table_ab) = (\<lambda>q. case strip_prefix q [''b''] of
         Some s \<Rightarrow> get_path_ino table_ab ([''a''] @ s)
       | None \<Rightarrow> if prefix [''a''] q then None else get_path_ino table_ab q)"
    by (rule rename_keeps_inodes [OF table_ab_reachable]) (auto simp: table_ab_eval get_path_ino_def)
  then show ?thesis by (simp add: table_ab_eval get_path_ino_def strip_prefix_def)
qed

theorem get_or_create_spec_witness:
  "next_ino table_ab < u64_max \<and>
   (\<exists>i t'. get_or_create [''c''] table_ab = Some (i, t') \<and> get_path t' i = Some [''c''])"
proof -
  have h: "next_ino table_ab < u64_max" by (simp add: table_ab_eval u64_max_def)
  show ?thesis using h get_or_create_spec [OF table_ab_reachable h, of "[''c'']"] by blast
qed

text \<open>
  The hypothesis of the rename theorem matters: \<open>rename_path\<close> drops the entry at \<open>new\<close> but not
  entries below it, which a directory removed behind the mount's back leaves behind. Two inodes then
  claim the same path.
\<close>

lemma rename_over_stale_children:
  "\<exists>t. get_path t 5 = Some [''b'', ''x''] \<and> inode_inv t \<and>
     get_path (rename_path [''a''] [''b''] t) 5 = Some [''b'', ''x''] \<and>
     get_path (rename_path [''a''] [''b''] t) 3 = Some [''b'', ''x'']"
proof -
  let ?e = "\<lambda>p. \<lparr>ie_path = p, ie_refcount = 1\<rparr>"
  let ?t = "\<lparr>by_ino = [(1, ?e []), (2, ?e [''a'']), (3, ?e [''a'', ''x'']), (4, ?e [''b'']),
                       (5, ?e [''b'', ''x''])],
             by_path = [([], 1), ([''a''], 2), ([''a'', ''x''], 3), ([''b''], 4), ([''b'', ''x''], 5)],
             next_ino = 6\<rparr>"
  have "inode_inv ?t"
    by (auto simp: inode_inv_def inode_maps ROOT_INO_def split: if_splits)
  moreover have "get_path (rename_path [''a''] [''b''] ?t) 5 = Some [''b'', ''x''] \<and>
     get_path (rename_path [''a''] [''b''] ?t) 3 = Some [''b'', ''x'']"
    by (simp add: rename_path_def remove_path_def move_path_def move_child_def strip_prefix_def
        starts_with_def get_path_def)
  ultimately show ?thesis by (intro exI [of _ ?t]) (simp add: get_path_def)
qed

end
