(* ===== verification/Fuse.thy ===== *)
theory Fuse
  imports Syscalls ActionEngine Inode
begin

text \<open>
  The FUSE filesystem, its state and its read side (src/src/fuse/fusefs.rs, read.rs): attributes,
  lookup, getattr, open, read, release and readdir. A handler is an action of the state monad; the
  session calls one handler at a time. The receivers of the event channels are other tasks: what a
  handler sends is appended to a list. A handler that panics answers \<open>RPanic\<close>.
\<close>

section \<open>State\<close>

datatype open_outcome = HitOutcome | MissOutcome | FilteredOutcome

datatype discovery_call = LogTouch nat | LogOpen process_info open_outcome

text \<open>What does not change after the mount, and what does.\<close>

record fs_config =
  fc_passthrough_mode :: bool
  fc_cache :: "cache_manager option"
  fc_access_tx :: bool
  fc_repeat_log_window :: int
  fc_preset :: "cache_preset_methods option"
  fc_discovery :: bool
  fc_backing_watch :: bool

record 'k fs_state =
  fs_inodes :: inode_table
  fs_recent_logs :: "(path \<times> int) list"
  fs_open_bytes :: "(nat \<times> nat) list"
  fs_open_paths :: "(nat \<times> path) list"
  fs_write_paths :: "(nat \<times> path) list"
  fs_append_handles :: "nat list"
  fs_disk :: disk
  fs_db :: cache_db
  fs_events :: "access_event list"
  fs_touches :: "(path \<times> nat) list"
  fs_discovery :: "discovery_call list"
  fs_kernel :: 'k

definition fs_new :: "'k \<Rightarrow> disk \<Rightarrow> cache_db \<Rightarrow> 'k fs_state" where
  "fs_new k d db = \<lparr>fs_inodes = inode_new, fs_recent_logs = [], fs_open_bytes = [], fs_open_paths = [],
     fs_write_paths = [], fs_append_handles = [], fs_disk = d, fs_db = db, fs_events = [], fs_touches = [],
     fs_discovery = [], fs_kernel = k\<rparr>"

record fuse_request =
  rq_pid :: nat
  rq_uid :: u32
  rq_gid :: u32

definition ENOENT :: errno where "ENOENT = 2"

definition kernel :: "('k, 'a) state \<Rightarrow> ('k fs_state, 'a) state" where
  "kernel m = State (\<lambda>s. case run_state m (fs_kernel s) of (a, k) \<Rightarrow> (a, s\<lparr>fs_kernel := k\<rparr>))"

definition gets :: "('s \<Rightarrow> 'a) \<Rightarrow> ('s, 'a) state" where
  "gets f = do { s \<leftarrow> State_Monad.get; State_Monad.return (f s) }"

section \<open>Attributes\<close>

datatype file_type = Directory | Symlink | BlockDevice | CharDevice | NamedPipe | Socket | RegularFile

record file_attr =
  fa_ino :: nat
  fa_size :: nat
  fa_blocks :: nat
  fa_atime :: "nat \<times> nat"
  fa_mtime :: "nat \<times> nat"
  fa_ctime :: "nat \<times> nat"
  fa_crtime :: "nat \<times> nat"
  fa_kind :: file_type
  fa_perm :: "16 word"
  fa_nlink :: u32
  fa_uid :: u32
  fa_gid :: u32
  fa_rdev :: u32
  fa_blksize :: u32
  fa_flags :: u32

definition mode_to_filetype :: "u32 \<Rightarrow> file_type" where
  "mode_to_filetype mode =
     (let fmt = mode AND S_IFMT
      in if fmt = S_IFDIR then Directory
         else if fmt = S_IFLNK then Symlink
         else if fmt = S_IFBLK then BlockDevice
         else if fmt = S_IFCHR then CharDevice
         else if fmt = S_IFIFO then NamedPipe
         else if fmt = S_IFSOCK then Socket
         else RegularFile)"

text \<open>
  \<open>UNIX_EPOCH + Duration::new(secs, nanos)\<close>: whole seconds in the nanoseconds carry, and a time whose
  seconds do not fit an i64 panics: None.
\<close>

definition epoch_plus :: "nat \<Rightarrow> u32 \<Rightarrow> (nat \<times> nat) option" where
  "epoch_plus sec nanos =
     (let s = sec + unat nanos div 1000000000
      in if s < 2 ^ 63 then Some (s, unat nanos mod 1000000000) else None)"

definition stat_to_attr :: "nat \<Rightarrow> stat \<Rightarrow> file_attr option" where
  "stat_to_attr ino s =
     (case (epoch_plus (as_u64 (st_atime s)) (word_of_int (st_atime_nsec s)),
            epoch_plus (as_u64 (st_mtime s)) (word_of_int (st_mtime_nsec s)),
            epoch_plus (as_u64 (st_ctime s)) (word_of_int (st_ctime_nsec s))) of
        (Some at, Some mt, Some ct) \<Rightarrow>
          Some \<lparr>fa_ino = ino, fa_size = as_u64 (st_size s), fa_blocks = as_u64 (st_blocks s),
            fa_atime = at, fa_mtime = mt, fa_ctime = ct, fa_crtime = (0, 0),
            fa_kind = mode_to_filetype (st_mode s), fa_perm = ucast (st_mode s AND 0xFFF),
            fa_nlink = of_nat (st_nlink s), fa_uid = st_uid s, fa_gid = st_gid s,
            fa_rdev = of_nat (st_rdev s), fa_blksize = word_of_int (st_blksize s), fa_flags = 0\<rparr>
      | _ \<Rightarrow> None)"

definition source_metadata_to_attr :: "nat \<Rightarrow> source_metadata \<Rightarrow> file_attr option" where
  "source_metadata_to_attr ino m =
     (case (epoch_plus (max0_u64 (sm_atime_sec m)) (max0_u32 (sm_atime_nsec m)),
            epoch_plus (max0_u64 (sm_mtime_sec m)) (max0_u32 (sm_mtime_nsec m)),
            epoch_plus (max0_u64 (sm_ctime_sec m)) (max0_u32 (sm_ctime_nsec m))) of
        (Some at, Some mt, Some ct) \<Rightarrow>
          Some \<lparr>fa_ino = ino, fa_size = sm_size m, fa_blocks = sm_blocks m,
            fa_atime = at, fa_mtime = mt, fa_ctime = ct, fa_crtime = (0, 0),
            fa_kind = RegularFile, fa_perm = ucast (sm_mode m AND 0xFFF),
            fa_nlink = of_nat (sm_nlink m), fa_uid = sm_uid m, fa_gid = sm_gid m,
            fa_rdev = of_nat (sm_rdev m), fa_blksize = sm_blksize m, fa_flags = 0\<rparr>
      | _ \<Rightarrow> None)"

text \<open>Some None is the panic of the conversion.\<close>

definition cached_regular_attr ::
  "fs_config \<Rightarrow> 'k machine \<Rightarrow> path \<Rightarrow> nat \<Rightarrow> ('k fs_state, file_attr option option) state" where
  "cached_regular_attr fc sys rel_path ino =
     (case fc_cache fc of
        None \<Rightarrow> State_Monad.return None
      | Some cache \<Rightarrow> do {
          s \<leftarrow> State_Monad.get;
          (if \<not> is_cached cache (fs_disk s) rel_path then State_Monad.return None
           else (case source_metadata cache (fs_db s) rel_path of
                   Some snapshot \<Rightarrow> State_Monad.return (Some (source_metadata_to_attr ino snapshot))
                 | None \<Rightarrow> do {
                     st \<leftarrow> kernel (sys_stat sys rel_path);
                     (case st of
                        None \<Rightarrow> State_Monad.return None
                      | Some stat \<Rightarrow> do {
                          _ \<leftarrow> State_Monad.update (\<lambda>s. s\<lparr>fs_db := refresh_source_metadata cache rel_path stat (fs_db s)\<rparr>);
                          State_Monad.return (Some (stat_to_attr ino stat)) }) })) })"

section \<open>Paths and inodes\<close>

definition path_for_ino :: "nat \<Rightarrow> ('k fs_state, errno + path) state" where
  "path_for_ino ino = gets (\<lambda>s. case get_path (fs_inodes s) ino of None \<Rightarrow> Inl ENOENT | Some p \<Rightarrow> Inr p)"

definition child_path :: "nat \<Rightarrow> string \<Rightarrow> ('k fs_state, errno + path) state" where
  "child_path dir_ino name = gets (\<lambda>s. case get_path (fs_inodes s) dir_ino of
     None \<Rightarrow> Inl ENOENT
   | Some dir \<Rightarrow> Inr (if dir = [] then [name] else join dir [name]))"

text \<open>None is the panic of get_or_create.\<close>

definition inode_for :: "path \<Rightarrow> ('k fs_state, nat option) state" where
  "inode_for p = State (\<lambda>s. case get_or_create p (fs_inodes s) of
     None \<Rightarrow> (None, s)
   | Some (ino, t) \<Rightarrow> (Some ino, s\<lparr>fs_inodes := t\<rparr>))"

datatype reply = RError errno | RPanic | ROk | REntry file_attr | RAttr file_attr | ROpened fd
  | RCreated file_attr fd | RData bytes | RWritten nat | RSize nat | RDirectory "(nat \<times> nat \<times> file_type \<times> string) list"
  | RStatfs statfs_answer

definition reply_attr :: "(file_attr \<Rightarrow> reply) \<Rightarrow> file_attr option \<Rightarrow> reply" where
  "reply_attr mk a = (case a of None \<Rightarrow> RPanic | Some attr \<Rightarrow> mk attr)"

definition log_touch :: "fs_config \<Rightarrow> fuse_request \<Rightarrow> ('k fs_state, unit) state" where
  "log_touch fc req = State_Monad.update
     (\<lambda>s. if fc_discovery fc then s\<lparr>fs_discovery := fs_discovery s @ [LogTouch (rq_pid req)]\<rparr> else s)"

section \<open>Lookup and getattr\<close>

definition do_lookup ::
  "fs_config \<Rightarrow> 'k machine \<Rightarrow> fuse_request \<Rightarrow> nat \<Rightarrow> string \<Rightarrow> ('k fs_state, reply) state" where
  "do_lookup fc sys req dir_ino name = do {
     found \<leftarrow> child_path dir_ino name;
     (case found of
        Inl e \<Rightarrow> State_Monad.return (RError e)
      | Inr child \<Rightarrow> do {
          ino \<leftarrow> inode_for child;
          (case ino of
             None \<Rightarrow> State_Monad.return RPanic
           | Some ino \<Rightarrow> do {
               cached \<leftarrow> cached_regular_attr fc sys child ino;
               (case cached of
                  Some attr \<Rightarrow>
                    (case attr of
                       None \<Rightarrow> State_Monad.return RPanic
                     | Some attr \<Rightarrow> do { _ \<leftarrow> log_touch fc req; State_Monad.return (REntry attr) })
                | None \<Rightarrow> do {
                    st \<leftarrow> kernel (sys_stat sys child);
                    (case st of
                       None \<Rightarrow> State_Monad.return (RError ENOENT)
                     | Some stat \<Rightarrow> do {
                         _ \<leftarrow> log_touch fc req;
                         _ \<leftarrow> State_Monad.update (\<lambda>s.
                                if st_mode stat AND S_IFMT = S_IFDIR \<and> fc_backing_watch fc
                                then s\<lparr>fs_touches := fs_touches s @ [(child, ino)]\<rparr> else s);
                         State_Monad.return (reply_attr REntry (stat_to_attr ino stat)) }) }) }) }) }"

definition do_getattr :: "fs_config \<Rightarrow> 'k machine \<Rightarrow> fuse_request \<Rightarrow> nat \<Rightarrow> ('k fs_state, reply) state" where
  "do_getattr fc sys req ino = do {
     found \<leftarrow> path_for_ino ino;
     (case found of
        Inl e \<Rightarrow> State_Monad.return (RError e)
      | Inr path \<Rightarrow> do {
          cached \<leftarrow> cached_regular_attr fc sys path ino;
          (case cached of
             Some attr \<Rightarrow>
               (case attr of
                  None \<Rightarrow> State_Monad.return RPanic
                | Some attr \<Rightarrow> do { _ \<leftarrow> log_touch fc req; State_Monad.return (RAttr attr) })
           | None \<Rightarrow> do {
               st \<leftarrow> kernel (sys_stat sys path);
               (case st of
                  None \<Rightarrow> State_Monad.return (RError ENOENT)
                | Some stat \<Rightarrow> do {
                    _ \<leftarrow> log_touch fc req;
                    State_Monad.return (reply_attr RAttr (stat_to_attr ino stat)) }) }) }) }"

definition fuse_forget :: "nat \<Rightarrow> nat \<Rightarrow> ('k fs_state, unit) state" where
  "fuse_forget ino nlookup = State_Monad.update (\<lambda>s. s\<lparr>fs_inodes := forget ino nlookup (fs_inodes s)\<rparr>)"

definition fresh_attr_for_path :: "'k machine \<Rightarrow> path \<Rightarrow> ('k fs_state, errno + file_attr option) state" where
  "fresh_attr_for_path sys path = do {
     st \<leftarrow> kernel (sys_stat sys path);
     (case st of
        None \<Rightarrow> State_Monad.return (Inl ENOENT)
      | Some stat \<Rightarrow> do {
          ino \<leftarrow> inode_for path;
          (case ino of
             None \<Rightarrow> State_Monad.return (Inr None)
           | Some ino \<Rightarrow> State_Monad.return (Inr (stat_to_attr ino stat))) }) }"

section \<open>Open\<close>

definition should_suppress_log :: "fs_config \<Rightarrow> int \<Rightarrow> path \<Rightarrow> ('k fs_state, bool) state" where
  "should_suppress_log fc now path =
     (if fc_repeat_log_window fc = 0 then State_Monad.return False
      else do {
        s \<leftarrow> State_Monad.get;
        let recent = (if length (fs_recent_logs s) > 1000
                      then filter (\<lambda>(_, t). max 0 (now - t) < fc_repeat_log_window fc) (fs_recent_logs s)
                      else fs_recent_logs s);
        let known = (case map_of recent path of None \<Rightarrow> False | Some t \<Rightarrow> max 0 (now - t) < fc_repeat_log_window fc);
        _ \<leftarrow> State_Monad.set (s\<lparr>fs_recent_logs := (if known then recent else AList.update path now recent)\<rparr>);
        State_Monad.return known })"

definition is_write_intent :: "u32 \<Rightarrow> bool" where
  "is_write_intent flags =
     (let access_mode = flags AND O_ACCMODE
      in access_mode = O_WRONLY \<or> access_mode = O_RDWR \<or> flags AND (O_TRUNC OR O_APPEND) \<noteq> 0)"

definition open_write_handle ::
  "'k machine \<Rightarrow> path \<Rightarrow> u32 \<Rightarrow> u32 \<Rightarrow> ('k fs_state, errno + fd) state" where
  "open_write_handle sys path flags mode = do {
     opened \<leftarrow> kernel (open_file_with_flags sys path flags mode);
     (case opened of
        Inl e \<Rightarrow> State_Monad.return (Inl e)
      | Inr fh \<Rightarrow> do {
          _ \<leftarrow> State_Monad.update (\<lambda>s. s\<lparr>fs_write_paths := AList.update fh path (fs_write_paths s)\<rparr>);
          _ \<leftarrow> State_Monad.update (\<lambda>s.
                 if flags AND O_APPEND \<noteq> 0 then s\<lparr>fs_append_handles := List.insert fh (fs_append_handles s)\<rparr> else s);
          State_Monad.return (Inr fh) }) }"

definition open_backing :: "'k machine \<Rightarrow> path \<Rightarrow> bool \<Rightarrow> ('k fs_state, errno + fd \<times> open_outcome) state" where
  "open_backing sys path filtered = do {
     opened \<leftarrow> kernel (sys_open_file sys path);
     (case opened of
        Inl e \<Rightarrow> State_Monad.return (Inl e)
      | Inr fh \<Rightarrow> State_Monad.return (Inr (fh, if filtered then FilteredOutcome else MissOutcome))) }"

text \<open>The open of a cached file that fails, having been evicted in between, falls back to the backing store.\<close>

definition try_open ::
  "fs_config \<Rightarrow> 'k machine \<Rightarrow> nat \<Rightarrow> path \<Rightarrow> bool \<Rightarrow> ('k fs_state, errno + fd \<times> open_outcome) state" where
  "try_open fc sys now path filtered = do {
     s \<leftarrow> State_Monad.get;
     (case fc_cache fc of
        None \<Rightarrow> open_backing sys path filtered
      | Some cache \<Rightarrow>
          if \<not> fc_passthrough_mode fc \<and> is_cached cache (fs_disk s) path
          then do {
            r \<leftarrow> kernel (sys_call sys (OpenAbs (cache_path cache path)));
            (case got_fd r of
               Inr fh \<Rightarrow> do {
                 _ \<leftarrow> State_Monad.update (\<lambda>s. s\<lparr>fs_db := mark_hit now cache path (fs_db s)\<rparr>);
                 State_Monad.return (Inr (fh, HitOutcome)) }
             | Inl _ \<Rightarrow> open_backing sys path filtered) }
          else open_backing sys path filtered) }"

text \<open>The event an unfiltered open sends to the engine.\<close>

definition engine_event :: "fs_config \<Rightarrow> open_outcome \<Rightarrow> path \<Rightarrow> access_event option" where
  "engine_event fc outcome path =
     (case outcome of
        HitOutcome \<Rightarrow> Some \<lparr>ev_path = path, ev_kind = Hit\<rparr>
      | MissOutcome \<Rightarrow> if \<not> fc_passthrough_mode fc then Some \<lparr>ev_path = path, ev_kind = Miss\<rparr> else None
      | FilteredOutcome \<Rightarrow> None)"

definition notify_engine :: "fs_config \<Rightarrow> bool \<Rightarrow> open_outcome \<Rightarrow> fd \<Rightarrow> path \<Rightarrow> 'k fs_state \<Rightarrow> 'k fs_state" where
  "notify_engine fc filtered outcome fh path s =
     (if filtered then s
      else (case engine_event fc outcome path of
              None \<Rightarrow> s
            | Some event \<Rightarrow>
                s\<lparr>fs_events := (if fc_access_tx fc then fs_events s @ [event] else fs_events s),
                  fs_open_paths := AList.update fh path (fs_open_paths s)\<rparr>))"

text \<open>The process behind an open is only looked up when the preset or the discovery wants it.\<close>

definition opener :: "fs_config \<Rightarrow> proc_fs \<Rightarrow> fuse_request \<Rightarrow> process_info option" where
  "opener fc pf req = (if fc_preset fc \<noteq> None \<or> fc_discovery fc then Some (capture pf (rq_pid req)) else None)"

definition opener_filtered :: "fs_config \<Rightarrow> process_info option \<Rightarrow> bool" where
  "opener_filtered fc process =
     (case (fc_preset fc, process) of (Some preset, Some p) \<Rightarrow> cp_should_filter preset p | _ \<Rightarrow> False)"

definition log_open :: "fs_config \<Rightarrow> process_info option \<Rightarrow> open_outcome \<Rightarrow> 'k fs_state \<Rightarrow> 'k fs_state" where
  "log_open fc process outcome s =
     (case process of
        Some p \<Rightarrow> if fc_discovery fc then s\<lparr>fs_discovery := fs_discovery s @ [LogOpen p outcome]\<rparr> else s
      | None \<Rightarrow> s)"

definition read_open ::
  "fs_config \<Rightarrow> 'k machine \<Rightarrow> proc_fs \<Rightarrow> nat \<Rightarrow> int \<Rightarrow> fuse_request \<Rightarrow> path \<Rightarrow> ('k fs_state, reply) state" where
  "read_open fc sys pf now instant req path = do {
     suppress \<leftarrow> should_suppress_log fc instant path;
     let process = opener fc pf req;
     let filtered = opener_filtered fc process;
     opened \<leftarrow> try_open fc sys now path filtered;
     (case opened of
        Inl e \<Rightarrow> State_Monad.return (RError e)
      | Inr (fh, outcome) \<Rightarrow> do {
          _ \<leftarrow> State_Monad.update (notify_engine fc filtered outcome fh path);
          _ \<leftarrow> State_Monad.update (\<lambda>s. s\<lparr>fs_open_bytes := AList.update fh 0 (fs_open_bytes s)\<rparr>);
          _ \<leftarrow> State_Monad.update (log_open fc process outcome);
          State_Monad.return (ROpened fh) }) }"

definition fuse_open ::
  "fs_config \<Rightarrow> 'k machine \<Rightarrow> proc_fs \<Rightarrow> nat \<Rightarrow> int \<Rightarrow> fuse_request \<Rightarrow> nat \<Rightarrow> u32 \<Rightarrow> ('k fs_state, reply) state" where
  "fuse_open fc sys pf now instant req ino raw_flags = do {
     found \<leftarrow> path_for_ino ino;
     (case found of
        Inl e \<Rightarrow> State_Monad.return (RError e)
      | Inr path \<Rightarrow>
          if is_write_intent raw_flags
          then do {
            opened \<leftarrow> open_write_handle sys path raw_flags 0;
            (case opened of
               Inr fh \<Rightarrow> State_Monad.return (ROpened fh)
             | Inl e \<Rightarrow> State_Monad.return (RError e)) }
          else read_open fc sys pf now instant req path) }"

section \<open>Read and release\<close>

definition do_read :: "'k machine \<Rightarrow> fd \<Rightarrow> nat \<Rightarrow> nat \<Rightarrow> ('k fs_state, reply) state" where
  "do_read sys fh offset sz = do {
     r \<leftarrow> kernel (sys_call sys (Pread fh sz (as_i64 offset)));
     (case got_bytes r of
        Inl e \<Rightarrow> State_Monad.return (RError e)
      | Inr buf \<Rightarrow> do {
          _ \<leftarrow> State_Monad.update (\<lambda>s. case map_of (fs_open_bytes s) fh of
                 None \<Rightarrow> s
               | Some n \<Rightarrow> s\<lparr>fs_open_bytes := AList.update fh (add64 n (length buf)) (fs_open_bytes s)\<rparr>);
          State_Monad.return (RData buf) }) }"

definition release_read :: "fs_config \<Rightarrow> fd \<Rightarrow> 'k fs_state \<Rightarrow> 'k fs_state" where
  "release_read fc fh s =
     (let bytes_read = (case map_of (fs_open_bytes s) fh of None \<Rightarrow> 0 | Some n \<Rightarrow> n)
      in s\<lparr>fs_open_bytes := AList.delete fh (fs_open_bytes s),
           fs_open_paths := AList.delete fh (fs_open_paths s),
           fs_events := (case map_of (fs_open_paths s) fh of
                           Some path \<Rightarrow> if fc_access_tx fc
                             then fs_events s @ [\<lparr>ev_path = path, ev_kind = Close bytes_read\<rparr>] else fs_events s
                         | None \<Rightarrow> fs_events s)\<rparr>)"

definition fuse_release :: "fs_config \<Rightarrow> 'k machine \<Rightarrow> fd \<Rightarrow> ('k fs_state, reply) state" where
  "fuse_release fc sys fh = do {
     _ \<leftarrow> State_Monad.update (\<lambda>s.
            if map_of (fs_write_paths s) fh \<noteq> None
            then s\<lparr>fs_write_paths := AList.delete fh (fs_write_paths s),
                   fs_append_handles := removeAll fh (fs_append_handles s)\<rparr>
            else release_read fc fh s);
     _ \<leftarrow> kernel (sys_call sys (Closefd fh));
     State_Monad.return ROk }"

section \<open>Directories\<close>

definition DT_FIFO :: nat where "DT_FIFO = 1"
definition DT_CHR :: nat where "DT_CHR = 2"
definition DT_DIR :: nat where "DT_DIR = 4"
definition DT_BLK :: nat where "DT_BLK = 6"
definition DT_LNK :: nat where "DT_LNK = 10"
definition DT_SOCK :: nat where "DT_SOCK = 12"

type_synonym dir_entry = "string \<times> nat \<times> file_type"

text \<open>d_type gives the kind except for regular files and unknown types, which are looked up.\<close>

definition entry_kind :: "'k machine \<Rightarrow> path \<Rightarrow> nat \<Rightarrow> ('k fs_state, file_type) state" where
  "entry_kind sys child d_type =
     (if d_type = DT_DIR then State_Monad.return Directory
      else if d_type = DT_LNK then State_Monad.return Symlink
      else if d_type = DT_BLK then State_Monad.return BlockDevice
      else if d_type = DT_CHR then State_Monad.return CharDevice
      else if d_type = DT_FIFO then State_Monad.return NamedPipe
      else if d_type = DT_SOCK then State_Monad.return Socket
      else do {
        st \<leftarrow> kernel (sys_stat sys child);
        State_Monad.return (case st of Some s \<Rightarrow> mode_to_filetype (st_mode s) | None \<Rightarrow> RegularFile) })"

text \<open>The readdir loop; None is the panic of get_or_create.\<close>

fun list_loop :: "'k machine \<Rightarrow> path \<Rightarrow> (string \<times> nat) list \<Rightarrow> ('k fs_state, dir_entry list option) state" where
  "list_loop sys dir [] = State_Monad.return (Some [])"
| "list_loop sys dir ((name, d_type) # rest) =
     (if name = ''.'' \<or> name = ''..'' then list_loop sys dir rest
      else do {
        let child = (if dir = [] then [name] else join dir [name]);
        kind \<leftarrow> entry_kind sys child d_type;
        ino \<leftarrow> inode_for child;
        (case ino of
           None \<Rightarrow> State_Monad.return None
         | Some ino \<Rightarrow> do {
             more \<leftarrow> list_loop sys dir rest;
             State_Monad.return (map_option ((#) (name, ino, kind)) more) }) })"

definition ino_or_root :: "path \<Rightarrow> 'k fs_state \<Rightarrow> nat" where
  "ino_or_root p s = (case get_path_ino (fs_inodes s) p of Some ino \<Rightarrow> ino | None \<Rightarrow> ROOT_INO)"

definition list_dir_entries :: "'k machine \<Rightarrow> fd \<Rightarrow> path \<Rightarrow> ('k fs_state, dir_entry list option) state" where
  "list_dir_entries sys dir_fd dir = do {
     dots \<leftarrow> gets (\<lambda>s. [(''.'', ino_or_root dir s, Directory), (''..'', ino_or_root (parent_or_empty dir) s, Directory)]);
     r \<leftarrow> kernel (sys_call sys (Readdir dir_fd));
     (case r of
        GotDir names \<Rightarrow> do {
          entries \<leftarrow> list_loop sys dir names;
          State_Monad.return (map_option ((@) dots) entries) }
      | _ \<Rightarrow> State_Monad.return (Some dots)) }"

text \<open>
  The reply buffer belongs to fuser: \<open>full added e\<close> is what its \<open>add\<close> answers for entry \<open>e\<close> after the
  entries \<open>added\<close>; an entry answered with true has not been added.
\<close>

type_synonym added = "(nat \<times> nat \<times> file_type \<times> string) list"

fun reply_loop :: "(added \<Rightarrow> nat \<times> nat \<times> file_type \<times> string \<Rightarrow> bool) \<Rightarrow> nat \<Rightarrow> nat \<Rightarrow> dir_entry list \<Rightarrow> added \<Rightarrow> added" where
  "reply_loop full offset i [] acc = acc"
| "reply_loop full offset i ((name, ino, kind) # rest) acc =
     (if i + 1 \<le> offset then reply_loop full offset (Suc i) rest acc
      else if full acc (ino, i + 1, kind, name) then acc
      else reply_loop full offset (Suc i) rest (acc @ [(ino, i + 1, kind, name)]))"

definition do_readdir ::
  "'k machine \<Rightarrow> (added \<Rightarrow> nat \<times> nat \<times> file_type \<times> string \<Rightarrow> bool) \<Rightarrow> nat \<Rightarrow> fd \<Rightarrow> nat \<Rightarrow> ('k fs_state, reply) state" where
  "do_readdir sys full ino fh offset = do {
     found \<leftarrow> path_for_ino ino;
     (case found of
        Inl e \<Rightarrow> State_Monad.return (RError e)
      | Inr dir \<Rightarrow> do {
          entries \<leftarrow> list_dir_entries sys fh dir;
          State_Monad.return (case entries of
             None \<Rightarrow> RPanic
           | Some es \<Rightarrow> RDirectory (reply_loop full offset 0 es [])) }) }"

definition do_opendir :: "fs_config \<Rightarrow> 'k machine \<Rightarrow> fuse_request \<Rightarrow> nat \<Rightarrow> ('k fs_state, reply) state" where
  "do_opendir fc sys req ino = do {
     found \<leftarrow> path_for_ino ino;
     (case found of
        Inl e \<Rightarrow> State_Monad.return (RError e)
      | Inr path \<Rightarrow> do {
          _ \<leftarrow> log_touch fc req;
          r \<leftarrow> kernel (sys_call sys (Openat (if path = [] then [''.''] else path) (O_RDONLY OR O_DIRECTORY) 0));
          (case got_fd r of
             Inl e \<Rightarrow> State_Monad.return (RError e)
           | Inr fh \<Rightarrow> State_Monad.return (ROpened fh)) }) }"

definition do_releasedir :: "'k machine \<Rightarrow> fd \<Rightarrow> ('k fs_state, reply) state" where
  "do_releasedir sys fh = do { _ \<leftarrow> kernel (sys_call sys (Closefd fh)); State_Monad.return ROk }"

section \<open>Links, attributes and statistics\<close>

definition PATH_MAX :: nat where "PATH_MAX = 4096"

definition do_readlink :: "'k machine \<Rightarrow> nat \<Rightarrow> ('k fs_state, reply) state" where
  "do_readlink sys ino = do {
     found \<leftarrow> path_for_ino ino;
     (case found of
        Inl e \<Rightarrow> State_Monad.return (RError e)
      | Inr path \<Rightarrow> do {
          r \<leftarrow> kernel (sys_call sys (Readlinkat path PATH_MAX));
          State_Monad.return (case got_bytes r of Inl e \<Rightarrow> RError e | Inr buf \<Rightarrow> RData buf) }) }"

definition xattr_reply :: "nat \<Rightarrow> errno + bytes \<Rightarrow> reply" where
  "xattr_reply sz r =
     (case r of Inl e \<Rightarrow> RError e | Inr bytes \<Rightarrow> if sz = 0 then RSize (length bytes) else RData bytes)"

definition do_getxattr :: "'k machine \<Rightarrow> nat \<Rightarrow> string \<Rightarrow> nat \<Rightarrow> ('k fs_state, reply) state" where
  "do_getxattr sys ino name sz = do {
     found \<leftarrow> path_for_ino ino;
     (case found of
        Inl e \<Rightarrow> State_Monad.return (RError e)
      | Inr path \<Rightarrow> do {
          r \<leftarrow> kernel (bs_getxattr sys path name sz);
          State_Monad.return (xattr_reply sz r) }) }"

definition do_listxattr :: "'k machine \<Rightarrow> nat \<Rightarrow> nat \<Rightarrow> ('k fs_state, reply) state" where
  "do_listxattr sys ino sz = do {
     found \<leftarrow> path_for_ino ino;
     (case found of
        Inl e \<Rightarrow> State_Monad.return (RError e)
      | Inr path \<Rightarrow> do {
          r \<leftarrow> kernel (bs_listxattr sys path sz);
          State_Monad.return (xattr_reply sz r) }) }"

definition do_statfs :: "'k machine \<Rightarrow> ('k fs_state, reply) state" where
  "do_statfs sys = do {
     r \<leftarrow> kernel (sys_call sys (Openat [''.''] (O_RDONLY OR O_DIRECTORY) 0));
     (case got_fd r of
        Inl e \<Rightarrow> State_Monad.return (RError e)
      | Inr fh \<Rightarrow> do {
          st \<leftarrow> kernel (sys_call sys (Fstatvfs fh));
          _ \<leftarrow> kernel (sys_call sys (Closefd fh));
          State_Monad.return (case st of GotStatvfs b \<Rightarrow> RStatfs b | Failed e \<Rightarrow> RError e | _ \<Rightarrow> RError EIO) }) }"

end
