(* ===== verification/FuseWrite.thy ===== *)
theory FuseWrite
  imports Fuse
begin

text \<open>
  The write side of the FUSE filesystem (src/src/fuse/write.rs): every change goes straight to the
  backing store, under the requester's ownership, and the inode table follows.
\<close>

definition EEXIST :: errno where "EEXIST = 17"
definition ENOSYS :: errno where "ENOSYS = 38"
definition ESTALE :: errno where "ESTALE = 116"

text \<open>A failing call ends the handler with its errno.\<close>

definition or_fail :: "('s, errno + 'a) state \<Rightarrow> ('a \<Rightarrow> ('s, reply) state) \<Rightarrow> ('s, reply) state" where
  "or_fail m f = do {
     r \<leftarrow> m;
     (case r of Inl e \<Rightarrow> State_Monad.return (RError e) | Inr a \<Rightarrow> f a) }"

section \<open>Ownership\<close>

definition requester_owner :: "'k machine \<Rightarrow> path \<Rightarrow> fuse_request \<Rightarrow> ('k, u32 \<times> u32 option) state" where
  "requester_owner sys path req =
     (case parent path of
        None \<Rightarrow> State_Monad.return (rq_uid req, Some (rq_gid req))
      | Some dir \<Rightarrow> do {
          st \<leftarrow> sys_stat sys dir;
          let parent_is_setgid = (case st of None \<Rightarrow> False | Some d \<Rightarrow> st_mode d AND S_ISGID \<noteq> 0);
          State_Monad.return (rq_uid req, if parent_is_setgid then None else Some (rq_gid req)) })"

text \<open>A chown that fails is only logged.\<close>

definition chown_to_requester :: "'k machine \<Rightarrow> path \<Rightarrow> fuse_request \<Rightarrow> ('k fs_state, unit) state" where
  "chown_to_requester sys path req = kernel (do {
     (uid, gid) \<leftarrow> requester_owner sys path req;
     _ \<leftarrow> bs_chown sys path (Some uid) gid;
     State_Monad.return () })"

definition fchown_to_requester :: "'k machine \<Rightarrow> fd \<Rightarrow> path \<Rightarrow> fuse_request \<Rightarrow> ('k fs_state, unit) state" where
  "fchown_to_requester sys fh path req = kernel (do {
     (uid, gid) \<leftarrow> requester_owner sys path req;
     _ \<leftarrow> sys_call sys (Fchown fh uid (or_unchanged gid));
     State_Monad.return () })"

section \<open>setattr\<close>

datatype time_or_now = SpecificTime int int | Now

text \<open>A time before the epoch becomes zero.\<close>

definition system_time_to_timespec :: "int \<Rightarrow> int \<Rightarrow> timespec" where
  "system_time_to_timespec sec nanos = (if sec < 0 then (0, 0) else (sec, nanos))"

definition time_or_now_to_timespec :: "timespec \<Rightarrow> time_or_now option \<Rightarrow> int \<Rightarrow> int \<Rightarrow> timespec" where
  "time_or_now_to_timespec clock v fallback_sec fallback_nsec =
     (case v of
        Some (SpecificTime sec nanos) \<Rightarrow> system_time_to_timespec sec nanos
      | Some Now \<Rightarrow> system_time_to_timespec (fst clock) (snd clock)
      | None \<Rightarrow> (fallback_sec, fallback_nsec))"

record setattr_args =
  sa_mode :: "u32 option"
  sa_uid :: "u32 option"
  sa_gid :: "u32 option"
  sa_size :: "nat option"
  sa_atime :: "time_or_now option"
  sa_mtime :: "time_or_now option"
  sa_fh :: "fd option"

definition ok_unit :: "('s, errno + unit) state" where
  "ok_unit = State_Monad.return (Inr ())"

definition setattr_mode :: "'k machine \<Rightarrow> path \<Rightarrow> setattr_args \<Rightarrow> ('k fs_state, errno + unit) state" where
  "setattr_mode sys path a = (case sa_mode a of Some mode \<Rightarrow> kernel (bs_chmod sys path mode) | None \<Rightarrow> ok_unit)"

definition setattr_owner :: "'k machine \<Rightarrow> path \<Rightarrow> setattr_args \<Rightarrow> ('k fs_state, errno + unit) state" where
  "setattr_owner sys path a =
     (if sa_uid a \<noteq> None \<or> sa_gid a \<noteq> None then kernel (bs_chown sys path (sa_uid a) (sa_gid a)) else ok_unit)"

definition setattr_size :: "'k machine \<Rightarrow> path \<Rightarrow> setattr_args \<Rightarrow> ('k fs_state, errno + unit) state" where
  "setattr_size sys path a =
     (case sa_size a of
        None \<Rightarrow> ok_unit
      | Some sz \<Rightarrow>
          (case sa_fh a of
             Some fh \<Rightarrow> kernel (unit_call sys (Ftruncate fh (as_i64 sz)))
           | None \<Rightarrow> kernel (bs_truncate sys path sz)))"

definition setattr_times :: "'k machine \<Rightarrow> timespec \<Rightarrow> path \<Rightarrow> setattr_args \<Rightarrow> ('k fs_state, errno + unit) state" where
  "setattr_times sys clock path a =
     (if sa_atime a \<noteq> None \<or> sa_mtime a \<noteq> None
      then do {
        st \<leftarrow> kernel (sys_stat sys path);
        (case st of
           None \<Rightarrow> State_Monad.return (Inl ENOENT)
         | Some current \<Rightarrow>
             kernel (bs_utimens sys path
               (time_or_now_to_timespec clock (sa_atime a) (st_atime current) (st_atime_nsec current))
               (time_or_now_to_timespec clock (sa_mtime a) (st_mtime current) (st_mtime_nsec current)))) }
      else ok_unit)"

definition do_setattr ::
  "fs_config \<Rightarrow> 'k machine \<Rightarrow> timespec \<Rightarrow> nat \<Rightarrow> setattr_args \<Rightarrow> ('k fs_state, reply) state" where
  "do_setattr fc sys clock ino a =
     or_fail (path_for_ino ino) (\<lambda>path.
     or_fail (setattr_mode sys path a) (\<lambda>_.
     or_fail (setattr_owner sys path a) (\<lambda>_.
     or_fail (setattr_size sys path a) (\<lambda>_.
     or_fail (setattr_times sys clock path a) (\<lambda>_. do {
       st \<leftarrow> kernel (sys_stat sys path);
       (case st of
          None \<Rightarrow> State_Monad.return (RError ENOENT)
        | Some stat \<Rightarrow> do {
            _ \<leftarrow> State_Monad.update (\<lambda>s. case fc_cache fc of
                   None \<Rightarrow> s
                 | Some cache \<Rightarrow>
                     if is_cached cache (fs_disk s) path
                     then s\<lparr>fs_db := refresh_source_metadata cache path stat (fs_db s)\<rparr> else s);
            State_Monad.return (reply_attr RAttr (stat_to_attr ino stat)) }) })))))"

section \<open>New names\<close>

definition apply_umask :: "u32 \<Rightarrow> u32 \<Rightarrow> u32" where
  "apply_umask mode umask = mode AND NOT umask"

definition entry_for :: "'k machine \<Rightarrow> path \<Rightarrow> ('k fs_state, reply) state" where
  "entry_for sys path = or_fail (fresh_attr_for_path sys path) (\<lambda>a. State_Monad.return (reply_attr REntry a))"

definition do_mknod ::
  "'k machine \<Rightarrow> fuse_request \<Rightarrow> nat \<Rightarrow> string \<Rightarrow> u32 \<Rightarrow> u32 \<Rightarrow> u32 \<Rightarrow> ('k fs_state, reply) state" where
  "do_mknod sys req dir_ino name mode umask rdev =
     or_fail (child_path dir_ino name) (\<lambda>path.
     or_fail (kernel (bs_mknod sys path (apply_umask mode umask) rdev)) (\<lambda>_. do {
       _ \<leftarrow> chown_to_requester sys path req;
       entry_for sys path }))"

definition do_mkdir ::
  "'k machine \<Rightarrow> fuse_request \<Rightarrow> nat \<Rightarrow> string \<Rightarrow> u32 \<Rightarrow> u32 \<Rightarrow> ('k fs_state, reply) state" where
  "do_mkdir sys req dir_ino name mode umask =
     or_fail (child_path dir_ino name) (\<lambda>path.
     or_fail (kernel (bs_mkdir sys path (apply_umask mode umask))) (\<lambda>_. do {
       _ \<leftarrow> chown_to_requester sys path req;
       entry_for sys path }))"

definition do_symlink ::
  "'k machine \<Rightarrow> fuse_request \<Rightarrow> nat \<Rightarrow> string \<Rightarrow> string \<Rightarrow> ('k fs_state, reply) state" where
  "do_symlink sys req dir_ino link_name target =
     or_fail (child_path dir_ino link_name) (\<lambda>path.
     or_fail (kernel (bs_symlink sys target path)) (\<lambda>_. do {
       _ \<leftarrow> chown_to_requester sys path req;
       entry_for sys path }))"

definition do_link :: "'k machine \<Rightarrow> nat \<Rightarrow> nat \<Rightarrow> string \<Rightarrow> ('k fs_state, reply) state" where
  "do_link sys ino new_dir_ino new_name =
     or_fail (path_for_ino ino) (\<lambda>old.
     or_fail (child_path new_dir_ino new_name) (\<lambda>new.
     or_fail (kernel (bs_link sys old new)) (\<lambda>_. entry_for sys new)))"

section \<open>Names that go away or move\<close>

definition on_inodes :: "(inode_table \<Rightarrow> inode_table) \<Rightarrow> ('k fs_state, unit) state" where
  "on_inodes f = State_Monad.update (\<lambda>s. s\<lparr>fs_inodes := f (fs_inodes s)\<rparr>)"

definition do_unlink :: "'k machine \<Rightarrow> nat \<Rightarrow> string \<Rightarrow> ('k fs_state, reply) state" where
  "do_unlink sys dir_ino name =
     or_fail (child_path dir_ino name) (\<lambda>path.
     or_fail (kernel (bs_unlink_file sys path)) (\<lambda>_. do {
       _ \<leftarrow> on_inodes (remove_path path);
       State_Monad.return ROk }))"

definition do_rmdir :: "'k machine \<Rightarrow> nat \<Rightarrow> string \<Rightarrow> ('k fs_state, reply) state" where
  "do_rmdir sys dir_ino name =
     or_fail (child_path dir_ino name) (\<lambda>path.
     or_fail (kernel (bs_rmdir sys path)) (\<lambda>_. do {
       _ \<leftarrow> on_inodes (remove_subtree path);
       State_Monad.return ROk }))"

definition do_rename ::
  "'k machine \<Rightarrow> nat \<Rightarrow> string \<Rightarrow> nat \<Rightarrow> string \<Rightarrow> u32 \<Rightarrow> ('k fs_state, reply) state" where
  "do_rename sys dir_ino name new_dir_ino new_name flags =
     or_fail (child_path dir_ino name) (\<lambda>old.
     or_fail (child_path new_dir_ino new_name) (\<lambda>new.
     or_fail (kernel (bs_rename sys old new flags)) (\<lambda>_. do {
       _ \<leftarrow> on_inodes (rename_path old new);
       State_Monad.return ROk })))"

section \<open>Data\<close>

definition do_write :: "'k machine \<Rightarrow> fd \<Rightarrow> nat \<Rightarrow> bytes \<Rightarrow> u32 \<Rightarrow> ('k fs_state, reply) state" where
  "do_write sys fh offset buf flags = do {
     s \<leftarrow> State_Monad.get;
     let append = (fh \<in> set (fs_append_handles s) \<or> flags AND O_APPEND \<noteq> 0);
     r \<leftarrow> kernel (sys_call sys (if append then Writefd fh buf else Pwrite fh buf (as_i64 offset)));
     State_Monad.return (case got_count r of Inl e \<Rightarrow> RError e | Inr n \<Rightarrow> RWritten (n mod 2 ^ 32)) }"

definition do_fsync :: "'k machine \<Rightarrow> fd \<Rightarrow> bool \<Rightarrow> ('k fs_state, reply) state" where
  "do_fsync sys fh datasync =
     or_fail (kernel (unit_call sys (if datasync then Fdatasync fh else Fsync fh))) (\<lambda>_. State_Monad.return ROk)"

definition do_setxattr ::
  "'k machine \<Rightarrow> nat \<Rightarrow> string \<Rightarrow> bytes \<Rightarrow> u32 \<Rightarrow> nat \<Rightarrow> ('k fs_state, reply) state" where
  "do_setxattr sys ino name value flags position =
     (if position \<noteq> 0 then State_Monad.return (RError ENOSYS)
      else or_fail (path_for_ino ino) (\<lambda>path.
           or_fail (kernel (bs_setxattr sys path name value flags)) (\<lambda>_. State_Monad.return ROk)))"

definition do_removexattr :: "'k machine \<Rightarrow> nat \<Rightarrow> string \<Rightarrow> ('k fs_state, reply) state" where
  "do_removexattr sys ino name =
     or_fail (path_for_ino ino) (\<lambda>path.
     or_fail (kernel (bs_removexattr sys path name)) (\<lambda>_. State_Monad.return ROk))"

section \<open>Create\<close>

text \<open>When the attributes cannot be had, the handle is closed and forgotten and the file removed.\<close>

definition undo_create :: "'k machine \<Rightarrow> fd \<Rightarrow> path \<Rightarrow> errno \<Rightarrow> ('k fs_state, reply) state" where
  "undo_create sys fh path e = do {
     _ \<leftarrow> kernel (sys_call sys (Closefd fh));
     _ \<leftarrow> State_Monad.update (\<lambda>s. s\<lparr>fs_write_paths := AList.delete fh (fs_write_paths s),
                                       fs_append_handles := removeAll fh (fs_append_handles s)\<rparr>);
     _ \<leftarrow> kernel (bs_unlink_file sys path);
     State_Monad.return (RError e) }"

definition created :: "fd \<Rightarrow> file_attr option \<Rightarrow> reply" where
  "created fh a = reply_attr (\<lambda>attr. RCreated attr fh) a"

definition do_create ::
  "'k machine \<Rightarrow> fuse_request \<Rightarrow> nat \<Rightarrow> string \<Rightarrow> u32 \<Rightarrow> u32 \<Rightarrow> u32 \<Rightarrow> ('k fs_state, reply) state" where
  "do_create sys req dir_ino name mode umask flags =
     or_fail (child_path dir_ino name) (\<lambda>path. do {
       opened \<leftarrow> open_write_handle sys path (flags OR O_CREAT OR O_EXCL) (apply_umask mode umask);
       (case opened of
          Inl e \<Rightarrow> State_Monad.return (RError (if e = EEXIST \<and> flags AND O_EXCL = 0 then ESTALE else e))
        | Inr fh \<Rightarrow> do {
            _ \<leftarrow> fchown_to_requester sys fh path req;
            fresh \<leftarrow> fresh_attr_for_path sys path;
            (case fresh of
               Inr attr \<Rightarrow> State_Monad.return (created fh attr)
             | Inl e \<Rightarrow> undo_create sys fh path e) }) })"

end
