(* ===== verification/FuseSpec.thy ===== *)
theory FuseSpec
  imports FuseWrite
begin

text \<open>
  The filesystem as a whole: the dispatch of requests (impl Filesystem for FsCache in
  src/src/fuse/fusefs.rs), the states it can reach, and what holds of them: the accounting of open
  handles and of the events sent to the action engine, what a client sees of a cached file, and the
  pages of a directory listing.
\<close>

section \<open>Dispatch\<close>

record fuse_env =
  fe_req :: fuse_request
  fe_procs :: proc_fs
  fe_now :: nat
  fe_instant :: int
  fe_clock :: timespec
  fe_full :: "added \<Rightarrow> nat \<times> nat \<times> file_type \<times> string \<Rightarrow> bool"

datatype fuse_op =
    OpLookup nat string | OpForget nat nat | OpGetattr nat | OpSetattr nat setattr_args
  | OpMknod nat string u32 u32 u32 | OpMkdir nat string u32 u32 | OpUnlink nat string | OpRmdir nat string
  | OpSymlink nat string string | OpRename nat string nat string u32 | OpLink nat nat string
  | OpOpen nat u32 | OpRead fd nat nat | OpWrite fd nat bytes u32 | OpFlush | OpFsync fd bool | OpRelease fd
  | OpOpendir nat | OpReaddir nat fd nat | OpReleasedir fd | OpReadlink nat
  | OpCreate nat string u32 u32 u32 | OpSetxattr nat string bytes u32 nat | OpGetxattr nat string nat
  | OpListxattr nat nat | OpRemovexattr nat string | OpStatfs

definition handle :: "fs_config \<Rightarrow> 'k machine \<Rightarrow> fuse_env \<Rightarrow> fuse_op \<Rightarrow> ('k fs_state, reply) state" where
  "handle fc sys e op =
     (case op of
        OpLookup dir_ino name \<Rightarrow> do_lookup fc sys (fe_req e) dir_ino name
      | OpForget ino nlookup \<Rightarrow> do { _ \<leftarrow> fuse_forget ino nlookup; State_Monad.return ROk }
      | OpGetattr ino \<Rightarrow> do_getattr fc sys (fe_req e) ino
      | OpSetattr ino a \<Rightarrow> do_setattr fc sys (fe_clock e) ino a
      | OpMknod dir_ino name mode umask rdev \<Rightarrow> do_mknod sys (fe_req e) dir_ino name mode umask rdev
      | OpMkdir dir_ino name mode umask \<Rightarrow> do_mkdir sys (fe_req e) dir_ino name mode umask
      | OpUnlink dir_ino name \<Rightarrow> do_unlink sys dir_ino name
      | OpRmdir dir_ino name \<Rightarrow> do_rmdir sys dir_ino name
      | OpSymlink dir_ino name target \<Rightarrow> do_symlink sys (fe_req e) dir_ino name target
      | OpRename dir_ino name new_dir_ino new_name flags \<Rightarrow> do_rename sys dir_ino name new_dir_ino new_name flags
      | OpLink ino dir_ino name \<Rightarrow> do_link sys ino dir_ino name
      | OpOpen ino flags \<Rightarrow> fuse_open fc sys (fe_procs e) (fe_now e) (fe_instant e) (fe_req e) ino flags
      | OpRead fh offset sz \<Rightarrow> do_read sys fh offset sz
      | OpWrite fh offset buf flags \<Rightarrow> do_write sys fh offset buf flags
      | OpFlush \<Rightarrow> State_Monad.return ROk
      | OpFsync fh datasync \<Rightarrow> do_fsync sys fh datasync
      | OpRelease fh \<Rightarrow> fuse_release fc sys fh
      | OpOpendir ino \<Rightarrow> do_opendir fc sys (fe_req e) ino
      | OpReaddir ino fh offset \<Rightarrow> do_readdir sys (fe_full e) ino fh offset
      | OpReleasedir fh \<Rightarrow> do_releasedir sys fh
      | OpReadlink ino \<Rightarrow> do_readlink sys ino
      | OpCreate dir_ino name mode umask flags \<Rightarrow> do_create sys (fe_req e) dir_ino name mode umask flags
      | OpSetxattr ino name value flags position \<Rightarrow> do_setxattr sys ino name value flags position
      | OpGetxattr ino name sz \<Rightarrow> do_getxattr sys ino name sz
      | OpListxattr ino sz \<Rightarrow> do_listxattr sys ino sz
      | OpRemovexattr ino name \<Rightarrow> do_removexattr sys ino name
      | OpStatfs \<Rightarrow> do_statfs sys)"

text \<open>
  The session serves one request after the other; the disk and the database change in between. The
  kernel gives a descriptor that is not in use: a step whose new handle is still in one of the tables
  does not occur. \<open>gets_handle\<close> names the handle a request gets_handle; a create may obtain one and fail later.
\<close>

definition handle_free :: "fd \<Rightarrow> 'k fs_state \<Rightarrow> bool" where
  "handle_free fh s = (map_of (fs_open_bytes s) fh = None \<and> map_of (fs_write_paths s) fh = None)"

definition gets_handle :: "'k machine \<Rightarrow> fuse_op \<Rightarrow> 'k fs_state \<Rightarrow> reply \<Rightarrow> fd \<Rightarrow> bool" where
  "gets_handle sys op s r fh =
     (case op of
        OpCreate dir_ino name mode umask flags \<Rightarrow>
          \<exists>path t. run_state (open_write_handle sys path (flags OR O_CREAT OR O_EXCL) (apply_umask mode umask)) s = (Inr fh, t)
      | _ \<Rightarrow> r = ROpened fh)"

inductive fuse_reachable :: "fs_config \<Rightarrow> 'k machine \<Rightarrow> 'k fs_state \<Rightarrow> bool" for fc sys where
  mounted: "fuse_reachable fc sys (fs_new k d db)"
| served: "fuse_reachable fc sys s \<Longrightarrow> run_state (handle fc sys e op) s = (r, t) \<Longrightarrow>
    (\<And>fh. gets_handle sys op s r fh \<Longrightarrow> handle_free fh s) \<Longrightarrow> fuse_reachable fc sys t"
| others: "fuse_reachable fc sys s \<Longrightarrow> fuse_reachable fc sys (s\<lparr>fs_disk := d, fs_db := db\<rparr>)"

section \<open>Which parts of the state an action leaves alone\<close>

lemma keeps_update [keep_intros]: "(\<And>s. P s \<Longrightarrow> P (g s)) \<Longrightarrow> keeps P (State_Monad.update g)"
  by (simp add: keeps_def State_Monad.update_def)

lemma keeps_set: "(\<And>s. P s \<Longrightarrow> P t) \<Longrightarrow> keeps P (State_Monad.set t)"
  by (auto simp: keeps_def)

lemma keeps_kernel: "(\<And>s k. P s \<Longrightarrow> P (s\<lparr>fs_kernel := k\<rparr>)) \<Longrightarrow> keeps P (kernel m)"
  by (simp add: keeps_def kernel_def split: prod.splits)

lemma keeps_gets [keep_intros]: "keeps P (gets f)"
  by (simp add: keeps_def gets_def)

lemma keeps_or_fail [keep_intros]: "keeps P m \<Longrightarrow> (\<And>a. keeps P (f a)) \<Longrightarrow> keeps P (or_fail m f)"
  unfolding or_fail_def by (intro keep_intros)

lemma keeps_prod [keep_intros]: "(\<And>a b. r = (a, b) \<Longrightarrow> keeps P (f a b)) \<Longrightarrow> keeps P (case r of (a, b) \<Rightarrow> f a b)"
  by (cases r) simp

text \<open>The handle tables and the events sent.\<close>

type_synonym handle_tables =
  "(nat \<times> nat) list \<times> (nat \<times> path) list \<times> (nat \<times> path) list \<times> nat list \<times> access_event list"

definition handle_tables :: "'k fs_state \<Rightarrow> handle_tables" where
  "handle_tables s = (fs_open_bytes s, fs_open_paths s, fs_write_paths s, fs_append_handles s, fs_events s)"

lemma handle_tables_frame [simp]:
  "handle_tables (s\<lparr>fs_kernel := k\<rparr>) = handle_tables s"
  "handle_tables (s\<lparr>fs_inodes := t\<rparr>) = handle_tables s"
  "handle_tables (s\<lparr>fs_db := db\<rparr>) = handle_tables s"
  "handle_tables (s\<lparr>fs_disk := d\<rparr>) = handle_tables s"
  "handle_tables (s\<lparr>fs_recent_logs := l\<rparr>) = handle_tables s"
  "handle_tables (s\<lparr>fs_touches := x\<rparr>) = handle_tables s"
  "handle_tables (s\<lparr>fs_discovery := y\<rparr>) = handle_tables s"
  by (simp_all add: handle_tables_def)

definition same_handles :: "handle_tables \<Rightarrow> 'k fs_state \<Rightarrow> bool" where
  "same_handles x s = (handle_tables s = x)"

lemmas same_handles_intros = keep_intros keeps_kernel [of "same_handles x" for x]

lemma same_handles_frame [simp]:
  "same_handles x (s\<lparr>fs_kernel := k\<rparr>) = same_handles x s"
  "same_handles x (s\<lparr>fs_inodes := t\<rparr>) = same_handles x s"
  "same_handles x (s\<lparr>fs_db := db\<rparr>) = same_handles x s"
  "same_handles x (s\<lparr>fs_touches := tt\<rparr>) = same_handles x s"
  "same_handles x (s\<lparr>fs_recent_logs := l\<rparr>) = same_handles x s"
  "same_handles x (s\<lparr>fs_discovery := y\<rparr>) = same_handles x s"
  by (simp_all add: same_handles_def)

lemma keeps_inode_for: "keeps (same_handles x) (inode_for p)"
  by (simp add: keeps_def inode_for_def split: option.splits)

lemma keeps_suppress: "keeps (same_handles x) (should_suppress_log fc now p)"
  by (simp add: keeps_def should_suppress_log_def Let_def)

lemmas fuse_action_defs =
  do_lookup_def do_getattr_def do_setattr_def do_mknod_def do_mkdir_def do_unlink_def do_rmdir_def do_symlink_def
  do_rename_def do_link_def do_write_def do_fsync_def do_opendir_def do_readdir_def do_releasedir_def do_readlink_def
  do_setxattr_def do_getxattr_def do_listxattr_def do_removexattr_def do_statfs_def fuse_forget_def
  path_for_ino_def child_path_def

lemmas fuse_part_defs =
  cached_regular_attr_def log_touch_def setattr_mode_def setattr_owner_def setattr_size_def setattr_times_def
  ok_unit_def entry_for_def fresh_attr_for_path_def chown_to_requester_def fchown_to_requester_def on_inodes_def
  entry_kind_def Let_def list_dir_entries_def open_backing_def try_open_def

lemma same_kernel: "keeps (same_handles x) (kernel m)"
  by (rule keeps_kernel) simp

lemma same_entry_kind: "keeps (same_handles x) (entry_kind sys child d)"
  unfolding entry_kind_def by (intro keep_intros same_kernel)

lemma same_list_loop: "keeps (same_handles x) (list_loop sys dir names)"
proof (induction names)
  case Nil
  then show ?case by (simp add: keep_intros)
next
  case (Cons a names)
  obtain name d where a: "a = (name, d)" by fastforce
  show ?case
    unfolding a list_loop.simps Let_def
    by (intro keep_intros same_entry_kind keeps_inode_for Cons)
qed

lemma same_parts:
  "keeps (same_handles x) (cached_regular_attr fc sys p ino)"
  "keeps (same_handles x) (log_touch fc req)"
  "keeps (same_handles x) (fresh_attr_for_path sys p)"
  "keeps (same_handles x) (chown_to_requester sys p req)"
  "keeps (same_handles x) (fchown_to_requester sys fh p req)"
  "keeps (same_handles x) (on_inodes g)"
  "keeps (same_handles x) (path_for_ino ino)"
  "keeps (same_handles x) (child_path ino n)"
  "keeps (same_handles x) (list_dir_entries sys fh p)"
  "keeps (same_handles x) (open_backing sys p filtered)"
  "keeps (same_handles x) (try_open fc sys now p filtered)"
  unfolding fuse_part_defs path_for_ino_def child_path_def
  by (intro keep_intros same_kernel keeps_inode_for same_list_loop; simp)+

lemma same_setattr:
  "keeps (same_handles x) (setattr_mode sys p a)"
  "keeps (same_handles x) (setattr_owner sys p a)"
  "keeps (same_handles x) (setattr_size sys p a)"
  "keeps (same_handles x) (setattr_times sys clock p a)"
  unfolding setattr_mode_def setattr_owner_def setattr_size_def setattr_times_def ok_unit_def
  by (intro keep_intros same_kernel)+

definition opens_or_closes :: "fuse_op \<Rightarrow> bool" where
  "opens_or_closes op = (case op of OpOpen _ _ \<Rightarrow> True | OpRead _ _ _ \<Rightarrow> True | OpRelease _ \<Rightarrow> True
     | OpCreate _ _ _ _ _ \<Rightarrow> True | _ \<Rightarrow> False)"

text \<open>Every other request leaves the handle tables and the events alone.\<close>

lemma same_handle: "\<not> opens_or_closes op \<Longrightarrow> keeps (same_handles x) (handle fc sys e op)"
  unfolding handle_def
  by (cases op; simp add: opens_or_closes_def fuse_forget_def do_lookup_def do_getattr_def do_setattr_def do_mknod_def
      do_mkdir_def do_unlink_def do_rmdir_def do_symlink_def do_rename_def do_link_def do_write_def do_fsync_def
      do_opendir_def do_readdir_def do_releasedir_def do_readlink_def do_setxattr_def do_getxattr_def do_listxattr_def
      do_removexattr_def do_statfs_def entry_for_def Let_def)
    (intro keep_intros same_kernel keeps_inode_for same_parts same_setattr impI conjI; simp split: option.splits)+

section \<open>Handle accounting\<close>

definition sent_opens :: "path \<Rightarrow> access_event list \<Rightarrow> nat" where
  "sent_opens p evs = length (filter (\<lambda>e. ev_path e = p \<and> \<not> is_close (ev_kind e)) evs)"

definition sent_closes :: "path \<Rightarrow> access_event list \<Rightarrow> nat" where
  "sent_closes p evs = length (filter (\<lambda>e. ev_path e = p \<and> is_close (ev_kind e)) evs)"

definition open_on :: "path \<Rightarrow> (nat \<times> path) list \<Rightarrow> nat" where
  "open_on p m = length (filter (\<lambda>(h, q). q = p) m)"

definition handles_ok :: "fs_config \<Rightarrow> handle_tables \<Rightarrow> bool" where
  "handles_ok fc x =
     (case x of (ob, op, wp, ah, ev) \<Rightarrow>
        distinct (map fst ob) \<and> distinct (map fst op) \<and> distinct (map fst wp) \<and>
        dom (map_of op) \<subseteq> dom (map_of ob) \<and> dom (map_of ob) \<inter> dom (map_of wp) = {} \<and>
        set ah \<subseteq> dom (map_of wp) \<and>
        (fc_access_tx fc \<longrightarrow> (\<forall>p. sent_opens p ev = sent_closes p ev + open_on p op)))"

definition opened_write :: "fd \<Rightarrow> path \<Rightarrow> bool \<Rightarrow> handle_tables \<Rightarrow> handle_tables" where
  "opened_write fh path app x =
     (case x of (ob, op, wp, ah, ev) \<Rightarrow> (ob, op, AList.update fh path wp, if app then List.insert fh ah else ah, ev))"

definition opened_read :: "fs_config \<Rightarrow> fd \<Rightarrow> path \<Rightarrow> access_event option \<Rightarrow> handle_tables \<Rightarrow> handle_tables" where
  "opened_read fc fh path event x =
     (case x of (ob, op, wp, ah, ev) \<Rightarrow>
        (AList.update fh 0 ob, case event of None \<Rightarrow> op | Some _ \<Rightarrow> AList.update fh path op, wp, ah,
         case event of None \<Rightarrow> ev | Some a \<Rightarrow> if fc_access_tx fc then ev @ [a] else ev))"

declare alist_map_of [simp]

lemma dom_alist [simp]:
  "dom (map_of (AList.update k v m)) = insert k (dom (map_of m))"
  "dom (map_of (AList.delete k m)) = dom (map_of m) - {k}"
  by (auto simp: dom_def split: if_splits)

lemma open_on_update: "map_of m fh = None \<Longrightarrow> open_on p (AList.update fh q m) = open_on p m + (if q = p then 1 else 0)"
  by (induction m) (auto simp: open_on_def)

lemma open_on_delete:
  "distinct (map fst m) \<Longrightarrow> open_on p m = open_on p (AList.delete fh m) + (if map_of m fh = Some p then 1 else 0)"
proof (induction m)
  case (Cons a m)
  then show ?case
  proof (cases "fst a = fh")
    case True
    with Cons.prems have "AList.delete fh m = m" by (simp add: delete_idem)
    with True show ?thesis by (cases a) (auto simp: open_on_def)
  next
    case False
    with Cons show ?thesis by (cases a) (auto simp: open_on_def)
  qed
qed (simp add: open_on_def)

lemma sent_append [simp]:
  "sent_opens p (evs @ [e]) = sent_opens p evs + (if ev_path e = p \<and> \<not> is_close (ev_kind e) then 1 else 0)"
  "sent_closes p (evs @ [e]) = sent_closes p evs + (if ev_path e = p \<and> is_close (ev_kind e) then 1 else 0)"
  by (simp_all add: sent_opens_def sent_closes_def)

lemma handles_ok_opened_write:
  assumes "handles_ok fc x" and "map_of (fst x) fh = None"
  shows "handles_ok fc (opened_write fh path app x)"
  using assms by (auto simp: handles_ok_def opened_write_def distinct_update split: prod.splits)

lemma handles_ok_opened_read:
  assumes "handles_ok fc x" and "map_of (fst x) fh = None" and "map_of (fst (snd (snd x))) fh = None"
    and ev: "\<And>e. event = Some e \<Longrightarrow> ev_path e = path \<and> \<not> is_close (ev_kind e)"
  shows "handles_ok fc (opened_read fc fh path event x)"
proof -
  obtain ob op wp ah evs where x: "x = (ob, op, wp, ah, evs)" by (cases x) auto
  have new: "map_of op fh = None"
    using assms(1,2) unfolding x by (auto simp: handles_ok_def dom_def)
  show ?thesis
  proof (cases event)
    case None
    with assms x show ?thesis by (auto simp: handles_ok_def opened_read_def distinct_update)
  next
    case (Some e)
    with ev [OF Some] assms x new show ?thesis
      by (auto simp: handles_ok_def opened_read_def distinct_update open_on_update)
  qed
qed

lemma handles_ok_release:
  assumes "handles_ok fc (handle_tables s)"
  shows "handles_ok fc (handle_tables (release_read fc fh s))"
proof (cases "map_of (fs_open_paths s) fh")
  case None
  then have "AList.delete fh (fs_open_paths s) = fs_open_paths s"
    by (simp add: delete_idem map_of_eq_None_iff)
  moreover from None have "fh \<notin> dom (map_of (fs_open_paths s))" by auto
  ultimately show ?thesis using None assms
    by (auto simp: handles_ok_def handle_tables_def release_read_def Let_def distinct_delete)
next
  case (Some path)
  have "distinct (map fst (fs_open_paths s))" using assms by (simp add: handles_ok_def handle_tables_def)
  note balance = open_on_delete [OF this, of _ fh]
  show ?thesis using Some assms
    by (auto simp: handles_ok_def handle_tables_def release_read_def Let_def distinct_delete balance split: if_splits)
qed

lemma handles_ok_forget_write:
  assumes "handles_ok fc (ob, op, wp, ah, ev)"
  shows "handles_ok fc (ob, op, AList.delete fh wp, removeAll fh ah, ev)"
  using assms by (auto simp: handles_ok_def distinct_delete)

lemma run_update [simp]: "run_state (State_Monad.update g) s = ((), g s)"
  by (simp add: State_Monad.update_def)

lemma run_gets [simp]: "run_state (gets f) s = (f s, s)"
  by (simp add: gets_def)

lemma run_kernel: "run_state (kernel m) s = (fst (run_state m (fs_kernel s)), s\<lparr>fs_kernel := snd (run_state m (fs_kernel s))\<rparr>)"
  by (simp add: kernel_def split: prod.splits)

lemma same_after: "keeps (same_handles (handle_tables s)) m \<Longrightarrow> run_state m s = (a, t) \<Longrightarrow> handle_tables t = handle_tables s"
  unfolding keeps_def same_handles_def by (metis snd_conv)

lemma open_write_shape:
  assumes "run_state (open_write_handle sys path flags mode) s = (r, t)"
  shows "(\<exists>e. r = Inl e \<and> handle_tables t = handle_tables s) \<or>
    (\<exists>fh. r = Inr fh \<and> handle_tables t = opened_write fh path (flags AND O_APPEND \<noteq> 0) (handle_tables s))"
proof -
  obtain o1 k where o1: "run_state (open_file_with_flags sys path flags mode) (fs_kernel s) = (o1, k)" by fastforce
  show ?thesis
  proof (cases o1)
    case (Inl e)
    with assms o1 show ?thesis by (auto simp: open_write_handle_def run_kernel)
  next
    case (Inr fh)
    with assms o1 show ?thesis
      by (auto simp: open_write_handle_def run_kernel handle_tables_def opened_write_def)
  qed
qed

lemma engine_event_ok: "engine_event fc outcome path = Some e \<Longrightarrow> ev_path e = path \<and> \<not> is_close (ev_kind e)"
  by (auto simp: engine_event_def split: open_outcome.splits if_splits)

lemma notify_tables:
  "handle_tables ((notify_engine fc filtered outcome fh path s)\<lparr>fs_open_bytes := AList.update fh 0 (fs_open_bytes s)\<rparr>) =
     opened_read fc fh path (if filtered then None else engine_event fc outcome path) (handle_tables s)"
  by (simp add: notify_engine_def handle_tables_def opened_read_def split: option.splits)

lemma notify_open_bytes [simp]: "fs_open_bytes (notify_engine fc filtered outcome fh path s) = fs_open_bytes s"
  by (simp add: notify_engine_def split: option.splits)

lemma log_open_tables [simp]: "handle_tables (log_open fc process outcome s) = handle_tables s"
  by (simp add: log_open_def split: option.splits)

lemma read_open_shape:
  assumes "run_state (read_open fc sys pf now instant req path) s = (r, t)"
  shows "(\<exists>e. r = RError e \<and> handle_tables t = handle_tables s) \<or>
    (\<exists>fh event. r = ROpened fh \<and> handle_tables t = opened_read fc fh path event (handle_tables s) \<and>
       (\<forall>e. event = Some e \<longrightarrow> ev_path e = path \<and> \<not> is_close (ev_kind e)))"
proof -
  define filtered where "filtered = opener_filtered fc (opener fc pf req)"
  obtain b s1 where sup: "run_state (should_suppress_log fc instant path) s = (b, s1)" by fastforce
  obtain o1 s2 where tr: "run_state (try_open fc sys now path filtered) s1 = (o1, s2)" by fastforce
  have s1: "handle_tables s1 = handle_tables s" by (rule same_after [OF keeps_suppress sup])
  have s2: "handle_tables s2 = handle_tables s1" by (rule same_after [OF same_parts(11) tr])
  show ?thesis
  proof (cases o1)
    case (Inl e)
    with assms have "r = RError e" "t = s2"
      by (simp_all add: read_open_def sup tr Let_def filtered_def [symmetric])
    with s1 s2 show ?thesis by simp
  next
    case (Inr ho)
    obtain fh outcome where ho: "ho = (fh, outcome)" by fastforce
    let ?ev = "if filtered then None else engine_event fc outcome path"
    from assms Inr ho have r: "r = ROpened fh"
      by (simp add: read_open_def sup tr Let_def filtered_def [symmetric])
    have "handle_tables t = handle_tables ((notify_engine fc filtered outcome fh path s2)\<lparr>fs_open_bytes := AList.update fh 0 (fs_open_bytes s2)\<rparr>)"
      using assms Inr ho
      by (auto simp: read_open_def sup tr Let_def filtered_def [symmetric])
    also have "\<dots> = opened_read fc fh path ?ev (handle_tables s)"
      using notify_tables s1 s2 by metis
    finally show ?thesis using r engine_event_ok by (intro disjI2 exI [of _ fh] exI [of _ ?ev]) (auto split: if_splits)
  qed
qed

lemma run_or_fail:
  "run_state (or_fail m f) s =
     (case run_state m s of (r, t) \<Rightarrow> (case r of Inl e \<Rightarrow> (RError e, t) | Inr a \<Rightarrow> run_state (f a) t))"
  by (simp add: or_fail_def split: prod.splits sum.splits)

lemma handles_free: "handle_free fh s \<Longrightarrow> map_of (fst (handle_tables s)) fh = None"
    "handle_free fh s \<Longrightarrow> map_of (fst (snd (snd (handle_tables s)))) fh = None"
  by (simp_all add: handle_free_def handle_tables_def)

lemma ok_fuse_open:
  assumes ok: "handles_ok fc (handle_tables s)" and run: "run_state (fuse_open fc sys pf now instant req ino flags) s = (r, t)"
    and free: "\<And>fh. r = ROpened fh \<Longrightarrow> handle_free fh s"
  shows "handles_ok fc (handle_tables t)"
proof (cases "get_path (fs_inodes s) ino")
  case None
  with run ok show ?thesis by (auto simp: fuse_open_def path_for_ino_def)
next
  case (Some path)
  show ?thesis
  proof (cases "is_write_intent flags")
    case False
    with run Some have "run_state (read_open fc sys pf now instant req path) s = (r, t)"
      by (simp add: fuse_open_def path_for_ino_def)
    from read_open_shape [OF this] show ?thesis
    proof (elim disjE exE conjE)
      fix e assume "handle_tables t = handle_tables s"
      with ok show ?thesis by simp
    next
      fix fh event
      assume r: "r = ROpened fh" and t: "handle_tables t = opened_read fc fh path event (handle_tables s)"
        and ev: "\<forall>e. event = Some e \<longrightarrow> ev_path e = path \<and> \<not> is_close (ev_kind e)"
      from free [OF r] have "map_of (fst (handle_tables s)) fh = None"
        "map_of (fst (snd (snd (handle_tables s)))) fh = None" by (simp_all add: handles_free)
      then show ?thesis unfolding t using ok ev by (intro handles_ok_opened_read) auto
    qed
  next
    case True
    obtain o1 u where o1: "run_state (open_write_handle sys path flags 0) s = (o1, u)" by fastforce
    with run Some True have t: "t = u" and r: "r = (case o1 of Inl e \<Rightarrow> RError e | Inr fh \<Rightarrow> ROpened fh)"
      by (auto simp: fuse_open_def path_for_ino_def split: sum.splits)
    from open_write_shape [OF o1] show ?thesis
    proof (elim disjE exE conjE)
      fix e assume "handle_tables u = handle_tables s"
      with ok t show ?thesis by simp
    next
      fix fh assume fh: "o1 = Inr fh"
        and u: "handle_tables u = opened_write fh path (flags AND O_APPEND \<noteq> 0) (handle_tables s)"
      with r free have "handle_free fh s" by simp
      then show ?thesis unfolding t u using ok by (intro handles_ok_opened_write) (simp_all add: handles_free)
    qed
  qed
qed

lemma ok_undo:
  assumes ok: "handles_ok fc (handle_tables s)" and run: "run_state (undo_create sys fh path e) s = (r, t)"
  shows "handles_ok fc (handle_tables t) \<and> r = RError e"
proof -
  obtain ob op wp ah ev where x: "handle_tables s = (ob, op, wp, ah, ev)" by (cases "handle_tables s") auto
  have "handle_tables t = (ob, op, AList.delete fh wp, removeAll fh ah, ev)" "r = RError e"
    using run x by (auto simp: undo_create_def run_kernel handle_tables_def)
  with ok handles_ok_forget_write x show ?thesis by metis
qed

text \<open>A create: no handle, or a new one that the reply carries or that is undone.\<close>

lemma ok_do_create:
  assumes ok: "handles_ok fc (handle_tables s)"
    and run: "run_state (do_create sys req dir_ino name mode umask flags) s = (r, t)"
    and free: "\<And>fh. handle_free fh s \<or> \<not> (\<exists>path s1. run_state (open_write_handle sys path (flags OR O_CREAT OR O_EXCL)
        (apply_umask mode umask)) s = (Inr fh, s1))"
  shows "handles_ok fc (handle_tables t)"
proof (cases "get_path (fs_inodes s) dir_ino")
  case None
  with run ok show ?thesis by (auto simp: do_create_def run_or_fail child_path_def)
next
  case (Some dir)
  let ?path = "if dir = [] then [name] else join dir [name]"
  obtain o1 s1 where o1: "run_state (open_write_handle sys ?path (flags OR O_CREAT OR O_EXCL) (apply_umask mode umask)) s = (o1, s1)"
    by fastforce
  from open_write_shape [OF o1] show ?thesis
  proof (elim disjE exE conjE)
    fix e assume "o1 = Inl e" "handle_tables s1 = handle_tables s"
    moreover from this have "t = s1" using run Some o1 by (auto simp: do_create_def run_or_fail child_path_def)
    ultimately show ?thesis using ok by simp
  next
    fix fh assume fh: "o1 = Inr fh"
      and s1: "handle_tables s1 = opened_write fh ?path ((flags OR O_CREAT OR O_EXCL) AND O_APPEND \<noteq> 0) (handle_tables s)"
    have "handle_free fh s" using free [of fh] o1 fh by blast
    then have ok1: "handles_ok fc (handle_tables s1)"
      unfolding s1 using ok by (intro handles_ok_opened_write) (simp_all add: handles_free)
    obtain s2 where s2: "run_state (fchown_to_requester sys fh ?path req) s1 = ((), s2)"
      by (cases "run_state (fchown_to_requester sys fh ?path req) s1") simp
    obtain a s3 where s3: "run_state (fresh_attr_for_path sys ?path) s2 = (a, s3)" by fastforce
    have same: "handle_tables s3 = handle_tables s1"
      using same_after [OF same_parts(5) s2] same_after [OF same_parts(3) s3] by simp
    show ?thesis
    proof (cases a)
      case (Inr attr)
      with run Some o1 fh s2 s3 have "t = s3"
        by (auto simp: do_create_def run_or_fail child_path_def)
      with ok1 same show ?thesis by simp
    next
      case (Inl e)
      with run Some o1 fh s2 s3 have "run_state (undo_create sys fh ?path e) s3 = (r, t)"
        by (auto simp: do_create_def run_or_fail child_path_def)
      from ok_undo [OF _ this] ok1 same show ?thesis by simp
    qed
  qed
qed

lemma handles_ok_count:
  assumes "handles_ok fc (ob, op, wp, ah, ev)" and "map_of ob fh = Some n"
  shows "handles_ok fc (AList.update fh n' ob, op, wp, ah, ev)"
proof -
  from assms(2) have "insert fh (dom (map_of ob)) = dom (map_of ob)" by auto
  with assms(1) show ?thesis by (simp add: handles_ok_def distinct_update)
qed

lemma ok_do_read:
  assumes "handles_ok fc (handle_tables s)" and "run_state (do_read sys fh offset sz) s = (r, t)"
  shows "handles_ok fc (handle_tables t)"
proof -
  obtain a k where a: "run_state (sys_call sys (Pread fh sz (as_i64 offset))) (fs_kernel s) = (a, k)" by fastforce
  show ?thesis
  proof (cases "got_bytes a")
    case (Inl e)
    with a assms show ?thesis by (auto simp: do_read_def run_kernel)
  next
    case (Inr buf)
    show ?thesis
    proof (cases "map_of (fs_open_bytes s) fh")
      case None
      with Inr a assms show ?thesis by (auto simp: do_read_def run_kernel)
    next
      case (Some n)
      with Inr a assms(2) have "handle_tables t =
          (AList.update fh (add64 n (length buf)) (fs_open_bytes s), fs_open_paths s, fs_write_paths s, fs_append_handles s, fs_events s)"
        by (auto simp: do_read_def run_kernel handle_tables_def)
      with handles_ok_count [OF _ Some] assms(1) show ?thesis by (simp add: handle_tables_def)
    qed
  qed
qed

lemma ok_release:
  assumes "handles_ok fc (handle_tables s)" and "run_state (fuse_release fc sys fh) s = (r, t)"
  shows "handles_ok fc (handle_tables t)"
proof (cases "map_of (fs_write_paths s) fh")
  case None
  with assms(2) have "handle_tables t = handle_tables (release_read fc fh s)"
    by (auto simp: fuse_release_def run_kernel)
  with handles_ok_release [OF assms(1)] show ?thesis by simp
next
  case (Some path)
  obtain ob op wp ah ev where x: "handle_tables s = (ob, op, wp, ah, ev)" by (cases "handle_tables s") auto
  with Some assms(2) have "handle_tables t = (ob, op, AList.delete fh wp, removeAll fh ah, ev)"
    by (auto simp: fuse_release_def run_kernel handle_tables_def)
  with handles_ok_forget_write assms(1) x show ?thesis by metis
qed

lemma handles_ok_served:
  assumes ok: "handles_ok fc (handle_tables s)" and run: "run_state (handle fc sys e op) s = (r, t)"
    and free: "\<And>fh. gets_handle sys op s r fh \<Longrightarrow> handle_free fh s"
  shows "handles_ok fc (handle_tables t)"
proof (cases "opens_or_closes op")
  case False
  from same_after [OF same_handle [OF False] run] ok show ?thesis by simp
next
  case True
  then consider (op) ino flags where "op = OpOpen ino flags" | (rd) fh offset sz where "op = OpRead fh offset sz"
    | (rl) fh where "op = OpRelease fh" | (cr) d n m u fl where "op = OpCreate d n m u fl"
    by (cases op) (auto simp: opens_or_closes_def)
  then show ?thesis
  proof cases
    case op
    with run free show ?thesis by (intro ok_fuse_open [OF ok]) (auto simp: handle_def gets_handle_def)
  next
    case rd
    with run show ?thesis by (intro ok_do_read [OF ok]) (simp add: handle_def)
  next
    case rl
    with run show ?thesis by (intro ok_release [OF ok]) (simp add: handle_def)
  next
    case cr
    with run free show ?thesis
      by (intro ok_do_create [OF ok]) (auto simp: handle_def gets_handle_def)
  qed
qed

text \<open>C9. Handle accounting: in every state the filesystem can reach, each handle is in the read tables
  or in the write tables but not in both, append handles are write handles, every handle the engine
  was told about has a byte count, and, for every path, the opens announced to the engine exceed the
  closes announced by exactly the read handles still open on it: no open is left without its close.\<close>

theorem fuse_handle_accounting:
  assumes "fuse_reachable fc sys s"
  shows "dom (map_of (fs_open_bytes s)) \<inter> dom (map_of (fs_write_paths s)) = {} \<and>
    set (fs_append_handles s) \<subseteq> dom (map_of (fs_write_paths s)) \<and>
    dom (map_of (fs_open_paths s)) \<subseteq> dom (map_of (fs_open_bytes s)) \<and>
    (fc_access_tx fc \<longrightarrow> sent_opens p (fs_events s) = sent_closes p (fs_events s) + open_on p (fs_open_paths s))"
proof -
  have "handles_ok fc (handle_tables s)"
    using assms
  proof (induction rule: fuse_reachable.induct)
    case (mounted k d db)
    show ?case by (simp add: fs_new_def handle_tables_def handles_ok_def sent_opens_def sent_closes_def open_on_def)
  next
    case (served s e op r t)
    then show ?case using handles_ok_served by blast
  next
    case (others s d db)
    then show ?case by (simp add: handle_tables_def)
  qed
  then show ?thesis by (simp add: handles_ok_def handle_tables_def)
qed

section \<open>What a client sees of a cached file\<close>

definition plain_time :: "int \<Rightarrow> int \<Rightarrow> bool" where
  "plain_time t nsec = (0 \<le> t \<and> t < 2 ^ 63 \<and> 0 \<le> nsec \<and> nsec < 1000000000)"

lemma epoch_plus_plain:
  assumes "plain_time t nsec"
  shows "epoch_plus (as_u64 t) (word_of_int nsec) = Some (nat t, nat nsec)"
    and "epoch_plus (max0_u64 t) (max0_u32 nsec) = Some (nat t, nat nsec)"
proof -
  have n: "unat (word_of_int nsec :: u32) = nat nsec"
    using assms by (simp add: plain_time_def unat_eq_nat_uint take_bit_int_eq_self uint_word_of_int_eq)
  have q: "nat nsec div 1000000000 = 0" "nat nsec mod 1000000000 = nat nsec"
    using assms by (simp_all add: plain_time_def nat_less_iff)
  have t: "as_u64 t = nat t" "max0_u64 t = nat t" "max0_u32 nsec = word_of_int nsec" "nat t < 2 ^ 63"
    using assms by (simp_all add: plain_time_def as_u64_def max0_u64_def max0_u32_def nat_less_iff)
  show "epoch_plus (as_u64 t) (word_of_int nsec) = Some (nat t, nat nsec)"
    "epoch_plus (max0_u64 t) (max0_u32 nsec) = Some (nat t, nat nsec)"
    unfolding epoch_plus_def t n q using t(4) by simp_all
qed

text \<open>C11. Transparency: for a regular file with times from the epoch on, the attributes served from the
  snapshot taken of it are those served from the backing file itself, and neither conversion panics.\<close>

theorem cached_attr_transparent:
  assumes "mode_to_filetype (st_mode s) = RegularFile"
    and "0 \<le> st_size s" and "st_size s < 2 ^ 63" and "0 \<le> st_blocks s" and "st_blocks s < 2 ^ 63"
    and "plain_time (st_atime s) (st_atime_nsec s)" and "plain_time (st_mtime s) (st_mtime_nsec s)"
    and "plain_time (st_ctime s) (st_ctime_nsec s)"
  shows "source_metadata_to_attr ino (from_stat s) = stat_to_attr ino s \<and> stat_to_attr ino s \<noteq> None"
proof -
  have "as_u64 (st_size s) = max0_u64 (st_size s)" "as_u64 (st_blocks s) = max0_u64 (st_blocks s)"
    using assms(2-5) by (simp_all add: as_u64_def max0_u64_def)
  then show ?thesis
    using epoch_plus_plain [OF assms(6)] epoch_plus_plain [OF assms(7)] epoch_plus_plain [OF assms(8)] assms(1)
    by (simp add: source_metadata_to_attr_def stat_to_attr_def from_stat_def)
qed

text \<open>A file dated before 1970 has attributes when it is cached, and panics the handler when it is not.\<close>

theorem pre_epoch_stat_panics:
  assumes "- (2 ^ 63) \<le> st_mtime s" and "st_mtime s < 0"
  shows "stat_to_attr ino s = None"
proof -
  have "(st_mtime s + 2 ^ 64) mod 2 ^ 64 = st_mtime s + 2 ^ 64"
    using assms by (intro mod_pos_pos_trivial) simp_all
  then have "st_mtime s mod 2 ^ 64 = st_mtime s + 2 ^ 64" by simp
  then have "2 ^ 63 \<le> as_u64 (st_mtime s)"
    using assms(1) by (simp add: as_u64_def le_nat_iff)
  then have "epoch_plus (as_u64 (st_mtime s)) w = None" for w
    by (simp add: epoch_plus_def)
  then show ?thesis by (simp add: stat_to_attr_def split: option.splits)
qed

section \<open>Directory pages\<close>

definition numbered :: "nat \<Rightarrow> dir_entry list \<Rightarrow> added" where
  "numbered i es = map (\<lambda>(j, name, ino, kind). (ino, j + 1, kind, name)) (enumerate i es)"

lemma numbered_Cons [simp]: "numbered i [] = []"
  "numbered i ((name, ino, kind) # es) = (ino, i + 1, kind, name) # numbered (Suc i) es"
  by (simp_all add: numbered_def)

lemma length_numbered [simp]: "length (numbered i es) = length es"
  by (simp add: numbered_def)

lemma reply_loop_spec:
  "\<exists>n. reply_loop full offset i es acc = acc @ take n (drop (offset - i) (numbered i es)) \<and>
     (offset - i < length es \<longrightarrow> (\<forall>e. \<not> full acc e) \<longrightarrow> 0 < n)"
proof (induction es arbitrary: i acc)
  case Nil
  then show ?case by simp
next
  case (Cons a es)
  obtain name ino kind where a: "a = (name, ino, kind)" by (cases a) auto
  let ?e = "(ino, i + 1, kind, name)"
  consider (skip) "i + 1 \<le> offset" | (stop) "\<not> i + 1 \<le> offset" "full acc ?e" | (add) "\<not> i + 1 \<le> offset" "\<not> full acc ?e"
    by blast
  then show ?case
  proof cases
    case skip
    then have "offset - i = Suc (offset - Suc i)" by simp
    with skip Cons.IH [of "Suc i" acc] show ?thesis unfolding a by simp
  next
    case stop
    then show ?thesis unfolding a by (intro exI [of _ 0]) auto
  next
    case add
    from Cons.IH [of "Suc i" "acc @ [?e]"] obtain n where
      "reply_loop full offset (Suc i) es (acc @ [?e]) = (acc @ [?e]) @ take n (drop (offset - Suc i) (numbered (Suc i) es))"
      by blast
    with add show ?thesis unfolding a by (intro exI [of _ "Suc n"]) simp
  qed
qed

text \<open>The kernel's reading of a directory: it asks again from the last offset it was given, until
  nothing comes back; the number of requests is bounded by \<open>fuel\<close>.\<close>

fun read_pages :: "(added \<Rightarrow> nat \<times> nat \<times> file_type \<times> string \<Rightarrow> bool) \<Rightarrow> dir_entry list \<Rightarrow> nat \<Rightarrow> nat \<Rightarrow> added option" where
  "read_pages full es 0 offset = None"
| "read_pages full es (Suc fuel) offset =
     (let page = reply_loop full offset 0 es []
      in if page = [] then Some []
         else map_option ((@) page) (read_pages full es fuel (fst (snd (last page)))))"

lemma numbered_nth: "j < length es \<Longrightarrow> fst (snd (numbered 0 es ! j)) = Suc j"
  by (simp add: numbered_def nth_enumerate_eq split: prod.splits)

lemma read_pages_from:
  assumes "\<And>e. \<not> full [] e" and "length es < fuel + offset" and "offset \<le> length es"
  shows "read_pages full es fuel offset = Some (drop offset (numbered 0 es))"
  using assms(2,3)
proof (induction fuel arbitrary: offset)
  case 0
  then show ?case by simp
next
  case (Suc fuel)
  obtain n where page: "reply_loop full offset 0 es [] = take n (drop offset (numbered 0 es))"
    and pos: "offset < length es \<Longrightarrow> 0 < n"
    using reply_loop_spec [of full offset 0 es "[]"] assms(1) by auto
  show ?case
  proof (cases "offset < length es")
    case False
    then show ?thesis by (simp add: page)
  next
    case True
    define m where "m = min n (length es - offset)"
    have m: "0 < m" "offset + m \<le> length es" using pos [OF True] True by (auto simp: m_def)
    have pg: "reply_loop full offset 0 es [] = take m (drop offset (numbered 0 es))"
      unfolding page m_def by (simp add: min_def)
    have "last (take m (drop offset (numbered 0 es))) = numbered 0 es ! (offset + m - 1)"
      using m by (simp add: last_conv_nth nth_append)
    then have off: "fst (snd (last (take m (drop offset (numbered 0 es))))) = offset + m"
      using m by (simp add: numbered_nth)
    have ne: "take m (drop offset (numbered 0 es)) \<noteq> []" using m by simp
    have "read_pages full es fuel (offset + m) = Some (drop (offset + m) (numbered 0 es))"
      using Suc.prems m by (intro Suc.IH) simp
    moreover have "take m (drop offset (numbered 0 es)) @ drop (offset + m) (numbered 0 es) = drop offset (numbered 0 es)"
      by (metis add.commute append_take_drop_id drop_drop)
    ultimately show ?thesis by (simp only: read_pages.simps Let_def pg ne off if_False option.map simp_thms)
  qed
qed


section \<open>A create that fails\<close>

text \<open>A machine that records the calls it is asked.\<close>

definition logged :: "'k machine \<Rightarrow> ('k \<times> syscall list) machine" where
  "logged sys c kl = (case sys c (fst kl) of (r, k) \<Rightarrow> (r, (k, snd kl @ [c])))"

definition calls :: "('k \<times> syscall list) fs_state \<Rightarrow> syscall list" where
  "calls s = snd (fs_kernel s)"

lemma run_sys_call [simp]: "run_state (sys_call sys c) k = sys c k"
  by (simp add: sys_call_def)

lemma logged_calls: "snd (snd (logged sys c kl)) = snd kl @ [c]"
  by (simp add: logged_def split: prod.splits)

lemma delete_update_new: "map_of m k = None \<Longrightarrow> AList.delete k (AList.update k v m) = m"
  by (induction m) (auto simp: AList.delete_eq)

lemma fresh_attr_fails:
  assumes "run_state (fresh_attr_for_path sys p) s = (Inl e, t)"
  shows "e = ENOENT \<and> fs_inodes t = fs_inodes s"
  using assms
  by (auto simp: fresh_attr_for_path_def run_kernel sys_stat_def inode_for_def split: option.splits prod.splits)

lemma chown_inodes: "run_state (fchown_to_requester sys fh p req) s = (u, t) \<Longrightarrow> fs_inodes t = fs_inodes s"
  by (auto simp: fchown_to_requester_def run_kernel)

lemma open_write_inodes: "run_state (open_write_handle sys p fl m) s = (a, t) \<Longrightarrow> fs_inodes t = fs_inodes s"
  by (auto simp: open_write_handle_def run_kernel split: sum.splits)

text \<open>C10. A create that fails leaves nothing behind: the reply is an error only when the open failed or the
  new file's attributes could not be had; in both cases the inode table and the handle tables are as
  before, and in the second the last two calls close the new handle and remove the new file. An
  existing file without O_EXCL is answered with ESTALE.\<close>

theorem create_fails_cleanly:
  assumes run: "run_state (do_create (logged sys) req dir_ino name mode umask flags) s = (RError e, t)"
    and dir: "get_path (fs_inodes s) dir_ino = Some dir"
    and opened: "run_state (open_write_handle (logged sys) (join dir [name]) (flags OR O_CREAT OR O_EXCL)
        (apply_umask mode umask)) s = (a, s1)"
    and free: "\<And>fh. a = Inr fh \<Longrightarrow> handle_free fh s \<and> fh \<notin> set (fs_append_handles s)"
  shows "fs_inodes t = fs_inodes s \<and> handle_tables t = handle_tables s \<and>
    (case a of
       Inl e' \<Rightarrow> e = (if e' = EEXIST \<and> flags AND O_EXCL = 0 then ESTALE else e')
     | Inr fh \<Rightarrow> e = ENOENT \<and> (\<exists>before. calls t = before @ [Closefd fh, Unlinkat (join dir [name])]))"
proof -
  let ?path = "join dir [name]"
  have child: "(if dir = [] then [name] else ?path) = ?path" by simp
  show ?thesis
  proof (cases a)
    case (Inl e')
    with run dir opened have "t = s1" "e = (if e' = EEXIST \<and> flags AND O_EXCL = 0 then ESTALE else e')"
      by (auto simp: do_create_def run_or_fail child_path_def child simp del: if_cancel)
    with Inl open_write_shape [OF opened] open_write_inodes [OF opened] show ?thesis by auto
  next
    case (Inr fh)
    have tabs1: "handle_tables s1 = opened_write fh ?path ((flags OR O_CREAT OR O_EXCL) AND O_APPEND \<noteq> 0) (handle_tables s)"
      using open_write_shape [OF opened] Inr by auto
    obtain s2 where s2: "run_state (fchown_to_requester (logged sys) fh ?path req) s1 = ((), s2)"
      by (cases "run_state (fchown_to_requester (logged sys) fh ?path req) s1") simp
    obtain b s3 where s3: "run_state (fresh_attr_for_path (logged sys) ?path) s2 = (b, s3)" by fastforce
    have tabs3: "handle_tables s3 = handle_tables s1"
      using same_after [OF same_parts(5) s2] same_after [OF same_parts(3) s3] by simp
    have rest: "(case b of Inr attr \<Rightarrow> (created fh attr, s3) | Inl e' \<Rightarrow> run_state (undo_create (logged sys) fh ?path e') s3) = (RError e, t)"
      using run dir opened Inr s2 s3
      by (auto simp: do_create_def run_or_fail child_path_def child simp del: if_cancel split: sum.splits)
    then obtain e' where b: "b = Inl e'" and undo: "run_state (undo_create (logged sys) fh ?path e') s3 = (RError e, t)"
      by (cases b) (auto simp: created_def reply_attr_def split: option.splits)
    from fresh_attr_fails [OF s3 [unfolded b]] have "e' = ENOENT" and i3: "fs_inodes s3 = fs_inodes s2" by simp_all
    moreover have "fs_inodes s2 = fs_inodes s" using chown_inodes [OF s2] open_write_inodes [OF opened] by simp
    moreover have "e = e'" "fs_inodes t = fs_inodes s3" using undo by (auto simp: undo_create_def run_kernel)
    moreover have "handle_tables t = handle_tables s"
      using undo tabs3 tabs1 free [OF Inr]
      by (auto simp: undo_create_def run_kernel handle_tables_def opened_write_def delete_update_new handle_free_def)
    moreover have "\<exists>before. calls t = before @ [Closefd fh, Unlinkat ?path]"
      using undo by (auto simp: undo_create_def run_kernel calls_def bs_unlink_file_def unit_call_def logged_calls
          split: prod.splits) (metis append.assoc append_Cons append_Nil logged_calls snd_conv)
    ultimately show ?thesis using Inr by simp
  qed
qed

section \<open>Samples\<close>

text \<open>A kernel that knows every path as a regular file of 3 bytes and hands out rising descriptors; and
  one that refuses every stat.\<close>

fun sample_sys :: "nat machine" where
  "sample_sys (Fstatat p) k = (GotStat (sample_stat 3 1), k)"
| "sample_sys (Openat p fl m) k = (GotFd k, Suc k)"
| "sample_sys (OpenAbs p) k = (GotFd k, Suc k)"
| "sample_sys (Pread fh n off) k = (GotBytes [1, 2, 3], k)"
| "sample_sys c k = (Done, k)"

fun blind_sys :: "nat machine" where
  "blind_sys (Fstatat p) k = (Failed 2, k)"
| "blind_sys (Openat p fl m) k = (GotFd k, Suc k)"
| "blind_sys c k = (Done, k)"

definition sample_fc :: fs_config where
  "sample_fc = \<lparr>fc_passthrough_mode = False, fc_cache = None, fc_access_tx = True, fc_repeat_log_window = 0,
     fc_preset = None, fc_discovery = False, fc_backing_watch = True\<rparr>"

definition sample_req :: fuse_request where
  "sample_req = \<lparr>rq_pid = 10, rq_uid = 1000, rq_gid = 1000\<rparr>"

definition sample_fe :: fuse_env where
  "sample_fe = \<lparr>fe_req = sample_req, fe_procs = \<lparr>pf_exe = (\<lambda>p. None), pf_status = (\<lambda>p. None), pf_cmdline = (\<lambda>p. None)\<rparr>,
     fe_now = 50, fe_instant = 0, fe_clock = (50, 0), fe_full = (\<lambda>a e. length a \<ge> 2)\<rparr>"

definition fs_mounted :: "nat fs_state" where
  "fs_mounted = fs_new 7 sample_disk db_empty"

definition fs_looked_up :: "nat fs_state" where
  "fs_looked_up = snd (run_state (handle sample_fc sample_sys sample_fe (OpLookup 1 ''a'')) fs_mounted)"

definition fs_opened :: "nat fs_state" where
  "fs_opened = snd (run_state (handle sample_fc sample_sys sample_fe (OpOpen 2 0)) fs_looked_up)"

lemma root_path: "get_path inode_new (Suc 0) = Some []"
  by (simp add: inode_new_def get_path_def ROOT_INO_def)

lemma sample_inode: "get_or_create [''a''] inode_new = Some (2,
  \<lparr>by_ino = [(1, \<lparr>ie_path = [], ie_refcount = u64_max\<rparr>), (2, \<lparr>ie_path = [''a''], ie_refcount = 1\<rparr>)],
   by_path = [([], 1), ([''a''], 2)], next_ino = 3\<rparr>)"
  by (simp add: get_or_create_def inode_new_def ROOT_INO_def add64_def)

definition table_a :: inode_table where
  "table_a = \<lparr>by_ino = [(1, \<lparr>ie_path = [], ie_refcount = u64_max\<rparr>), (2, \<lparr>ie_path = [''a''], ie_refcount = 1\<rparr>)],
     by_path = [([], 1), ([''a''], 2)], next_ino = 3\<rparr>"

lemma looked_up_eq: "\<exists>r. run_state (handle sample_fc sample_sys sample_fe (OpLookup 1 ''a'')) fs_mounted =
  (r, fs_mounted\<lparr>fs_inodes := table_a\<rparr>) \<and> (\<forall>fh. r \<noteq> ROpened fh)"
  by (simp add: handle_def do_lookup_def child_path_def root_path inode_for_def sample_inode run_kernel
      cached_regular_attr_def sample_fc_def fs_mounted_def fs_new_def sys_stat_def got_stat_def log_touch_def
      sample_stat_def S_IFREG_def S_IFMT_def S_IFDIR_def reply_attr_def table_a_def split: option.splits)

lemma opened_eq: "run_state (handle sample_fc sample_sys sample_fe (OpOpen 2 0)) (fs_mounted\<lparr>fs_inodes := table_a\<rparr>) =
  (ROpened 7, fs_mounted\<lparr>fs_inodes := table_a, fs_open_bytes := [(7, 0)], fs_open_paths := [(7, [''a''])],
     fs_events := [\<lparr>ev_path = [''a''], ev_kind = Miss\<rparr>], fs_kernel := 8\<rparr>)"
  by (simp add: handle_def fuse_open_def path_for_ino_def table_a_def get_path_def is_write_intent_def O_ACCMODE_def
      O_WRONLY_def O_RDWR_def read_open_def should_suppress_log_def sample_fc_def opener_def opener_filtered_def
      try_open_def open_backing_def run_kernel sys_open_file_def open_file_with_flags_def got_fd_def fs_mounted_def
      fs_new_def notify_engine_def engine_event_def log_open_def Let_def)

lemma fs_opened_reachable: "fuse_reachable sample_fc sample_sys fs_opened"
proof -
  obtain r where r: "run_state (handle sample_fc sample_sys sample_fe (OpLookup 1 ''a'')) fs_mounted =
    (r, fs_mounted\<lparr>fs_inodes := table_a\<rparr>)" "\<forall>fh. r \<noteq> ROpened fh" using looked_up_eq by blast
  have m: "fuse_reachable sample_fc sample_sys fs_mounted" unfolding fs_mounted_def by (rule mounted)
  have "fuse_reachable sample_fc sample_sys (fs_mounted\<lparr>fs_inodes := table_a\<rparr>)"
    by (rule served [OF m r(1)])
      (use r(2) in \<open>simp add: gets_handle_def\<close>)
  then have "fuse_reachable sample_fc sample_sys (snd (run_state (handle sample_fc sample_sys sample_fe (OpOpen 2 0))
      (fs_mounted\<lparr>fs_inodes := table_a\<rparr>)))"
    unfolding opened_eq snd_conv
    by (rule served [OF _ opened_eq]) (simp add: gets_handle_def handle_free_def fs_mounted_def fs_new_def)
  then show ?thesis by (simp only: fs_opened_def fs_looked_up_def r(1) snd_conv)
qed

theorem fuse_handle_accounting_witness:
  "sent_opens [''a''] (fs_events fs_opened) = sent_closes [''a''] (fs_events fs_opened) + open_on [''a''] (fs_open_paths fs_opened)"
  using fuse_handle_accounting [OF fs_opened_reachable, of "[''a'']"] by (simp add: sample_fc_def)

theorem cached_attr_transparent_witness:
  "source_metadata_to_attr 2 (from_stat (sample_stat 3 1)) = stat_to_attr 2 (sample_stat 3 1)"
  using cached_attr_transparent [of "sample_stat 3 1" 2]
  by (simp add: sample_stat_def mode_to_filetype_def plain_time_def S_IFREG_def S_IFMT_def S_IFDIR_def S_IFLNK_def
      S_IFBLK_def S_IFCHR_def S_IFIFO_def S_IFSOCK_def)


definition fs_logged :: "(nat \<times> syscall list) fs_state" where
  "fs_logged = fs_new (7, []) sample_disk db_empty"

lemma logged_open: "run_state (open_write_handle (logged blind_sys) [''n''] (0 OR O_CREAT OR O_EXCL) (apply_umask 0x1A4 0x12)) fs_logged =
  (Inr 7, fs_logged\<lparr>fs_write_paths := [(7, [''n''])],
     fs_kernel := (8, [Openat [''n''] (0 OR O_CREAT OR O_EXCL OR O_CLOEXEC) (apply_umask 0x1A4 0x12)])\<rparr>)"
  by (simp add: open_write_handle_def run_kernel open_file_with_flags_def logged_def got_fd_def fs_logged_def fs_new_def
      O_CREAT_def O_EXCL_def O_APPEND_def O_CLOEXEC_def)

lemma logged_create: "\<exists>t. run_state (do_create (logged blind_sys) sample_req 1 ''n'' 0x1A4 0x12 0) fs_logged = (RError ENOENT, t)"
  by (simp add: do_create_def run_or_fail child_path_def root_path open_write_handle_def open_file_with_flags_def got_fd_def fchown_to_requester_def
      run_kernel requester_owner_def sys_stat_def logged_def got_stat_def fresh_attr_for_path_def undo_create_def
      bs_unlink_file_def unit_call_def fs_logged_def fs_new_def path_simps)

theorem create_fails_cleanly_witness:
  "\<exists>t before. run_state (do_create (logged blind_sys) sample_req 1 ''n'' 0x1A4 0x12 0) fs_logged = (RError ENOENT, t) \<and>
     handle_tables t = handle_tables fs_logged \<and> calls t = before @ [Closefd 7, Unlinkat [''n'']]"
proof -
  obtain t where t: "run_state (do_create (logged blind_sys) sample_req 1 ''n'' 0x1A4 0x12 0) fs_logged = (RError ENOENT, t)"
    using logged_create by blast
  have d: "get_path (fs_inodes fs_logged) 1 = Some []" by (simp add: fs_logged_def fs_new_def root_path)
  have "handle_free 7 fs_logged \<and> 7 \<notin> set (fs_append_handles fs_logged)"
    by (simp add: handle_free_def fs_logged_def fs_new_def)
  with create_fails_cleanly [OF t d, of "Inr 7"] logged_open t show ?thesis by auto
qed

end
