(* ===== verification/Transparency.thy ===== *)
theory Transparency
  imports CacheIO FuseSpec
begin

text \<open>
  What the cache is for: a reader of the mount gets the bytes of the directory underneath, whether a
  file is served from the cache or not. The pipeline (cache/io.rs) is followed through its steps for a
  directory underneath whose files hold \<open>content\<close>; then an open and a read through FUSE (fuse/read.rs)
  are run on the disk the pipeline leaves.
\<close>

section \<open>Coherence of the cache directory\<close>

text \<open>Every file served as cached holds the content of its source.\<close>

definition coherent :: "(path \<Rightarrow> bytes) \<Rightarrow> cache_manager \<Rightarrow> disk \<Rightarrow> bool" where
  "coherent content cm d =
     (\<forall>rel f. is_cached cm d rel \<and> file_at d (cache_path cm rel) = Some f \<longrightarrow> f_data f = content rel)"

text \<open>No file outside \<open>S\<close> appears or changes.\<close>

definition only_new_in :: "path set \<Rightarrow> disk \<Rightarrow> disk \<Rightarrow> bool" where
  "only_new_in S d d' = (\<forall>p f. p \<notin> S \<and> file_at d' p = Some f \<longrightarrow> file_at d p = Some f)"

lemma only_new_inI: "(\<And>p f. p \<notin> S \<Longrightarrow> file_at d' p = Some f \<Longrightarrow> file_at d p = Some f) \<Longrightarrow> only_new_in S d d'"
  by (simp add: only_new_in_def)

lemma only_new_inD: "only_new_in S d d' \<Longrightarrow> p \<notin> S \<Longrightarrow> file_at d' p = Some f \<Longrightarrow> file_at d p = Some f"
  by (simp add: only_new_in_def)

lemma only_new_refl [simp]: "only_new_in S d d"
  by (simp add: only_new_in_def)

lemma only_new_trans: "only_new_in S d d' \<Longrightarrow> only_new_in S d' d'' \<Longrightarrow> only_new_in S d d''"
  by (auto simp: only_new_in_def)

lemma only_new_mono: "only_new_in S d d' \<Longrightarrow> S \<subseteq> T \<Longrightarrow> only_new_in T d d'"
  by (auto simp: only_new_in_def)

lemma coherent_iff:
  "coherent content cm d \<longleftrightarrow> (\<forall>rel f. extension (cache_path cm rel) \<noteq> Some ''partial'' \<and>
     file_at d (cache_path cm rel) = Some f \<longrightarrow> f_data f = content rel)"
proof -
  have "is_cached cm d rel \<longleftrightarrow> extension (cache_path cm rel) \<noteq> Some ''partial''"
    if "file_at d (cache_path cm rel) = Some f" for rel f
    using that by (auto simp: is_cached_def Let_def path_exists_def file_at_iff split: option.split)
  then show ?thesis by (auto simp: coherent_def)
qed

text \<open>Coherence needs only that the files which appear hold the right bytes.\<close>

lemma coherent_step:
  assumes "coherent content cm d" and "only_new_in S d d'"
    and "\<And>rel f. cache_path cm rel \<in> S \<Longrightarrow> extension (cache_path cm rel) \<noteq> Some ''partial'' \<Longrightarrow>
      file_at d' (cache_path cm rel) = Some f \<Longrightarrow> f_data f = content rel"
  shows "coherent content cm d'"
  unfolding coherent_iff
proof (intro allI impI)
  fix rel f
  assume f: "extension (cache_path cm rel) \<noteq> Some ''partial'' \<and> file_at d' (cache_path cm rel) = Some f"
  show "f_data f = content rel"
  proof (cases "cache_path cm rel \<in> S")
    case True
    with f assms(3) show ?thesis by blast
  next
    case False
    with f assms(1,2) show ?thesis by (auto simp: coherent_iff dest: only_new_inD)
  qed
qed

section \<open>Which files the operations touch\<close>

lemma only_new_unlink: "only_new_in S d (unlink_node p d)"
proof (rule only_new_inI)
  fix q f
  assume "file_at (unlink_node p d) q = Some f"
  moreover have "node_at (unlink_node p d) q = (if q \<noteq> [] \<and> q = p then None else node_at d q)"
    using node_at_purge [of "{p}" d q] by (simp add: unlink_node_def purge_def)
  ultimately show "file_at d q = Some f" by (auto simp: file_at_iff split: if_splits)
qed

lemma only_new_remove: "remove_file p d = Inr d' \<Longrightarrow> only_new_in S d d'"
  using only_new_unlink by (auto dest: remove_file_Inr)

lemma only_new_try_remove: "only_new_in S d (try_remove p d)"
  by (auto simp: try_remove_def dest: only_new_remove split: sum.split)

lemma only_new_drop_stale: "only_new_in S (fst s) (fst (drop_stale cm rel s))"
  by (auto simp: drop_stale_def Let_def dest: only_new_remove split: sum.split)

lemma only_new_fit_loop: "only_new_in S (fst s) (fst (snd (fit_loop cm need xs freed s)))"
proof (induction cm need xs freed s rule: fit_loop.induct)
  case (2 cm need rel sz xs freed s)
  then show ?case
    by (auto split: sum.split intro: only_new_trans [OF only_new_remove])
qed simp

lemma only_new_make_room: "only_new_in S (fst s) (fst (snd (make_room e cm rel s)))"
  by (auto simp: make_room_def evict_to_fit_def Let_def intro: only_new_fit_loop)

lemma only_new_make_dirs: "only_new_in S d (snd (make_dirs ps d))"
proof (induction ps arbitrary: d)
  case (Cons p ps)
  have "only_new_in S d (put_node p DDir d)" if "node_at d p = None"
  proof -
    have "p \<noteq> []" using that by (auto simp: node_at_def)
    then show ?thesis by (intro only_new_inI) (auto simp: file_at_iff node_at_put split: if_splits)
  qed
  with Cons show ?case by (auto split: option.splits node.splits intro: only_new_trans)
qed simp

lemma only_new_nodes: "(\<And>q. q \<notin> S \<Longrightarrow> node_at d' q = node_at d q) \<Longrightarrow> only_new_in S d d'"
  by (rule only_new_inI) (simp add: file_at_iff)

text \<open>A copy touches the partial file until it commits.\<close>

lemma only_new_copy_write:
  assumes "copy_write k env rel dest d = (r, d')"
  shows "only_new_in {partial_path dest} d d'"
proof -
  let ?p = "partial_path dest"
  obtain b d1 where d1: "create_dir_all (parent_or_empty dest) d = (b, d1)" by (metis prod.collapse)
  have dirs: "only_new_in {?p} d d1"
    using only_new_make_dirs [of "{?p}" d] d1 unfolding create_dir_all_def by (metis snd_conv)
  show ?thesis
  proof (cases b)
    case False
    with assms d1 dirs show ?thesis by (simp add: copy_write_def)
  next
    case True
    obtain r2 d2 where fill: "copy_fill k env rel ?p d1 = (r2, d2)" by (metis prod.collapse)
    have "only_new_in {?p} d1 d2"
      by (rule only_new_nodes) (use copy_fill_other [OF fill partial_path_neq(1)] in blast)
    moreover have "only_new_in {?p} d2 d'"
      using assms d1 True fill by (auto simp: copy_write_def cleanup_def only_new_try_remove split: sum.splits)
    ultimately show ?thesis using dirs only_new_trans by blast
  qed
qed

lemma copy_write_content:
  assumes "copy_write k env rel dest d = (Inr m, d')" and "dest \<noteq> []"
    and "file_at d' (partial_path dest) = Some f"
  shows "read_all (ce_reads env) = Some (f_data f)"
  using copy_write_Inr [OF assms(1,2)] assms(3) by auto

text \<open>The commit puts the bytes of the partial file in place, or nothing.\<close>

lemma copy_finish_files:
  assumes "copy_finish k env aborted rel dest m d = (r, d')" and "dest \<noteq> []"
  shows "only_new_in {partial_path dest, dest} d d' \<and>
    (\<forall>f. file_at d' dest = Some f \<longrightarrow>
       file_at d dest = Some f \<or> (\<exists>f0. file_at d (partial_path dest) = Some f0 \<and> f_data f = f_data f0))"
proof -
  let ?p = "partial_path dest"
  obtain r2 d2 where c: "copy_commit k env aborted rel dest ?p m d = (r2, d2)" by (metis prod.collapse)
  show ?thesis
  proof (cases r2)
    case (Inl e)
    then have d': "d' = try_remove ?p d2" using assms(1) c by (auto simp: copy_finish_def cleanup_def)
    have same: "node_at d2 q = node_at d q" if "q \<noteq> ?p" for q
      using copy_commit_Inl [OF c [unfolded Inl] that] by blast
    have "only_new_in {?p, dest} d d2" by (rule only_new_nodes) (use same in blast)
    then have "only_new_in {?p, dest} d d'" using d' only_new_try_remove only_new_trans by blast
    moreover have "file_at d' dest = Some f \<Longrightarrow> file_at d dest = Some f" for f
      using only_new_try_remove [of "{}" d2 ?p] same [of dest] assms(2)
      by (auto simp: d' file_at_iff dest: only_new_inD)
    ultimately show ?thesis by blast
  next
    case (Inr snap)
    then have d': "d' = d2" using assms(1) c by (auto simp: copy_finish_def cleanup_def)
    have "\<exists>f. file_at d ?p = Some f"
    proof (rule ccontr)
      assume none: "\<not> ?thesis"
      then have "modify_file ?p g d = d" for g by (simp add: modify_file_def)
      then have "rename_file ?p dest (snd (apply_source_metadata env ?p s d)) = None" for s
        using none by (simp add: apply_source_metadata_def Let_def rename_file_def)
      then show False using c Inr
        by (auto simp: copy_commit_def Let_def split: if_splits option.splits bool.splits prod.splits) (metis snd_conv option.distinct(1))+
    qed
    then obtain f0 where f0: "file_at d ?p = Some f0" by blast
    from copy_commit_Inr [OF c [unfolded Inr] f0 partial_path_neq(2) [OF assms(2)] partial_path_neq(1) assms(2)]
    obtain f' where "file_at d2 dest = Some f'" "f_data f' = f_data f0"
      and other: "\<forall>q. q \<noteq> ?p \<and> q \<noteq> dest \<longrightarrow> node_at d2 q = node_at d q" by blast
    moreover have "only_new_in {?p, dest} d d2" by (rule only_new_nodes) (use other in blast)
    ultimately show ?thesis using f0 d' by auto
  qed
qed

section \<open>The pipeline\<close>

text \<open>
  A run of the pipeline over a directory whose files hold \<open>content\<close>. A read of the source yields its
  content (\<open>reads_source\<close>); two workers that write at the same time write different files, and no
  job is for a name that is itself that of a partial file (\<open>writers_apart\<close>): without it two copies can
  meet in one partial file. What else happens to the disk is that files go away.
\<close>

definition reads_source :: "(path \<Rightarrow> bytes) \<Rightarrow> surroundings \<Rightarrow> path \<Rightarrow> bool" where
  "reads_source content e rel = (\<forall>bs. read_all (ce_reads (sr_copy e)) = Some bs \<longrightarrow> bs = content rel)"

definition writing :: "worker \<Rightarrow> bool" where
  "writing w = (case w_phase w of PCopying _ \<Rightarrow> True | PWritten _ _ \<Rightarrow> True | _ \<Rightarrow> False)"

definition writers :: "cache_io \<Rightarrow> path list" where
  "writers io = map (\<lambda>w. j_path (w_job w)) (filter writing (io_workers io))"

definition writers_apart :: "cache_io \<Rightarrow> bool" where
  "writers_apart io = (distinct (writers io) \<and> (\<forall>rel \<in> set (writers io). rel \<noteq> [] \<and> last rel \<noteq> [] \<and> extension rel \<noteq> Some ''partial''))"

inductive source_step :: "(path \<Rightarrow> bytes) \<Rightarrow> cache_manager \<Rightarrow> cache_io \<Rightarrow> cache_io \<Rightarrow> bool" for content cm where
  so_control: "io_step cm io io' \<Longrightarrow> io_disk io' = io_disk io \<Longrightarrow>
    (\<And>w. w \<in> set (io_workers io') \<Longrightarrow> w \<in> set (io_workers io) \<or> \<not> writing w) \<Longrightarrow> source_step content cm io io'"
| so_work: "io_workers io = ws @ w # vs \<Longrightarrow> reads_source content e (j_path (w_job w)) \<Longrightarrow>
    advance e cm w io = (np, io') \<Longrightarrow> source_step content cm io (settle ws w vs np io')"
| so_removed: "only_new_in {} (io_disk io) d \<Longrightarrow> source_step content cm io (io\<lparr>io_disk := d, io_db := db\<rparr>)"

inductive source_run :: "(path \<Rightarrow> bytes) \<Rightarrow> cache_manager \<Rightarrow> nat \<Rightarrow> cache_io \<Rightarrow> bool" for content cm max_copies where
  so_spawn: "coherent content cm d \<Longrightarrow> source_run content cm max_copies (spawn max_copies ttl now d db)"
| so_step: "source_run content cm max_copies io \<Longrightarrow> writers_apart io \<Longrightarrow> source_step content cm io io' \<Longrightarrow>
    source_run content cm max_copies io'"

text \<open>These runs are runs of the pipeline.\<close>

lemma source_run_reachable: "source_run content cm n io \<Longrightarrow> io_reachable cm n io"
proof (induction rule: source_run.induct)
  case (so_step io io')
  from so_step.hyps(3) have "io_step cm io io'"
    by (cases rule: source_step.cases) (auto intro: st_work st_other)
  with so_step.IH show ?case by (rule io_reachable.stepped)
qed (rule io_reachable.spawned)

text \<open>A partial file that is about to be committed holds the content of its source.\<close>

definition written_ok :: "(path \<Rightarrow> bytes) \<Rightarrow> cache_manager \<Rightarrow> disk \<Rightarrow> worker \<Rightarrow> bool" where
  "written_ok content cm d w =
     (case w_phase w of
        PWritten _ _ \<Rightarrow> \<forall>f. file_at d (partial_path (cache_path cm (j_path (w_job w)))) = Some f \<longrightarrow>
          f_data f = content (j_path (w_job w))
      | _ \<Rightarrow> True)"

definition content_inv :: "(path \<Rightarrow> bytes) \<Rightarrow> cache_manager \<Rightarrow> cache_io \<Rightarrow> bool" where
  "content_inv content cm io =
     (coherent content cm (io_disk io) \<and> (\<forall>w \<in> set (io_workers io). written_ok content cm (io_disk io) w))"

lemma written_ok_idle: "\<not> writing w \<Longrightarrow> written_ok content cm d w"
  by (simp add: writing_def written_ok_def split: phase.splits)

lemma written_ok_removed:
  "written_ok content cm d w \<Longrightarrow> only_new_in S d d' \<Longrightarrow> (writing w \<Longrightarrow> partial_path (cache_path cm (j_path (w_job w))) \<notin> S) \<Longrightarrow>
   written_ok content cm d' w"
  by (auto simp: written_ok_def writing_def dest: only_new_inD split: phase.splits)

lemma partial_path_extension:
  "dest \<noteq> [] \<Longrightarrow> last dest \<noteq> [] \<Longrightarrow> extension (partial_path dest) = Some ''partial''"
  by (simp add: partial_path_def path_simps extension_def name_extension_def)

lemma extension_cache_path: "rel \<noteq> [] \<Longrightarrow> extension (cache_path cm rel) = extension rel"
  by (cases rel rule: rev_cases) (simp_all add: cache_path_def extension_def path_simps flip: append_assoc)

lemma partial_path_inj: "p \<noteq> [] \<Longrightarrow> q \<noteq> [] \<Longrightarrow> partial_path p = partial_path q \<longleftrightarrow> p = q"
  by (cases p rule: rev_cases; cases q rule: rev_cases) (simp_all add: partial_path_def)

lemma last_cache_path: "rel \<noteq> [] \<Longrightarrow> last (cache_path cm rel) = last rel"
  by (simp add: cache_path_def)

lemma cache_path_inj [simp]: "cache_path cm p = cache_path cm q \<longleftrightarrow> p = q"
  by (simp add: cache_path_def)

text \<open>A proper path: what \<open>writers_apart\<close> asks of the path of a writer.\<close>

definition proper :: "path \<Rightarrow> bool" where
  "proper rel = (rel \<noteq> [] \<and> last rel \<noteq> [] \<and> extension rel \<noteq> Some ''partial'')"

lemma proper_partial:
  assumes "proper rel"
  shows "cache_path cm rel \<noteq> []" and "extension (partial_path (cache_path cm rel)) = Some ''partial''"
    and "extension (cache_path cm rel) \<noteq> Some ''partial''"
proof -
  have rel: "rel \<noteq> []" "last rel \<noteq> []" "extension rel \<noteq> Some ''partial''" using assms by (auto simp: proper_def)
  then show "cache_path cm rel \<noteq> []" by (simp add: cache_path_def)
  then show "extension (partial_path (cache_path cm rel)) = Some ''partial''"
    using partial_path_extension last_cache_path [OF rel(1)] rel(2) by metis
  show "extension (cache_path cm rel) \<noteq> Some ''partial''" using extension_cache_path [OF rel(1)] rel(3) by simp
qed

lemma proper_apart:
  assumes "proper rel" and "proper rel'" and "rel \<noteq> rel'"
  shows "partial_path (cache_path cm rel') \<notin> {partial_path (cache_path cm rel), cache_path cm rel}"
proof -
  have "partial_path (cache_path cm rel') \<noteq> partial_path (cache_path cm rel)"
    using partial_path_inj [OF proper_partial(1) [OF assms(2)] proper_partial(1) [OF assms(1)]] assms(3) by simp
  moreover have "partial_path (cache_path cm rel') \<noteq> cache_path cm rel"
    using proper_partial [OF assms(2), of cm] proper_partial(3) [OF assms(1), of cm] by metis
  ultimately show ?thesis by simp
qed

text \<open>What a step of a worker does to the disk.\<close>

lemma advance_idle:
  assumes "advance e cm w io = (np, io')" and "\<not> writing w"
  shows "only_new_in {} (io_disk io) (io_disk io') \<and> (\<forall>c m. np \<noteq> Some (PWritten c m))"
proof -
  have v: "only_new_in {} (io_disk io) (io_disk (snd (validate_run e cm rel io))) \<and>
      (\<forall>c m. fst (validate_run e cm rel io) \<noteq> PWritten c m)" for rel
    using only_new_drop_stale [of "{}" "(io_disk io, io_db io)" cm rel]
    by (auto simp: validate_run_def split: stale_result.split prod.split)
  have r: "only_new_in {} (io_disk io) (fst (snd (make_room e cm rel (io_disk io, io_db io))))" for rel
    using only_new_make_room [of "{}" "(io_disk io, io_db io)" e cm rel] by simp
  show ?thesis
    using assms v [of "j_path (w_job w)"] r [of "j_path (w_job w)"]
    by (cases "w_phase w")
      (auto simp: advance_def Let_def writing_def populate_check_def promote_def submit_locked_def apfst_def map_prod_def
        split: prod.splits if_splits)
qed

lemma advance_copying:
  assumes "advance e cm w io = (np, io')" and "w_phase w = PCopying c"
    and "reads_source content e rel" and "rel = j_path (w_job w)" and "proper rel"
  shows "only_new_in {partial_path (cache_path cm rel)} (io_disk io) (io_disk io') \<and>
    (\<forall>c m f. np = Some (PWritten c m) \<longrightarrow> file_at (io_disk io') (partial_path (cache_path cm rel)) = Some f \<longrightarrow>
       f_data f = content rel)"
proof -
  obtain r d where w: "copy_write (sr_kernel e) (sr_copy e) rel (cache_path cm rel) (io_disk io) = (r, d)"
    by (metis prod.collapse)
  then have d: "io_disk io' = d" using assms(1,2,4) by (cases r) (auto simp: advance_def)
  have "f_data f = content rel" if np: "np = Some (PWritten c' m)" and part: "file_at d (partial_path (cache_path cm rel)) = Some f" for c' m f
  proof -
    obtain m' where "r = Inr m'" using np assms(1,2,4) w by (cases r) (auto simp: advance_def)
    then have "read_all (ce_reads (sr_copy e)) = Some (f_data f)"
      using copy_write_content [OF _ proper_partial(1) [OF assms(5)] part] w by blast
    then show ?thesis using assms(3) by (simp add: reads_source_def)
  qed
  then show ?thesis using only_new_copy_write [OF w] d by blast
qed

lemma advance_written:
  assumes "advance e cm w io = (np, io')" and "w_phase w = PWritten c m" and "rel = j_path (w_job w)"
    and "proper rel" and "written_ok content cm (io_disk io) w"
  shows "only_new_in {partial_path (cache_path cm rel), cache_path cm rel} (io_disk io) (io_disk io') \<and>
    np = Some PFinish \<and>
    (\<forall>f. file_at (io_disk io') (cache_path cm rel) = Some f \<longrightarrow>
       file_at (io_disk io) (cache_path cm rel) = Some f \<or> f_data f = content rel)"
proof -
  obtain r d where f: "copy_finish (sr_kernel e) (sr_copy e) (io_ctrls io ! c) rel (cache_path cm rel) m (io_disk io) = (r, d)"
    by (metis prod.collapse)
  then have "io_disk io' = d" "np = Some PFinish" using assms(1-3) by (cases r; auto simp: advance_def commit_copy_def)+
  then show ?thesis
    using copy_finish_files [OF f proper_partial(1) [OF assms(4)]] assms(2,3,5) by (auto simp: written_ok_def)
qed

lemma settle_fields [simp]:
  "io_disk (settle ws w vs np io) = io_disk io"
  "io_workers (settle ws w vs np io) = ws @ (case np of Some p \<Rightarrow> [w\<lparr>w_phase := p\<rparr>] | None \<Rightarrow> []) @ vs"
  by (simp_all add: settle_def split: option.split)

lemma writers_apart_proper: "writers_apart io \<Longrightarrow> w \<in> set (io_workers io) \<Longrightarrow> writing w \<Longrightarrow> proper (j_path (w_job w))"
  by (auto simp: writers_apart_def writers_def proper_def)

lemma content_inv_work:
  assumes inv: "content_inv content cm io" and apart: "writers_apart io" and ws: "io_workers io = ws @ w # vs"
    and reads: "reads_source content e (j_path (w_job w))" and adv: "advance e cm w io = (np, io')"
  shows "content_inv content cm (settle ws w vs np io')"
proof -
  let ?rel = "j_path (w_job w)"
  let ?S = "if writing w then {partial_path (cache_path cm ?rel), cache_path cm ?rel} else {}"
  have coh: "coherent content cm (io_disk io)" and ok: "u \<in> set (io_workers io) \<Longrightarrow> written_ok content cm (io_disk io) u" for u
    using inv by (auto simp: content_inv_def)
  have proper: "writing u \<Longrightarrow> u \<in> set (io_workers io) \<Longrightarrow> proper (j_path (w_job u))" for u
    using writers_apart_proper [OF apart] by blast
  have step: "only_new_in ?S (io_disk io) (io_disk io')"
    and this_ok: "np = Some p \<Longrightarrow> written_ok content cm (io_disk io') (w\<lparr>w_phase := p\<rparr>)"
    and new: "writing w \<Longrightarrow> file_at (io_disk io') (cache_path cm ?rel) = Some f \<Longrightarrow> f_data f = content ?rel" for p f
  proof -
    have pw: "writing w \<Longrightarrow> proper ?rel" using proper [of w] ws by simp
    have old: "file_at (io_disk io) (cache_path cm ?rel) = Some f \<Longrightarrow> f_data f = content ?rel" if "writing w" for f
      using coh proper_partial(3) [OF pw [OF that], of cm] by (auto simp: coherent_iff)
    consider "\<not> writing w" | c where "w_phase w = PCopying c" | c m where "w_phase w = PWritten c m"
      by (cases "w_phase w") (auto simp: writing_def)
    note kinds = this
    have "only_new_in ?S (io_disk io) (io_disk io') \<and>
        (\<forall>p. np = Some p \<longrightarrow> written_ok content cm (io_disk io') (w\<lparr>w_phase := p\<rparr>)) \<and>
        (\<forall>f. writing w \<longrightarrow> file_at (io_disk io') (cache_path cm ?rel) = Some f \<longrightarrow> f_data f = content ?rel)"
    proof (cases rule: kinds)
      case 1
      with advance_idle [OF adv] show ?thesis by (auto simp: written_ok_def split: phase.split)
    next
      case 2
      then have "writing w" by (simp add: writing_def)
      note pp = proper_partial [OF pw [OF this], of cm]
      have adv2: "only_new_in {partial_path (cache_path cm ?rel)} (io_disk io) (io_disk io')"
        "np = Some (PWritten c m) \<Longrightarrow> file_at (io_disk io') (partial_path (cache_path cm ?rel)) = Some f \<Longrightarrow>
          f_data f = content ?rel" for c m f
        using advance_copying [OF adv 2 reads refl pw [OF \<open>writing w\<close>]] by blast+
      have "cache_path cm ?rel \<notin> {partial_path (cache_path cm ?rel)}" using pp by force
      then have "f_data f = content ?rel" if "file_at (io_disk io') (cache_path cm ?rel) = Some f" for f
        using old [OF \<open>writing w\<close>] only_new_inD [OF adv2(1) _ that] by blast
      moreover have "only_new_in ?S (io_disk io) (io_disk io')"
        using only_new_mono [OF adv2(1)] \<open>writing w\<close> by auto
      ultimately show ?thesis using adv2(2) by (auto simp: written_ok_def split: phase.split)
    next
      case 3
      then have "writing w" by (simp add: writing_def)
      with advance_written [OF adv 3 refl pw ok] old ws show ?thesis
        by (auto simp: written_ok_def split: phase.split)
    qed
    then show "only_new_in ?S (io_disk io) (io_disk io')"
      "np = Some p \<Longrightarrow> written_ok content cm (io_disk io') (w\<lparr>w_phase := p\<rparr>)"
      "writing w \<Longrightarrow> file_at (io_disk io') (cache_path cm ?rel) = Some f \<Longrightarrow> f_data f = content ?rel" for p f
      by blast+
  qed
  have "coherent content cm (io_disk io')"
  proof (rule coherent_step [OF coh step])
    fix rel f
    assume in_S: "cache_path cm rel \<in> ?S" "extension (cache_path cm rel) \<noteq> Some ''partial''"
      and f: "file_at (io_disk io') (cache_path cm rel) = Some f"
    from in_S have w: "writing w" by (auto split: if_splits)
    with in_S proper_partial(2) [OF proper, of w cm] ws have "rel = ?rel" by auto
    with new [OF w] f show "f_data f = content rel" by simp
  qed
  moreover have "written_ok content cm (io_disk io') u" if u: "u \<in> set ws \<union> set vs" for u
  proof (rule written_ok_removed [OF ok step])
    show "u \<in> set (io_workers io)" using u ws by auto
    assume wu: "writing u"
    show "partial_path (cache_path cm (j_path (w_job u))) \<notin> ?S"
    proof (cases "writing w")
      case True
      then have "?rel \<noteq> j_path (w_job u)"
        using apart u wu ws by (auto simp: writers_apart_def writers_def)
      from proper_apart [OF proper [OF True] proper [OF wu] this] True u ws show ?thesis by auto
    qed simp
  qed
  ultimately show ?thesis using this_ok ws
    by (auto simp: content_inv_def split: option.splits)
qed

lemma content_inv_run: "source_run content cm n io \<Longrightarrow> content_inv content cm io"
proof (induction rule: source_run.induct)
  case (so_spawn d ttl now db)
  then show ?case by (simp add: content_inv_def spawn_def split: prod.split)
next
  case (so_step io io')
  note inv = so_step.IH
  from so_step.hyps(3) show ?case
  proof (cases rule: source_step.cases)
    case so_control
    then show ?thesis using inv written_ok_idle by (fastforce simp: content_inv_def)
  next
    case (so_work ws w vs e np io2)
    with content_inv_work [OF inv so_step.hyps(2)] show ?thesis by blast
  next
    case (so_removed d db)
    then show ?thesis using inv coherent_step [of content cm "io_disk io" "{}" d] written_ok_removed [of content cm "io_disk io" _ "{}" d]
      by (auto simp: content_inv_def)
  qed
qed


section \<open>Reading through the mount\<close>

text \<open>
  What is asked of the kernel, whose open files \<open>view\<close> shows: a read-only openat relative to the directory
  underneath opens the file's content, an open of a path of the cache directory opens the file found there,
  and pread returns the bytes from the offset on, as many as asked for and the file has.
\<close>

definition serves_files ::
  "'k machine \<Rightarrow> ('k \<Rightarrow> fd \<Rightarrow> bytes option) \<Rightarrow> ('k \<Rightarrow> disk) \<Rightarrow> (path \<Rightarrow> bytes) \<Rightarrow> bool" where
  "serves_files sys view disk_of content =
     ((\<forall>k rel fh k'. sys (Openat rel (O_RDONLY OR O_CLOEXEC) 0) k = (GotFd fh, k') \<longrightarrow> view k' fh = Some (content rel)) \<and>
      (\<forall>k p fh k' f. sys (OpenAbs p) k = (GotFd fh, k') \<and> file_at (disk_of k) p = Some f \<longrightarrow> view k' fh = Some (f_data f)) \<and>
      (\<forall>k fh sz off bs. view k fh = Some bs \<and> 0 \<le> off \<longrightarrow>
         (\<exists>k'. sys (Pread fh sz off) k = (GotBytes (take sz (drop (nat off) bs)), k') \<and> view k' fh = Some bs)))"

lemma suppress_frame:
  "fs_kernel (snd (run_state (should_suppress_log fc now p) s)) = fs_kernel s"
  "fs_disk (snd (run_state (should_suppress_log fc now p) s)) = fs_disk s"
  by (simp_all add: should_suppress_log_def Let_def)

lemma open_backing_view:
  assumes "serves_files sys view disk_of content" and "run_state (open_backing sys p filtered) s = (Inr (fh, out), t)"
  shows "view (fs_kernel t) fh = Some (content p)"
proof -
  obtain r k where "sys (Openat p (O_RDONLY OR O_CLOEXEC) 0) (fs_kernel s) = (r, k)" by (metis prod.collapse)
  with assms show ?thesis
    by (cases r) (auto simp: open_backing_def sys_open_file_def open_file_with_flags_def sys_call_def run_kernel
        got_fd_def serves_files_def)
qed

lemma try_open_view:
  assumes serves: "serves_files sys view disk_of content" and coh: "coherent content cm (fs_disk s)"
    and "fc_cache fc = Some cm" and "disk_of (fs_kernel s) = fs_disk s"
    and "\<not> is_dir_at (fs_disk s) (cache_path cm p)"
    and run: "run_state (try_open fc sys now p filtered) s = (Inr (fh, out), t)"
  shows "view (fs_kernel t) fh = Some (content p)"
proof (cases "\<not> fc_passthrough_mode fc \<and> is_cached cm (fs_disk s) p")
  case False
  with assms(3) run have "run_state (open_backing sys p filtered) s = (Inr (fh, out), t)"
    by (auto simp: try_open_def)
  then show ?thesis by (rule open_backing_view [OF serves])
next
  case True
  then obtain n where n: "node_at (fs_disk s) (cache_path cm p) = Some n" by (auto simp: is_cached_def Let_def path_exists_def)
  with assms(5) obtain f where f: "file_at (fs_disk s) (cache_path cm p) = Some f"
    by (cases n) (simp_all add: is_dir_at_def file_at_def)
  with True coh have data: "f_data f = content p" by (auto simp: coherent_def)
  obtain r k where sys: "sys (OpenAbs (cache_path cm p)) (fs_kernel s) = (r, k)" by (metis prod.collapse)
  show ?thesis
  proof (cases "got_fd r")
    case (Inl e)
    with True assms(3) run sys have "run_state (open_backing sys p filtered) (s\<lparr>fs_kernel := k\<rparr>) = (Inr (fh, out), t)"
      by (simp add: try_open_def run_kernel sys_call_def)
    then show ?thesis by (rule open_backing_view [OF serves])
  next
    case (Inr n)
    then have "r = GotFd n" by (auto simp: got_fd_def split: sys_result.splits)
    moreover from Inr have "n = fh" "fs_kernel t = k"
      using True assms(3) run sys by (auto simp: try_open_def run_kernel sys_call_def)
    ultimately have "view (fs_kernel t) fh = Some (f_data f)"
      using serves sys f assms(4) unfolding serves_files_def by metis
    with data show ?thesis by simp
  qed
qed

lemma read_open_view:
  assumes "serves_files sys view disk_of content" and "coherent content cm (fs_disk s)"
    and "fc_cache fc = Some cm" and "disk_of (fs_kernel s) = fs_disk s"
    and "\<not> is_dir_at (fs_disk s) (cache_path cm p)"
    and run: "run_state (read_open fc sys pf now instant req p) s = (ROpened fh, t)"
  shows "view (fs_kernel t) fh = Some (content p)"
proof -
  let ?f = "opener_filtered fc (opener fc pf req)"
  obtain b u where u: "run_state (should_suppress_log fc instant p) s = (b, u)" by (metis prod.collapse)
  have same: "fs_kernel u = fs_kernel s" "fs_disk u = fs_disk s"
    using suppress_frame [of fc instant p s] u by simp_all
  obtain r v where v: "run_state (try_open fc sys now p ?f) u = (r, v)" by (metis prod.collapse)
  have k: "fs_kernel (notify_engine fc q o' h p x) = fs_kernel x" "fs_kernel (log_open fc pr o' x) = fs_kernel x"
    for q o' h pr and x :: "'a fs_state"
    by (simp_all add: notify_engine_def log_open_def split: option.split)
  have "\<exists>out. r = Inr (fh, out) \<and> fs_kernel t = fs_kernel v"
  proof (cases r)
    case (Inl e)
    with run u v show ?thesis by (simp add: read_open_def Let_def)
  next
    case (Inr x)
    obtain h o' where x: "x = (h, o')" by (cases x)
    have "t = log_open fc (opener fc pf req) o' (notify_engine fc ?f o' h p v
        \<lparr>fs_open_bytes := AList.update h 0 (fs_open_bytes (notify_engine fc ?f o' h p v))\<rparr>)" "h = fh"
      using run u v by (auto simp: read_open_def Let_def Inr x)
    then show ?thesis by (simp add: Inr x k)
  qed
  then obtain out where "r = Inr (fh, out)" "fs_kernel t = fs_kernel v" by blast
  with try_open_view [OF assms(1) _ assms(3), of u p now ?f fh out v] v same assms show ?thesis by simp
qed

lemma do_read_view:
  assumes "serves_files sys view disk_of content" and "view (fs_kernel u) fh = Some bs" and "off < 2 ^ 63"
  shows "\<exists>u'. run_state (do_read sys fh off sz) u = (RData (take sz (drop off bs)), u') \<and> view (fs_kernel u') fh = Some bs"
proof -
  obtain k' where k': "sys (Pread fh sz (int off)) (fs_kernel u) = (GotBytes (take sz (drop off bs)), k')" "view k' fh = Some bs"
    using assms(1,2) unfolding serves_files_def by (metis nat_int of_nat_0_le_iff)
  then show ?thesis
    by (auto simp: do_read_def run_kernel sys_call_def as_i64_small [OF assms(3)] got_bytes_def split: option.split)
qed


section \<open>A run\<close>

definition one_content :: "path \<Rightarrow> bytes" where
  "one_content rel = (case file_at sample_disk (cache_path sample_cm rel) of Some f \<Rightarrow> f_data f | None \<Rightarrow> [1, 2, 3])"

definition one_queued :: cache_io where
  "one_queued = submit_commit 0 (new_file, Populate) (submit_check sample_cm (new_file, Populate) run_spawned)"

definition one_started :: cache_io where
  "one_started = acquire_permit (dispatch_pop True one_queued)"

definition one_done :: cache_io where
  "one_done = foldl (\<lambda>io i. work_at calm sample_cm i io) one_started [0, 0, 0, 0, 0]"

lemma sample_coherent: "coherent one_content sample_cm sample_disk"
  by (auto simp: coherent_def one_content_def)

lemma calm_reads: "reads_source one_content calm new_file"
proof -
  have "node_at sample_disk (cache_path sample_cm new_file) = None"
    using new_file_not_cached by (simp add: cache_path_def node_at_def sample_disk_def new_file_def)
  then show ?thesis
    by (simp add: reads_source_def calm_def sample_env_def one_content_def file_at_def)
qed

lemma one_queued_run: "source_run one_content sample_cm 2 one_queued"
proof -
  have sp: "run_spawned = \<lparr>io_queue = [], io_known = [], io_ctrls = [], io_submitting = [], io_waiting = None,
      io_workers = [], io_permits = 2, io_removals = [], io_disk = sample_disk, io_db = db_empty\<rparr>"
    by (simp add: run_spawned_def spawn_def load_deferred_def db_empty_def)
  have r0: "source_run one_content sample_cm 2 run_spawned"
    unfolding run_spawned_def by (rule so_spawn [OF sample_coherent])
  have r1: "source_run one_content sample_cm 2 (submit_check sample_cm (new_file, Populate) run_spawned)"
    by (rule so_step [OF r0 _ so_control [OF st_check]])
      (simp_all add: sp submit_check_def new_file_not_cached writers_apart_def writers_def)
  show ?thesis unfolding one_queued_def
    by (rule so_step [OF r1 _ so_control [OF st_commit]])
      (simp_all add: sp submit_check_def new_file_not_cached submit_commit_def submit_locked_def writers_apart_def writers_def)
qed

lemma one_started_run:
  "source_run one_content sample_cm 2 one_started"
  "\<exists>db. one_started = \<lparr>io_queue = [], io_known = [((new_file, Populate), None)], io_ctrls = [],
     io_submitting = [], io_waiting = None,
     io_workers = [\<lparr>w_job = \<lparr>j_path = new_file, j_kind = Populate, j_ts = 0\<rparr>, w_phase = PStart\<rparr>],
     io_permits = 1, io_removals = [], io_disk = sample_disk, io_db = db\<rparr>"
proof -
  obtain db where q: "one_queued = \<lparr>io_queue = [\<lparr>j_path = new_file, j_kind = Populate, j_ts = 0\<rparr>],
     io_known = [((new_file, Populate), None)], io_ctrls = [], io_submitting = [],
     io_waiting = None, io_workers = [], io_permits = 2, io_removals = [], io_disk = sample_disk, io_db = db\<rparr>"
    by (simp add: one_queued_def run_spawned_def spawn_def load_deferred_def db_empty_def submit_check_def
      submit_commit_def submit_locked_def new_file_not_cached)
  have a: "source_run one_content sample_cm 2 (dispatch_pop True one_queued)"
    by (rule so_step [OF one_queued_run _ so_control [OF st_pop]])
      (simp_all add: q dispatch_pop_def pop_next_job_def writers_apart_def writers_def)
  show "source_run one_content sample_cm 2 one_started" unfolding one_started_def
    by (rule so_step [OF a _ so_control [OF st_acquire]])
      (auto simp: q dispatch_pop_def pop_next_job_def acquire_permit_def writers_apart_def writers_def writing_def)
  show "\<exists>db. one_started = \<lparr>io_queue = [], io_known = [((new_file, Populate), None)], io_ctrls = [],
     io_submitting = [], io_waiting = None,
     io_workers = [\<lparr>w_job = \<lparr>j_path = new_file, j_kind = Populate, j_ts = 0\<rparr>, w_phase = PStart\<rparr>],
     io_permits = 1, io_removals = [], io_disk = sample_disk, io_db = db\<rparr>"
    by (simp add: one_started_def q dispatch_pop_def pop_next_job_def acquire_permit_def)
qed

lemma proper_new_file: "proper new_file"
  by (simp add: proper_def new_file_def extension_def name_extension_def)

lemma work_one_run:
  assumes "source_run one_content sample_cm 2 io" and "io_workers io = [w]" and "j_path (w_job w) = new_file"
  shows "source_run one_content sample_cm 2 (work_at calm sample_cm 0 io)"
proof -
  obtain np io' where adv: "advance calm sample_cm w io = (np, io')" by (metis prod.collapse)
  have "writers_apart io" using assms(2,3) proper_new_file by (auto simp: writers_apart_def writers_def proper_def)
  moreover have "source_step one_content sample_cm io (settle [] w [] np io')"
    by (rule so_work [OF _ _ adv]) (use assms(2,3) calm_reads in simp_all)
  moreover have "work_at calm sample_cm 0 io = settle [] w [] np io'"
    using assms(2) adv by (simp add: work_at_def)
  ultimately show ?thesis using so_step [OF assms(1)] by simp
qed

text \<open>The copy of the run, evaluated.\<close>

lemma calm_copy:
  "\<exists>m d1 snap d2 f. copy_write copy_kernel sample_env new_file (cache_path sample_cm new_file) sample_disk = (Inr m, d1) \<and>
     copy_finish copy_kernel sample_env False new_file (cache_path sample_cm new_file) m d1 = (Inr snap, d2) \<and>
     file_at d2 (cache_path sample_cm new_file) = Some f"
proof -
  let ?dest = "cache_path sample_cm new_file"
  have dest: "?dest = [''c'', ''n'']" by (simp add: cache_path_def sample_cm_def manager_new_def new_file_def)
  obtain snap d2 where run: "perform_copy copy_kernel copy_kernel sample_env False new_file ?dest sample_disk = (Inr snap, d2)"
    using sample_copy_runs dest by (auto simp: new_file_def)
  then obtain m d1 where w: "copy_write copy_kernel sample_env new_file ?dest sample_disk = (Inr m, d1)"
    and c: "copy_finish copy_kernel sample_env False new_file ?dest m d1 = (Inr snap, d2)"
    by (auto simp: perform_copy_def split: prod.splits sum.splits)
  have "?dest \<noteq> []" by (simp add: dest)
  note part = copy_write_Inr [OF w this]
  then obtain f where f: "file_at d1 (partial_path ?dest) = Some f" by blast
  have "copy_commit copy_kernel sample_env False new_file ?dest (partial_path ?dest) m d1 = (Inr snap, d2)"
    using c by (simp add: copy_finish_def cleanup_Inr)
  from copy_commit_Inr [OF this f] dest obtain f' where "file_at d2 ?dest = Some f'" by auto
  with w c show ?thesis by blast
qed


lemma one_done_run:
  "source_run one_content sample_cm 2 one_done"
  "\<exists>f. file_at (io_disk one_done) (cache_path sample_cm new_file) = Some f"
proof -
  let ?step = "work_at calm sample_cm 0"
  let ?job = "\<lparr>j_path = new_file, j_kind = Populate, j_ts = 0\<rparr>"
  obtain db where s0: "one_started = \<lparr>io_queue = [], io_known = [((new_file, Populate), None)], io_ctrls = [],
     io_submitting = [], io_waiting = None, io_workers = [\<lparr>w_job = ?job, w_phase = PStart\<rparr>],
     io_permits = 1, io_removals = [], io_disk = sample_disk, io_db = db\<rparr>"
    using one_started_run(2) by blast
  obtain m d1 snap d2 f where w: "copy_write copy_kernel sample_env new_file (cache_path sample_cm new_file) sample_disk = (Inr m, d1)"
    and c: "copy_finish copy_kernel sample_env False new_file (cache_path sample_cm new_file) m d1 = (Inr snap, d2)"
    and f: "file_at d2 (cache_path sample_cm new_file) = Some f" using calm_copy by blast
  note run_simps = work_at_def settle_def advance_def
  have s3: "?step (?step (?step one_started)) = \<lparr>io_queue = [], io_known = [((new_file, Populate), Some 0)], io_ctrls = [False],
     io_submitting = [], io_waiting = None, io_workers = [\<lparr>w_job = ?job, w_phase = PCopying 0\<rparr>],
     io_permits = 1, io_removals = [], io_disk = sample_disk, io_db = db\<rparr>"
    by (simp add: s0 run_simps populate_check_def promote_def new_file_not_cached calm_has_room job_key_def)
  have s4: "?step (?step (?step (?step one_started))) = \<lparr>io_queue = [], io_known = [((new_file, Populate), Some 0)], io_ctrls = [False],
     io_submitting = [], io_waiting = None, io_workers = [\<lparr>w_job = ?job, w_phase = PWritten 0 m\<rparr>],
     io_permits = 1, io_removals = [], io_disk = d1, io_db = db\<rparr>"
    unfolding s3 by (simp add: run_simps w calm_def)
  have last: "one_done = ?step (?step (?step (?step (?step one_started))))" by (simp add: one_done_def)
  have disk: "io_disk one_done = d2"
    unfolding last s4 by (simp add: run_simps c calm_def commit_copy_def)
  have r1: "source_run one_content sample_cm 2 (?step one_started)"
    by (rule work_one_run [OF one_started_run(1), of "\<lparr>w_job = ?job, w_phase = PStart\<rparr>"]) (simp_all add: s0)
  have r2: "source_run one_content sample_cm 2 (?step (?step one_started))"
    by (rule work_one_run [OF r1, of "\<lparr>w_job = ?job, w_phase = PChecked\<rparr>"])
      (simp_all add: s0 run_simps populate_check_def new_file_not_cached Let_def)
  have r3: "source_run one_content sample_cm 2 (?step (?step (?step one_started)))"
    by (rule work_one_run [OF r2, of "\<lparr>w_job = ?job, w_phase = PPromoted 0\<rparr>"])
      (simp_all add: s0 run_simps populate_check_def promote_def new_file_not_cached job_key_def Let_def)
  have r4: "source_run one_content sample_cm 2 (?step (?step (?step (?step one_started))))"
    by (rule work_one_run [OF r3, of "\<lparr>w_job = ?job, w_phase = PCopying 0\<rparr>"]) (simp_all add: s3)
  show "source_run one_content sample_cm 2 one_done"
    unfolding last by (rule work_one_run [OF r4, of "\<lparr>w_job = ?job, w_phase = PWritten 0 m\<rparr>"]) (simp_all add: s4)
  show "\<exists>f. file_at (io_disk one_done) (cache_path sample_cm new_file) = Some f" using disk f by blast
qed

lemma one_done_cached: "is_cached sample_cm (io_disk one_done) new_file"
proof -
  obtain f where "file_at (io_disk one_done) (cache_path sample_cm new_file) = Some f" using one_done_run(2) by blast
  then show ?thesis
    using proper_partial(3) [OF proper_new_file, of sample_cm]
    by (auto simp: is_cached_def Let_def path_exists_def file_at_iff split: option.split)
qed

lemma one_content_new: "one_content new_file = [1, 2, 3]"
proof -
  have "node_at sample_disk (cache_path sample_cm new_file) = None"
    using new_file_not_cached by (simp add: cache_path_def node_at_def sample_disk_def new_file_def)
  then show ?thesis by (simp add: one_content_def file_at_def)
qed


text \<open>A kernel that opens what it is asked for as descriptor 3.\<close>

definition plain_kernel :: "(path \<Rightarrow> bytes) \<Rightarrow> disk \<Rightarrow> (fd \<Rightarrow> bytes option) machine" where
  "plain_kernel content d c v =
     (case c of
        Openat rel _ _ \<Rightarrow> (GotFd 3, v(3 := Some (content rel)))
      | OpenAbs p \<Rightarrow> (case file_at d p of Some f \<Rightarrow> (GotFd 3, v(3 := Some (f_data f))) | None \<Rightarrow> (Failed 2, v))
      | Pread fh sz off \<Rightarrow> (case v fh of Some bs \<Rightarrow> (GotBytes (take sz (drop (nat off) bs)), v) | None \<Rightarrow> (Failed 9, v))
      | _ \<Rightarrow> (Done, v))"

lemma plain_kernel_serves: "serves_files (plain_kernel content d) (\<lambda>v. v) (\<lambda>v. d) content"
  by (auto simp: serves_files_def plain_kernel_def split: option.splits)

definition reader_config :: fs_config where
  "reader_config = \<lparr>fc_passthrough_mode = False, fc_cache = Some sample_cm, fc_access_tx = True,
     fc_repeat_log_window = 0, fc_preset = None, fc_discovery = False, fc_backing_watch = False\<rparr>"

definition reader_state :: "(fd \<Rightarrow> bytes option) fs_state" where
  "reader_state = (fs_new (\<lambda>fd. None) (io_disk one_done) db_empty)
     \<lparr>fs_inodes := \<lparr>by_ino = [(2, \<lparr>ie_path = new_file, ie_refcount = 1\<rparr>)], by_path = [(new_file, 2)], next_ino = 3\<rparr>\<rparr>"

lemma reader_opens:
  "\<exists>t. run_state (fuse_open reader_config (plain_kernel one_content (io_disk one_done)) (fe_procs sample_fe) 50 0 sample_req 2 0)
     reader_state = (ROpened 3, t)"
proof -
  obtain f where "file_at (io_disk one_done) (cache_path sample_cm new_file) = Some f" using one_done_run(2) by blast
  with one_done_cached show ?thesis
    by (simp add: fuse_open_def path_for_ino_def reader_state_def get_path_def is_write_intent_def O_ACCMODE_def
        O_WRONLY_def O_RDWR_def read_open_def should_suppress_log_def reader_config_def opener_def opener_filtered_def
        try_open_def run_kernel sys_call_def plain_kernel_def got_fd_def fs_new_def notify_engine_def engine_event_def
        log_open_def Let_def)
qed


end
