(* ===== verification/Config.thy ===== *)
theory Config
  imports Text Complex_Main
begin

text \<open>
  The configuration (src/src/config.rs): what serde makes of the parsed TOML document, with the
  defaults of every section and field, the deprecated cache fields, and the check of the instance
  name. The TOML parser is not part of the repository: the document arrives as a tree of values.
\<close>

section \<open>Numbers\<close>

text \<open>
  An f64. The program only scales by powers of two and casts; both are exact on rationals, and an
  integer too large for an f64 is far beyond the range of the casts.
\<close>

datatype f64 = Fin rat | PosInf | NegInf | NaN

fun f64_scale :: "f64 \<Rightarrow> rat \<Rightarrow> f64" where
  "f64_scale (Fin r) k = Fin (r * k)"
| "f64_scale x k = x"

text \<open>\<open>f as u64\<close> truncates and saturates; what is not a number gives 0.\<close>

fun f64_to_u64 :: "f64 \<Rightarrow> nat" where
  "f64_to_u64 (Fin r) = (if r < 0 then 0 else min (nat \<lfloor>r\<rfloor>) u64_max)"
| "f64_to_u64 PosInf = u64_max"
| "f64_to_u64 NegInf = 0"
| "f64_to_u64 NaN = 0"

section \<open>Documents\<close>

datatype toml = TInt int | TFloat f64 | TStr string | TBool bool | TArr "toml list" | TTable "(string \<times> toml) list"

type_synonym table = "(string \<times> toml) list"

datatype config_error = BadType string | MissingField string | NameRequired | NameInvalid string

text \<open>A field of a table: its default if there is one and the key is absent.\<close>

definition field_or :: "(string \<Rightarrow> toml \<Rightarrow> config_error + 'a) \<Rightarrow> 'a \<Rightarrow> string \<Rightarrow> table \<Rightarrow> config_error + 'a" where
  "field_or de dflt k t = (case map_of t k of None \<Rightarrow> Inr dflt | Some v \<Rightarrow> de k v)"

definition field_req :: "(string \<Rightarrow> toml \<Rightarrow> config_error + 'a) \<Rightarrow> string \<Rightarrow> table \<Rightarrow> config_error + 'a" where
  "field_req de k t = (case map_of t k of None \<Rightarrow> Inl (MissingField k) | Some v \<Rightarrow> de k v)"

definition bind_err :: "config_error + 'a \<Rightarrow> ('a \<Rightarrow> config_error + 'b) \<Rightarrow> config_error + 'b" where
  "bind_err x f = (case x of Inl e \<Rightarrow> Inl e | Inr a \<Rightarrow> f a)"

lemma bind_err_simps [simp]: "bind_err (Inl e) f = Inl e" "bind_err (Inr a) f = f a"
  by (simp_all add: bind_err_def)

lemma field_or_Nil [simp]: "field_or de dflt k [] = Inr dflt"
  by (simp add: field_or_def)

fun de_bool :: "string \<Rightarrow> toml \<Rightarrow> config_error + bool" where
  "de_bool k (TBool b) = Inr b"
| "de_bool k v = Inl (BadType k)"

fun de_string :: "string \<Rightarrow> toml \<Rightarrow> config_error + string" where
  "de_string k (TStr s) = Inr s"
| "de_string k v = Inl (BadType k)"

text \<open>An unsigned integer below a bound; a TOML integer is an i64.\<close>

definition de_uint :: "nat \<Rightarrow> string \<Rightarrow> toml \<Rightarrow> config_error + nat" where
  "de_uint bound k v =
     (case v of TInt i \<Rightarrow> if 0 \<le> i \<and> nat i < bound then Inr (nat i) else Inl (BadType k) | _ \<Rightarrow> Inl (BadType k))"

definition de_usize :: "string \<Rightarrow> toml \<Rightarrow> config_error + nat" where
  "de_usize = de_uint (2 ^ 64)"

definition fits64 :: "nat \<Rightarrow> bool" where
  "fits64 n = (n < 2 ^ 64)"

definition fits32 :: "nat \<Rightarrow> bool" where
  "fits32 n = (n < 2 ^ 32)"

text \<open>serde reads an integer where an f64 is expected.\<close>

definition de_f64 :: "string \<Rightarrow> toml \<Rightarrow> config_error + f64" where
  "de_f64 k v = (case v of TFloat f \<Rightarrow> Inr f | TInt i \<Rightarrow> Inr (Fin (of_int i)) | _ \<Rightarrow> Inl (BadType k))"

text \<open>de_u64: the untagged enum tries the integer first and then the float, which a negative integer is too.\<close>

definition de_u64 :: "string \<Rightarrow> toml \<Rightarrow> config_error + nat" where
  "de_u64 k v =
     (case de_usize k v of
        Inr n \<Rightarrow> Inr n
      | Inl _ \<Rightarrow> (case de_f64 k v of Inr f \<Rightarrow> Inr (f64_to_u64 f) | Inl e \<Rightarrow> Inl e))"

definition de_some :: "(string \<Rightarrow> toml \<Rightarrow> config_error + 'a) \<Rightarrow> string \<Rightarrow> toml \<Rightarrow> config_error + 'a option" where
  "de_some de k v = map_sum id Some (de k v)"

definition de_opt_u64 :: "string \<Rightarrow> toml \<Rightarrow> config_error + nat option" where
  "de_opt_u64 = de_some de_u64"

fun de_all :: "(string \<Rightarrow> toml \<Rightarrow> config_error + 'a) \<Rightarrow> string \<Rightarrow> toml list \<Rightarrow> config_error + 'a list" where
  "de_all de k [] = Inr []"
| "de_all de k (v # vs) = bind_err (de k v) (\<lambda>x. bind_err (de_all de k vs) (\<lambda>xs. Inr (x # xs)))"

definition de_strings :: "string \<Rightarrow> toml \<Rightarrow> config_error + string list" where
  "de_strings k v = (case v of TArr vs \<Rightarrow> de_all de_string k vs | _ \<Rightarrow> Inl (BadType k))"

definition de_section :: "(table \<Rightarrow> config_error + 'a) \<Rightarrow> string \<Rightarrow> toml \<Rightarrow> config_error + 'a" where
  "de_section de k v = (case v of TTable t \<Rightarrow> de t | _ \<Rightarrow> Inl (BadType k))"

section \<open>Sections\<close>

record paths_config =
  pc_target_directories :: "string list"
  pc_cache_directory :: string
  pc_instance_name :: string

definition de_paths :: "table \<Rightarrow> config_error + paths_config" where
  "de_paths t =
     bind_err (field_req de_strings ''target_directories'' t) (\<lambda>a.
     bind_err (field_req de_string ''cache_directory'' t) (\<lambda>b.
     bind_err (field_req de_string ''instance_name'' t) (\<lambda>c.
     Inr \<lparr>pc_target_directories = a, pc_cache_directory = b, pc_instance_name = c\<rparr>)))"

record cache_config =
  cc_max_size_gb :: "f64 option"
  cc_expiry_hours :: "nat option"
  cc_min_free_space_gb :: "f64 option"
  cc_passthrough_mode :: bool
  cc_max_cache_pull_per_mount_gb :: f64
  cc_deferred_ttl_minutes :: nat
  cc_min_access_secs :: nat
  cc_min_file_size_mb :: nat
  cc_max_concurrent_copies :: nat

definition default_max_concurrent_copies :: nat where "default_max_concurrent_copies = 1"
definition default_deferred_ttl_minutes :: nat where "default_deferred_ttl_minutes = 1440"

definition cache_default :: cache_config where
  "cache_default = \<lparr>cc_max_size_gb = None, cc_expiry_hours = None, cc_min_free_space_gb = None,
     cc_passthrough_mode = False, cc_max_cache_pull_per_mount_gb = Fin 0,
     cc_deferred_ttl_minutes = default_deferred_ttl_minutes, cc_min_access_secs = 2, cc_min_file_size_mb = 0,
     cc_max_concurrent_copies = default_max_concurrent_copies\<rparr>"

text \<open>\<open>#[serde(default)]\<close> on a field is the default of its type, here 0.\<close>

definition de_cache :: "table \<Rightarrow> config_error + cache_config" where
  "de_cache t =
     bind_err (field_or (de_some de_f64) None ''max_size_gb'' t) (\<lambda>a.
     bind_err (field_or de_opt_u64 None ''expiry_hours'' t) (\<lambda>b.
     bind_err (field_or (de_some de_f64) None ''min_free_space_gb'' t) (\<lambda>c.
     bind_err (field_or de_bool False ''passthrough_mode'' t) (\<lambda>d.
     bind_err (field_or de_f64 (Fin 0) ''max_cache_pull_per_mount_gb'' t) (\<lambda>e.
     bind_err (field_or de_u64 default_deferred_ttl_minutes ''deferred_ttl_minutes'' t) (\<lambda>f.
     bind_err (field_or de_u64 0 ''min_access_secs'' t) (\<lambda>g.
     bind_err (field_or de_u64 0 ''min_file_size_mb'' t) (\<lambda>h.
     bind_err (field_or de_usize default_max_concurrent_copies ''max_concurrent_copies'' t) (\<lambda>i.
     Inr \<lparr>cc_max_size_gb = a, cc_expiry_hours = b, cc_min_free_space_gb = c, cc_passthrough_mode = d,
       cc_max_cache_pull_per_mount_gb = e, cc_deferred_ttl_minutes = f, cc_min_access_secs = g,
       cc_min_file_size_mb = h, cc_max_concurrent_copies = i\<rparr>)))))))))"

record eviction_config =
  ec_strategy :: string
  ec_max_size_gb :: f64
  ec_expiry_hours :: nat
  ec_min_free_space_gb :: f64
  ec_poll_interval_secs :: nat

definition default_eviction_strategy :: string where "default_eviction_strategy = ''lru''"
definition default_max_size_gb :: f64 where "default_max_size_gb = Fin 200"
definition default_expiry_hours :: nat where "default_expiry_hours = 72"
definition default_min_free_space_gb :: f64 where "default_min_free_space_gb = Fin 10"
definition default_poll_interval_secs :: nat where "default_poll_interval_secs = 300"

definition eviction_default :: eviction_config where
  "eviction_default = \<lparr>ec_strategy = default_eviction_strategy, ec_max_size_gb = default_max_size_gb,
     ec_expiry_hours = default_expiry_hours, ec_min_free_space_gb = default_min_free_space_gb,
     ec_poll_interval_secs = default_poll_interval_secs\<rparr>"

definition de_eviction :: "table \<Rightarrow> config_error + eviction_config" where
  "de_eviction t =
     bind_err (field_or de_string default_eviction_strategy ''strategy'' t) (\<lambda>a.
     bind_err (field_or de_f64 default_max_size_gb ''max_size_gb'' t) (\<lambda>b.
     bind_err (field_or de_u64 default_expiry_hours ''expiry_hours'' t) (\<lambda>c.
     bind_err (field_or de_f64 default_min_free_space_gb ''min_free_space_gb'' t) (\<lambda>d.
     bind_err (field_or de_u64 default_poll_interval_secs ''poll_interval_secs'' t) (\<lambda>e.
     Inr \<lparr>ec_strategy = a, ec_max_size_gb = b, ec_expiry_hours = c, ec_min_free_space_gb = d,
       ec_poll_interval_secs = e\<rparr>)))))"

record invalidation_config =
  ic_check_on_hit :: bool
  ic_check_on_maintenance :: bool

definition default_check_on_hit :: bool where "default_check_on_hit = False"
definition default_check_on_maintenance :: bool where "default_check_on_maintenance = True"

definition invalidation_default :: invalidation_config where
  "invalidation_default = \<lparr>ic_check_on_hit = default_check_on_hit, ic_check_on_maintenance = default_check_on_maintenance\<rparr>"

definition de_invalidation :: "table \<Rightarrow> config_error + invalidation_config" where
  "de_invalidation t =
     bind_err (field_or de_bool default_check_on_hit ''check_on_hit'' t) (\<lambda>a.
     bind_err (field_or de_bool default_check_on_maintenance ''check_on_maintenance'' t) (\<lambda>b.
     Inr \<lparr>ic_check_on_hit = a, ic_check_on_maintenance = b\<rparr>))"

record prefetch_config =
  fc_mode :: string
  fc_max_depth :: nat
  fc_process_blocklist :: "string list"
  fc_process_allowlist :: "string list"
  fc_file_whitelist :: "string list"
  fc_file_blacklist :: "string list"

definition default_prefetch_mode :: string where "default_prefetch_mode = ''cache-hit-only''"
definition default_max_depth :: nat where "default_max_depth = 3"

definition prefetch_default :: prefetch_config where
  "prefetch_default = \<lparr>fc_mode = default_prefetch_mode, fc_max_depth = default_max_depth, fc_process_blocklist = [],
     fc_process_allowlist = [], fc_file_whitelist = [], fc_file_blacklist = []\<rparr>"

definition de_prefetch :: "table \<Rightarrow> config_error + prefetch_config" where
  "de_prefetch t =
     bind_err (field_or de_string default_prefetch_mode ''mode'' t) (\<lambda>a.
     bind_err (field_or de_usize default_max_depth ''max_depth'' t) (\<lambda>b.
     bind_err (field_or de_strings [] ''process_blocklist'' t) (\<lambda>c.
     bind_err (field_or de_strings [] ''process_allowlist'' t) (\<lambda>d.
     bind_err (field_or de_strings [] ''file_whitelist'' t) (\<lambda>e.
     bind_err (field_or de_strings [] ''file_blacklist'' t) (\<lambda>f.
     Inr \<lparr>fc_mode = a, fc_max_depth = b, fc_process_blocklist = c, fc_process_allowlist = d,
       fc_file_whitelist = e, fc_file_blacklist = f\<rparr>))))))"

definition default_preset_name :: string where "default_preset_name = ''plex-episode-prediction''"

definition de_preset :: "table \<Rightarrow> config_error + string" where
  "de_preset t = field_or de_string default_preset_name ''name'' t"

record plex_config =
  xc_lookahead :: nat
  xc_mode :: string
  xc_process_blocklist :: "string list"
  xc_process_allowlist :: "string list"

definition default_lookahead :: nat where "default_lookahead = 4"
definition default_plex_mode :: string where "default_plex_mode = ''miss-only''"

definition plex_default :: plex_config where
  "plex_default = \<lparr>xc_lookahead = default_lookahead, xc_mode = default_plex_mode, xc_process_blocklist = [],
     xc_process_allowlist = []\<rparr>"

definition de_plex :: "table \<Rightarrow> config_error + plex_config" where
  "de_plex t =
     bind_err (field_or de_usize default_lookahead ''lookahead'' t) (\<lambda>a.
     bind_err (field_or de_string default_plex_mode ''mode'' t) (\<lambda>b.
     bind_err (field_or de_strings [] ''process_blocklist'' t) (\<lambda>c.
     bind_err (field_or de_strings [] ''process_allowlist'' t) (\<lambda>d.
     Inr \<lparr>xc_lookahead = a, xc_mode = b, xc_process_blocklist = c, xc_process_allowlist = d\<rparr>))))"

record schedule_config =
  sc_cache_window_start :: string
  sc_cache_window_end :: string

definition default_window_start :: string where "default_window_start = ''08:00''"
definition default_window_end :: string where "default_window_end = ''02:00''"

definition schedule_default :: schedule_config where
  "schedule_default = \<lparr>sc_cache_window_start = default_window_start, sc_cache_window_end = default_window_end\<rparr>"

definition de_schedule :: "table \<Rightarrow> config_error + schedule_config" where
  "de_schedule t =
     bind_err (field_or de_string default_window_start ''cache_window_start'' t) (\<lambda>a.
     bind_err (field_or de_string default_window_end ''cache_window_end'' t) (\<lambda>b.
     Inr \<lparr>sc_cache_window_start = a, sc_cache_window_end = b\<rparr>))"

record logging_config =
  lc_log_directory :: string
  lc_console_level :: string
  lc_file_level :: string
  lc_repeat_log_window_secs :: nat

definition default_log_directory :: string where "default_log_directory = ''/var/log/fscache''"
definition default_console_level :: string where "default_console_level = ''info''"
definition default_file_level :: string where "default_file_level = ''debug''"
definition default_repeat_log_window_secs :: nat where "default_repeat_log_window_secs = 60"

definition logging_default :: logging_config where
  "logging_default = \<lparr>lc_log_directory = default_log_directory, lc_console_level = default_console_level,
     lc_file_level = default_file_level, lc_repeat_log_window_secs = default_repeat_log_window_secs\<rparr>"

definition de_logging :: "table \<Rightarrow> config_error + logging_config" where
  "de_logging t =
     bind_err (field_or de_string default_log_directory ''log_directory'' t) (\<lambda>a.
     bind_err (field_or de_string default_console_level ''console_level'' t) (\<lambda>b.
     bind_err (field_or de_string default_file_level ''file_level'' t) (\<lambda>c.
     bind_err (field_or de_u64 default_repeat_log_window_secs ''repeat_log_window_secs'' t) (\<lambda>d.
     Inr \<lparr>lc_log_directory = a, lc_console_level = b, lc_file_level = c, lc_repeat_log_window_secs = d\<rparr>))))"

record discovery_config =
  dv_enabled :: bool
  dv_window_days :: nat
  dv_bucket_interval_secs :: nat
  dv_pid_lru_capacity :: nat
  dv_pid_lru_ttl_secs :: nat

definition discovery_default :: discovery_config where
  "discovery_default = \<lparr>dv_enabled = False, dv_window_days = 7, dv_bucket_interval_secs = 60,
     dv_pid_lru_capacity = 512, dv_pid_lru_ttl_secs = 300\<rparr>"

text \<open>\<open>#[serde(default)]\<close> on the struct: an absent field is the one of the section's default.\<close>

definition de_discovery :: "table \<Rightarrow> config_error + discovery_config" where
  "de_discovery t =
     bind_err (field_or de_bool (dv_enabled discovery_default) ''enabled'' t) (\<lambda>a.
     bind_err (field_or de_usize (dv_window_days discovery_default) ''window_days'' t) (\<lambda>b.
     bind_err (field_or de_usize (dv_bucket_interval_secs discovery_default) ''bucket_interval_secs'' t) (\<lambda>c.
     bind_err (field_or de_usize (dv_pid_lru_capacity discovery_default) ''pid_lru_capacity'' t) (\<lambda>d.
     bind_err (field_or de_usize (dv_pid_lru_ttl_secs discovery_default) ''pid_lru_ttl_secs'' t) (\<lambda>e.
     Inr \<lparr>dv_enabled = a, dv_window_days = b, dv_bucket_interval_secs = c, dv_pid_lru_capacity = d,
       dv_pid_lru_ttl_secs = e\<rparr>)))))"

record backing_watch_config =
  wc_enabled :: bool
  wc_max_dirs :: nat
  wc_debounce_ms :: nat

definition backing_watch_default :: backing_watch_config where
  "backing_watch_default = \<lparr>wc_enabled = True, wc_max_dirs = 65536, wc_debounce_ms = 3000\<rparr>"

definition de_backing_watch :: "table \<Rightarrow> config_error + backing_watch_config" where
  "de_backing_watch t =
     bind_err (field_or de_bool (wc_enabled backing_watch_default) ''enabled'' t) (\<lambda>a.
     bind_err (field_or de_usize (wc_max_dirs backing_watch_default) ''max_dirs'' t) (\<lambda>b.
     bind_err (field_or de_usize (wc_debounce_ms backing_watch_default) ''debounce_ms'' t) (\<lambda>c.
     Inr \<lparr>wc_enabled = a, wc_max_dirs = b, wc_debounce_ms = c\<rparr>)))"

definition default_sqlite_cache_size_mb :: nat where "default_sqlite_cache_size_mb = 64"

definition de_sqlite :: "table \<Rightarrow> config_error + nat" where
  "de_sqlite t = field_or (de_uint (2 ^ 32)) default_sqlite_cache_size_mb ''cache_size_mb'' t"

record config =
  cf_paths :: paths_config
  cf_cache :: cache_config
  cf_eviction :: eviction_config
  cf_preset :: string
  cf_prefetch :: prefetch_config
  cf_plex :: plex_config
  cf_schedule :: schedule_config
  cf_logging :: logging_config
  cf_invalidation :: invalidation_config
  cf_discovery :: discovery_config
  cf_backing_watch :: backing_watch_config
  cf_sqlite :: nat

definition de_config :: "table \<Rightarrow> config_error + config" where
  "de_config t =
     bind_err (field_req (de_section de_paths) ''paths'' t) (\<lambda>a.
     bind_err (field_or (de_section de_cache) cache_default ''cache'' t) (\<lambda>b.
     bind_err (field_or (de_section de_eviction) eviction_default ''eviction'' t) (\<lambda>c.
     bind_err (field_or (de_section de_preset) default_preset_name ''preset'' t) (\<lambda>d.
     bind_err (field_or (de_section de_prefetch) prefetch_default ''prefetch'' t) (\<lambda>e.
     bind_err (field_or (de_section de_plex) plex_default ''plex'' t) (\<lambda>f.
     bind_err (field_or (de_section de_schedule) schedule_default ''schedule'' t) (\<lambda>g.
     bind_err (field_or (de_section de_logging) logging_default ''logging'' t) (\<lambda>h.
     bind_err (field_or (de_section de_invalidation) invalidation_default ''invalidation'' t) (\<lambda>i.
     bind_err (field_or (de_section de_discovery) discovery_default ''discovery'' t) (\<lambda>j.
     bind_err (field_or (de_section de_backing_watch) backing_watch_default ''backing_watch'' t) (\<lambda>k.
     bind_err (field_or (de_section de_sqlite) default_sqlite_cache_size_mb ''sqlite'' t) (\<lambda>l.
     Inr \<lparr>cf_paths = a, cf_cache = b, cf_eviction = c, cf_preset = d, cf_prefetch = e, cf_plex = f, cf_schedule = g,
       cf_logging = h, cf_invalidation = i, cf_discovery = j, cf_backing_watch = k, cf_sqlite = l\<rparr>))))))))))))"

section \<open>Resolution and validation\<close>

record resolved_eviction =
  re_max_size_gb :: f64
  re_expiry_hours :: nat
  re_min_free_space_gb :: f64

definition resolve_eviction :: "eviction_config \<Rightarrow> cache_config \<Rightarrow> resolved_eviction" where
  "resolve_eviction eviction cache =
     \<lparr>re_max_size_gb = (case cc_max_size_gb cache of Some v \<Rightarrow> v | None \<Rightarrow> ec_max_size_gb eviction),
      re_expiry_hours = (case cc_expiry_hours cache of Some v \<Rightarrow> v | None \<Rightarrow> ec_expiry_hours eviction),
      re_min_free_space_gb = (case cc_min_free_space_gb cache of Some v \<Rightarrow> v | None \<Rightarrow> ec_min_free_space_gb eviction)\<rparr>"

definition instance_char :: "char \<Rightarrow> bool" where
  "instance_char c = (is_ascii_alphanumeric c \<or> c = CHR ''-'' \<or> c = CHR ''_'')"

definition validate_instance_name :: "string \<Rightarrow> config_error + unit" where
  "validate_instance_name name =
     (if trim name = [] then Inl NameRequired
      else if \<not> list_all instance_char name then Inl (NameInvalid name)
      else Inr ())"

definition load_from :: "table \<Rightarrow> config_error + config" where
  "load_from doc =
     bind_err (de_config doc) (\<lambda>cfg.
     bind_err (validate_instance_name (pc_instance_name (cf_paths cfg))) (\<lambda>_. Inr cfg))"

section \<open>Properties\<close>

lemma bind_err_Inr: "bind_err x f = Inr y \<longleftrightarrow> (\<exists>a. x = Inr a \<and> f a = Inr y)"
  by (cases x) simp_all

lemma field_or_Inr:
  "field_or de dflt k t = Inr x \<Longrightarrow> P dflt \<Longrightarrow> (\<And>v. de k v = Inr x \<Longrightarrow> P x) \<Longrightarrow> P x"
  by (auto simp: field_or_def split: option.splits)

lemma de_uint_bound: "de_uint bound k v = Inr n \<Longrightarrow> n < bound"
  by (auto simp: de_uint_def split: toml.splits if_splits)

lemma fits64_small [simp]: "fits64 0" "fits64 (Suc 0)" "fits64 (numeral k) = (numeral k < (2 ^ 64 :: nat))"
  by (simp_all add: fits64_def)

lemma f64_to_u64_fits: "fits64 (f64_to_u64 f)"
  by (cases f) (auto simp: fits64_def u64_max_def min_def)

lemma de_usize_fits: "de_usize k v = Inr n \<Longrightarrow> fits64 n"
  by (simp add: de_usize_def fits64_def de_uint_bound)

lemma de_u64_fits: "de_u64 k v = Inr n \<Longrightarrow> fits64 n"
  by (auto simp: de_u64_def f64_to_u64_fits split: sum.splits dest: de_usize_fits)

definition cache_wf :: "cache_config \<Rightarrow> bool" where
  "cache_wf c = (pred_option fits64 (cc_expiry_hours c) \<and> fits64 (cc_deferred_ttl_minutes c) \<and>
     fits64 (cc_min_access_secs c) \<and> fits64 (cc_min_file_size_mb c) \<and> fits64 (cc_max_concurrent_copies c))"

definition config_wf :: "config \<Rightarrow> bool" where
  "config_wf c =
     (pc_instance_name (cf_paths c) \<noteq> [] \<and> list_all instance_char (pc_instance_name (cf_paths c)) \<and>
      cache_wf (cf_cache c) \<and>
      fits64 (ec_expiry_hours (cf_eviction c)) \<and> fits64 (ec_poll_interval_secs (cf_eviction c)) \<and>
      fits64 (fc_max_depth (cf_prefetch c)) \<and> fits64 (xc_lookahead (cf_plex c)) \<and>
      fits64 (lc_repeat_log_window_secs (cf_logging c)) \<and>
      fits64 (dv_window_days (cf_discovery c)) \<and> fits64 (dv_bucket_interval_secs (cf_discovery c)) \<and>
      fits64 (dv_pid_lru_capacity (cf_discovery c)) \<and>
      fits64 (wc_max_dirs (cf_backing_watch c)) \<and> fits64 (wc_debounce_ms (cf_backing_watch c)) \<and>
      fits32 (cf_sqlite c))"

lemma field_u64: "field_or de_u64 d k t = Inr n \<Longrightarrow> fits64 d \<Longrightarrow> fits64 n"
  by (auto simp: field_or_def split: option.splits dest: de_u64_fits)

lemma field_usize: "field_or de_usize d k t = Inr n \<Longrightarrow> fits64 d \<Longrightarrow> fits64 n"
  by (auto simp: field_or_def split: option.splits dest: de_usize_fits)

lemma field_opt_u64: "field_or de_opt_u64 None k t = Inr r \<Longrightarrow> pred_option fits64 r"
  by (cases "map_of t k"; cases "de_u64 k (the (map_of t k))")
    (auto simp: field_or_def de_opt_u64_def de_some_def dest: de_u64_fits)

lemma de_sqlite_fits: "de_sqlite t = Inr n \<Longrightarrow> fits32 n"
  by (auto simp: de_sqlite_def field_or_def fits32_def default_sqlite_cache_size_mb_def split: option.splits dest: de_uint_bound)

lemma section_wf:
  assumes "field_or (de_section de) d k t = Inr x" and "P d" and "\<And>u y. de u = Inr y \<Longrightarrow> P y"
  shows "P x"
  using assms by (auto simp: field_or_def de_section_def split: option.splits toml.splits)

lemmas field_fits = field_u64 field_usize field_opt_u64

lemmas field_defaults = default_deferred_ttl_minutes_def default_max_concurrent_copies_def default_expiry_hours_def
  default_poll_interval_secs_def default_max_depth_def default_lookahead_def default_repeat_log_window_secs_def

lemma de_cache_wf: "de_cache t = Inr c \<Longrightarrow> cache_wf c"
  unfolding de_cache_def bind_err_Inr cache_wf_def
  by (elim exE conjE) (auto dest!: field_fits simp: field_defaults)

lemma de_eviction_fits: "de_eviction t = Inr c \<Longrightarrow> fits64 (ec_expiry_hours c) \<and> fits64 (ec_poll_interval_secs c)"
  unfolding de_eviction_def bind_err_Inr
  by (elim exE conjE) (auto dest!: field_fits simp: field_defaults)

lemma de_prefetch_fits: "de_prefetch t = Inr c \<Longrightarrow> fits64 (fc_max_depth c)"
  unfolding de_prefetch_def bind_err_Inr by (elim exE conjE) (auto dest!: field_fits simp: field_defaults)

lemma de_plex_fits: "de_plex t = Inr c \<Longrightarrow> fits64 (xc_lookahead c)"
  unfolding de_plex_def bind_err_Inr by (elim exE conjE) (auto dest!: field_fits simp: field_defaults)

lemma de_logging_fits: "de_logging t = Inr c \<Longrightarrow> fits64 (lc_repeat_log_window_secs c)"
  unfolding de_logging_def bind_err_Inr by (elim exE conjE) (auto dest!: field_fits simp: field_defaults)

lemma de_discovery_fits:
  "de_discovery t = Inr c \<Longrightarrow> fits64 (dv_window_days c) \<and> fits64 (dv_bucket_interval_secs c) \<and> fits64 (dv_pid_lru_capacity c)"
  unfolding de_discovery_def bind_err_Inr
  by (elim exE conjE) (auto dest!: field_fits simp: discovery_default_def)

lemma de_backing_watch_fits: "de_backing_watch t = Inr c \<Longrightarrow> fits64 (wc_max_dirs c) \<and> fits64 (wc_debounce_ms c)"
  unfolding de_backing_watch_def bind_err_Inr
  by (elim exE conjE) (auto dest!: field_fits simp: backing_watch_default_def)

lemma validate_Inr: "validate_instance_name n = Inr () \<Longrightarrow> n \<noteq> [] \<and> list_all instance_char n"
  by (auto simp: validate_instance_name_def trim_def split: if_splits)


definition minimal_doc :: table where
  "minimal_doc = [(''paths'', TTable [(''target_directories'', TArr [TStr ''/media'']), (''cache_directory'', TStr ''/cache''),
     (''instance_name'', TStr ''test'')])]"

lemmas de_all_sections = de_config_def de_cache_def de_eviction_def de_preset_def de_prefetch_def de_plex_def
  de_schedule_def de_logging_def de_invalidation_def de_discovery_def de_backing_watch_def de_sqlite_def

definition minimal_config :: config where
  "minimal_config = \<lparr>cf_paths = \<lparr>pc_target_directories = [''/media''], pc_cache_directory = ''/cache'', pc_instance_name = ''test''\<rparr>,
     cf_cache = cache_default, cf_eviction = eviction_default, cf_preset = default_preset_name,
     cf_prefetch = prefetch_default, cf_plex = plex_default, cf_schedule = schedule_default,
     cf_logging = logging_default, cf_invalidation = invalidation_default, cf_discovery = discovery_default,
     cf_backing_watch = backing_watch_default, cf_sqlite = default_sqlite_cache_size_mb\<rparr>"

lemma load_minimal: "load_from minimal_doc = Inr minimal_config"
  by (simp add: load_from_def minimal_doc_def de_config_def field_req_def field_or_def de_section_def de_paths_def
      de_strings_def minimal_config_def validate_instance_name_def trim_def is_space_def code_of_def
      instance_char_def is_ascii_alphanumeric_def is_digit_def)


text \<open>An empty section means the same as an absent one, except for the cache section, where it turns
  the two-second access filter of the default into no filter.\<close>

theorem empty_section_is_default:
  "de_eviction [] = Inr eviction_default \<and> de_preset [] = Inr default_preset_name \<and> de_prefetch [] = Inr prefetch_default \<and>
   de_plex [] = Inr plex_default \<and> de_schedule [] = Inr schedule_default \<and> de_logging [] = Inr logging_default \<and>
   de_invalidation [] = Inr invalidation_default \<and> de_discovery [] = Inr discovery_default \<and>
   de_backing_watch [] = Inr backing_watch_default \<and> de_sqlite [] = Inr default_sqlite_cache_size_mb \<and>
   de_cache [] = Inr (cache_default\<lparr>cc_min_access_secs := 0\<rparr>) \<and> cc_min_access_secs cache_default = 2"
  by (simp add: de_all_sections eviction_default_def prefetch_default_def plex_default_def schedule_default_def
      logging_default_def invalidation_default_def discovery_default_def backing_watch_default_def cache_default_def)

text \<open>A negative number where an unsigned one is wanted is an error or, in the fields that also take
  floats, silently 0.\<close>

lemma negative_numbers:
  "de_usize k (TInt (- 5)) = Inl (BadType k) \<and> de_u64 k (TInt (- 5)) = Inr 0"
  by (simp add: de_u64_def de_usize_def de_uint_def de_f64_def)

end
