(* ===== verification/Protocol.thy ===== *)
theory Protocol
  imports Config CacheDb
begin

text \<open>
  The messages between the daemon and its clients (src/src/ipc/protocol.rs), the layer that turns
  tracing events into messages (broadcast_layer.rs, telemetry.rs), the ring of recent log lines
  (recent_logs.rs), and the dashboard a watching client keeps (ipc/client.rs, tui/state.rs). The
  JSON framing and the broadcast channel are third-party code: a receiver is given the items it
  gets in order, a lag or the end of the channel among them.
\<close>

section \<open>Messages\<close>

record file_target =
  ft_rel_path :: path
  ft_mount_id :: path

datatype client_message = Shutdown | EvictFiles "file_target list" | RefreshLease "file_target list"
  | DiscoveryStart | DiscoveryStop

datatype telemetry_event =
    FuseOpen
  | CacheHit
  | CacheMiss
  | HandleClosed "nat option"
  | CopyQueued
  | CopyStarted "string option" "nat option"
  | CopyComplete "string option"
  | CopyFailed "string option"
  | CopyProgress "string option" "nat option" "nat option"
  | DeferredChanged "nat option"
  | BudgetUpdated "nat option" "nat option"
  | CachingWindow "bool option"
  | Eviction "string option" "string option"
  | DiscoveryStatus bool "int option"
  | BackingChanged "string option" "string option" "string option" "string option"

record log_line =
  ll_timestamp :: string
  ll_level :: string
  ll_message :: string

record mount_info_wire =
  mi_target :: path
  mi_cache_dir :: path
  mi_active :: bool

record hello_payload =
  hp_version :: string
  hp_instance_name :: string
  hp_mounts :: "mount_info_wire list"
  hp_db_path :: path
  hp_config :: config

datatype daemon_message = Hello hello_payload | Event telemetry_event | Log log_line | Goodbye

section \<open>From tracing events to messages\<close>

datatype log_level = LError | LWarn | LInfo | LDebug | LTrace

fun level_rank :: "log_level \<Rightarrow> nat" where
  "level_rank LError = 0"
| "level_rank LWarn = 1"
| "level_rank LInfo = 2"
| "level_rank LDebug = 3"
| "level_rank LTrace = 4"

fun level_str :: "log_level \<Rightarrow> string" where
  "level_str LError = ''ERROR''"
| "level_str LWarn = ''WARN ''"
| "level_str LInfo = ''INFO ''"
| "level_str LDebug = ''DEBUG''"
| "level_str LTrace = ''TRACE''"

text \<open>A field of an event reaches the visitor as a string, an unsigned number, a flag, or, for every
  other type, as its Debug text.\<close>

datatype field_value = VStr string | VU64 nat | VBool bool | VDebug string

record event_visitor =
  ev_event :: "string option"
  ev_message :: "string option"
  ev_path :: "string option"
  ev_reason :: "string option"
  ev_kind :: "string option"
  ev_action :: "string option"
  ev_mount_id :: "string option"
  ev_bytes_read :: "nat option"
  ev_bytes_copied :: "nat option"
  ev_size_bytes :: "nat option"
  ev_used_bytes :: "nat option"
  ev_max_bytes :: "nat option"
  ev_count :: "nat option"
  ev_allowed :: "bool option"

definition visitor_new :: event_visitor where
  "visitor_new = \<lparr>ev_event = None, ev_message = None, ev_path = None, ev_reason = None, ev_kind = None, ev_action = None,
     ev_mount_id = None, ev_bytes_read = None, ev_bytes_copied = None, ev_size_bytes = None, ev_used_bytes = None,
     ev_max_bytes = None, ev_count = None, ev_allowed = None\<rparr>"

definition record_str :: "string \<Rightarrow> string \<Rightarrow> event_visitor \<Rightarrow> event_visitor" where
  "record_str name s v =
     (if name = ''event'' then v\<lparr>ev_event := Some s\<rparr>
      else if name = ''message'' then v\<lparr>ev_message := Some s\<rparr>
      else if name = ''path'' then v\<lparr>ev_path := Some s\<rparr>
      else if name = ''reason'' then v\<lparr>ev_reason := Some s\<rparr>
      else if name = ''kind'' then v\<lparr>ev_kind := Some s\<rparr>
      else if name = ''action'' then v\<lparr>ev_action := Some s\<rparr>
      else if name = ''mount_id'' then v\<lparr>ev_mount_id := Some s\<rparr>
      else v)"

definition record_u64 :: "string \<Rightarrow> nat \<Rightarrow> event_visitor \<Rightarrow> event_visitor" where
  "record_u64 name n v =
     (if name = ''bytes_read'' then v\<lparr>ev_bytes_read := Some n\<rparr>
      else if name = ''bytes_copied'' then v\<lparr>ev_bytes_copied := Some n\<rparr>
      else if name = ''size_bytes'' then v\<lparr>ev_size_bytes := Some n\<rparr>
      else if name = ''used_bytes'' then v\<lparr>ev_used_bytes := Some n\<rparr>
      else if name = ''max_bytes'' then v\<lparr>ev_max_bytes := Some n\<rparr>
      else if name = ''count'' then v\<lparr>ev_count := Some n\<rparr>
      else v)"

definition record_bool :: "string \<Rightarrow> bool \<Rightarrow> event_visitor \<Rightarrow> event_visitor" where
  "record_bool name b v = (if name = ''allowed'' then v\<lparr>ev_allowed := Some b\<rparr> else v)"

definition trim_quotes :: "string \<Rightarrow> string" where
  "trim_quotes s = rev (dropWhile (\<lambda>c. code_of c = 34) (rev (dropWhile (\<lambda>c. code_of c = 34) s)))"

definition record_debug :: "string \<Rightarrow> string \<Rightarrow> event_visitor \<Rightarrow> event_visitor" where
  "record_debug name s v = record_str name (trim_quotes s) v"

fun record_field :: "event_visitor \<Rightarrow> string \<times> field_value \<Rightarrow> event_visitor" where
  "record_field v (name, VStr s) = record_str name s v"
| "record_field v (name, VU64 n) = record_u64 name n v"
| "record_field v (name, VBool b) = record_bool name b v"
| "record_field v (name, VDebug s) = record_debug name s v"

definition telemetry_of :: "event_visitor \<Rightarrow> telemetry_event option" where
  "telemetry_of v =
     (case ev_event v of
        None \<Rightarrow> None
      | Some e \<Rightarrow>
          if e = ''fuse_open'' then Some FuseOpen
          else if e = ''cache_hit'' then Some CacheHit
          else if e = ''cache_miss'' then Some CacheMiss
          else if e = ''handle_closed'' then Some (HandleClosed (ev_bytes_read v))
          else if e = ''copy_queued'' then Some CopyQueued
          else if e = ''copy_started'' then Some (CopyStarted (ev_path v) (ev_size_bytes v))
          else if e = ''copy_complete'' then Some (CopyComplete (ev_path v))
          else if e = ''copy_failed'' then Some (CopyFailed (ev_path v))
          else if e = ''deferred_changed'' then Some (DeferredChanged (ev_count v))
          else if e = ''budget_updated'' then Some (BudgetUpdated (ev_used_bytes v) (ev_max_bytes v))
          else if e = ''caching_window'' then Some (CachingWindow (ev_allowed v))
          else if e = ''eviction'' then Some (Eviction (ev_path v) (ev_reason v))
          else if e = ''copy_progress'' then Some (CopyProgress (ev_path v) (ev_bytes_copied v) (ev_size_bytes v))
          else if e = ''backing_changed'' then Some (BackingChanged (ev_mount_id v) (ev_path v) (ev_kind v) (ev_action v))
          else None)"

definition log_message :: "event_visitor \<Rightarrow> string" where
  "log_message v =
     (case ev_message v of None \<Rightarrow> [] | Some m \<Rightarrow> m) @
     (case ev_path v of None \<Rightarrow> [] | Some p \<Rightarrow> ''  ['' @ p @ '']'') @
     (case ev_reason v of None \<Rightarrow> [] | Some r \<Rightarrow> ''  ('' @ r @ '')'')"

text \<open>on_event: the telemetry of the event, whatever its level, and then its log line if the level is wanted.\<close>

definition on_event :: "log_level \<Rightarrow> string \<Rightarrow> log_level \<Rightarrow> (string \<times> field_value) list \<Rightarrow> daemon_message list" where
  "on_event limit now level values =
     (let v = foldl record_field visitor_new values
      in (case telemetry_of v of None \<Rightarrow> [] | Some e \<Rightarrow> [Event e]) @
         (if level_rank level \<le> level_rank limit
          then [Log \<lparr>ll_timestamp = now, ll_level = level_str level, ll_message = log_message v\<rparr>] else []))"

section \<open>Recent log lines\<close>

datatype 'm received = Rx 'm | RxLagged nat | RxClosed

definition push_bounded :: "nat \<Rightarrow> 'a list \<Rightarrow> 'a \<Rightarrow> 'a list" where
  "push_bounded cap buf x = (if length buf \<ge> cap then tl buf else buf) @ [x]"

definition RECENT_LOG_CAP :: nat where
  "RECENT_LOG_CAP = 100"

fun recent_logs_loop :: "daemon_message received list \<Rightarrow> log_line list \<Rightarrow> log_line list" where
  "recent_logs_loop [] buf = buf"
| "recent_logs_loop (Rx m # rs) buf =
     (case m of Log l \<Rightarrow> recent_logs_loop rs (push_bounded RECENT_LOG_CAP buf l) | _ \<Rightarrow> recent_logs_loop rs buf)"
| "recent_logs_loop (RxLagged n # rs) buf = recent_logs_loop rs buf"
| "recent_logs_loop (RxClosed # rs) buf = buf"

section \<open>The dashboard\<close>

record copy_progress =
  cp_size_bytes :: nat
  cp_bytes_copied :: nat
  cp_started_at :: int

record cached_file_info =
  ci_path :: path
  ci_size_bytes :: nat
  ci_cached_at :: nat
  ci_last_hit_at :: nat
  ci_evicts_at :: nat
  ci_mount_id :: path

record dashboard =
  da_config :: config
  da_fuse_opens :: nat
  da_cache_hits :: nat
  da_cache_misses :: nat
  da_bytes_read :: nat
  da_open_handles :: nat
  da_cache_used_bytes :: nat
  da_cache_free_bytes :: nat
  da_cache_file_count :: nat
  da_cached_files :: "cached_file_info list"
  da_in_flight_count :: nat
  da_deferred_count :: nat
  da_budget_used_bytes :: nat
  da_budget_max_bytes :: nat
  da_active_copies :: "(string \<times> copy_progress) list"
  da_completed_copies :: nat
  da_failed_copies :: nat
  da_evictions_expired :: nat
  da_evictions_size :: nat
  da_backing_watches_active :: nat
  da_backing_events_handled :: nat
  da_backing_evictions_triggered :: nat
  da_backing_watch_cap_reached :: nat
  da_caching_allowed :: bool
  da_mounts :: "mount_info_wire list"
  da_recent_logs :: "log_line list"

definition dashboard_new :: "config \<Rightarrow> dashboard" where
  "dashboard_new c = \<lparr>da_config = c, da_fuse_opens = 0, da_cache_hits = 0, da_cache_misses = 0, da_bytes_read = 0, da_open_handles = 0,
     da_cache_used_bytes = 0, da_cache_free_bytes = 0, da_cache_file_count = 0, da_cached_files = [], da_in_flight_count = 0,
     da_deferred_count = 0, da_budget_used_bytes = 0,
     da_budget_max_bytes = f64_to_u64 (f64_scale (cc_max_cache_pull_per_mount_gb (cf_cache c)) 1073741824),
     da_active_copies = [], da_completed_copies = 0, da_failed_copies = 0, da_evictions_expired = 0, da_evictions_size = 0,
     da_backing_watches_active = 0, da_backing_events_handled = 0, da_backing_evictions_triggered = 0, da_backing_watch_cap_reached = 0, da_caching_allowed = False, da_mounts = [],
     da_recent_logs = []\<rparr>"

definition push_log :: "log_line \<Rightarrow> dashboard \<Rightarrow> dashboard" where
  "push_log l d = d\<lparr>da_recent_logs := push_bounded 200 (da_recent_logs d) l\<rparr>"

definition remove_active_copy :: "string option \<Rightarrow> dashboard \<Rightarrow> dashboard" where
  "remove_active_copy path d =
     (case path of
        None \<Rightarrow> d
      | Some p \<Rightarrow> d\<lparr>da_in_flight_count := da_in_flight_count d - 1, da_active_copies := AList.delete p (da_active_copies d)\<rparr>)"

fun apply_event :: "int \<Rightarrow> telemetry_event \<Rightarrow> dashboard \<Rightarrow> dashboard" where
  "apply_event now FuseOpen d = d\<lparr>da_fuse_opens := add64 (da_fuse_opens d) 1, da_open_handles := add64 (da_open_handles d) 1\<rparr>"
| "apply_event now CacheHit d = d\<lparr>da_cache_hits := add64 (da_cache_hits d) 1\<rparr>"
| "apply_event now CacheMiss d = d\<lparr>da_cache_misses := add64 (da_cache_misses d) 1\<rparr>"
| "apply_event now (HandleClosed b) d =
     d\<lparr>da_open_handles := da_open_handles d - 1,
       da_bytes_read := (case b of None \<Rightarrow> da_bytes_read d | Some n \<Rightarrow> add64 (da_bytes_read d) n)\<rparr>"
| "apply_event now CopyQueued d = d\<lparr>da_in_flight_count := add64 (da_in_flight_count d) 1\<rparr>"
| "apply_event now (CopyStarted path sz) d =
     (case path of
        None \<Rightarrow> d
      | Some p \<Rightarrow> d\<lparr>da_active_copies := AList.update p
          \<lparr>cp_size_bytes = (case sz of None \<Rightarrow> 0 | Some n \<Rightarrow> n), cp_bytes_copied = 0, cp_started_at = now\<rparr> (da_active_copies d)\<rparr>)"
| "apply_event now (CopyProgress path copied sz) d =
     (case (path, copied) of
        (Some p, Some n) \<Rightarrow>
          (case map_of (da_active_copies d) p of
             None \<Rightarrow> d
           | Some c \<Rightarrow> d\<lparr>da_active_copies := AList.update p
               (c\<lparr>cp_bytes_copied := n, cp_size_bytes := (case sz of None \<Rightarrow> cp_size_bytes c | Some z \<Rightarrow> z)\<rparr>) (da_active_copies d)\<rparr>)
      | _ \<Rightarrow> d)"
| "apply_event now (CopyComplete path) d = remove_active_copy path (d\<lparr>da_completed_copies := add64 (da_completed_copies d) 1\<rparr>)"
| "apply_event now (CopyFailed path) d = remove_active_copy path (d\<lparr>da_failed_copies := add64 (da_failed_copies d) 1\<rparr>)"
| "apply_event now (DeferredChanged c) d = (case c of None \<Rightarrow> d | Some n \<Rightarrow> d\<lparr>da_deferred_count := n\<rparr>)"
| "apply_event now (BudgetUpdated used mx) d =
     d\<lparr>da_budget_used_bytes := (case used of None \<Rightarrow> da_budget_used_bytes d | Some u \<Rightarrow> u),
       da_budget_max_bytes := (case mx of None \<Rightarrow> da_budget_max_bytes d | Some m \<Rightarrow> m)\<rparr>"
| "apply_event now (CachingWindow allowed) d = d\<lparr>da_caching_allowed := (case allowed of None \<Rightarrow> False | Some b \<Rightarrow> b)\<rparr>"
| "apply_event now (Eviction path reason) d =
     (if reason = Some ''expired'' then d\<lparr>da_evictions_expired := add64 (da_evictions_expired d) 1\<rparr>
      else if reason = Some ''size_limit'' then d\<lparr>da_evictions_size := add64 (da_evictions_size d) 1\<rparr>
      else d)"
| "apply_event now (DiscoveryStatus b t) d = d"
| "apply_event now (BackingChanged m p k action) d =
     d\<lparr>da_backing_events_handled := add64 (da_backing_events_handled d) 1,
       da_backing_evictions_triggered :=
         (if action = Some ''cache_evicted'' \<or> action = Some ''both'' then add64 (da_backing_evictions_triggered d) 1
          else da_backing_evictions_triggered d)\<rparr>"

text \<open>run_client_stream: the frames as they arrive, with the time of each; a frame that does not decode
  ends the stream with an error.\<close>

fun run_client_stream :: "(int \<times> (string + daemon_message)) list \<Rightarrow> dashboard \<Rightarrow> (string + unit) \<times> dashboard" where
  "run_client_stream [] d = (Inr (), d)"
| "run_client_stream ((now, Inl e) # fs) d = (Inl e, d)"
| "run_client_stream ((now, Inr m) # fs) d =
     (case m of
        Event e \<Rightarrow> run_client_stream fs (apply_event now e d)
      | Log l \<Rightarrow> run_client_stream fs (push_log l d)
      | Goodbye \<Rightarrow> (Inr (), d)
      | Hello h \<Rightarrow> run_client_stream fs d)"

section \<open>Bounded buffers\<close>

definition last_n :: "nat \<Rightarrow> 'a list \<Rightarrow> 'a list" where
  "last_n n xs = drop (length xs - n) xs"

lemma push_bounded_last_n: "0 < n \<Longrightarrow> push_bounded n (last_n n xs) x = last_n n (xs @ [x])"
proof (cases "length xs < n")
  case True
  then show ?thesis by (simp add: push_bounded_def last_n_def)
next
  case False
  assume "0 < n"
  with False have "Suc (length xs - n) = Suc (length xs) - n" by simp
  with False \<open>0 < n\<close> show ?thesis
    by (simp add: push_bounded_def last_n_def tl_drop drop_Suc [symmetric])
qed

lemma last_n_Nil [simp]: "last_n n [] = []"
  by (simp add: last_n_def)

text \<open>The log lines a receiver gets before its channel closes.\<close>

fun logs_received :: "daemon_message received list \<Rightarrow> log_line list" where
  "logs_received [] = []"
| "logs_received (Rx m # rs) = (case m of Log l \<Rightarrow> l # logs_received rs | _ \<Rightarrow> logs_received rs)"
| "logs_received (RxLagged n # rs) = logs_received rs"
| "logs_received (RxClosed # rs) = []"

text \<open>The ring of recent log lines refines the full log: after whatever was received, telemetry and lags
  in between, it holds the last hundred log lines in order, so a client that connects is shown these.\<close>

theorem recent_logs_refine:
  "recent_logs_loop rs [] = last_n RECENT_LOG_CAP (logs_received rs)"
proof -
  have "recent_logs_loop rs (last_n RECENT_LOG_CAP ls) = last_n RECENT_LOG_CAP (ls @ logs_received rs)" for ls
  proof (induction rs arbitrary: ls rule: logs_received.induct)
    case (2 m rs)
    have "0 < RECENT_LOG_CAP" by (simp add: RECENT_LOG_CAP_def)
    note push = push_bounded_last_n [OF this]
    show ?case
    proof (cases m)
      case (Log l)
      have "recent_logs_loop rs (last_n RECENT_LOG_CAP (ls @ [l])) = last_n RECENT_LOG_CAP ((ls @ [l]) @ logs_received rs)"
        by (rule 2) (rule Log)
      with Log show ?thesis by (simp add: push)
    qed (use 2 in auto)
  qed auto
  from this [of "[]"] show ?thesis by simp
qed

section \<open>What the dashboard shows\<close>

text \<open>The dashboard as functions of the events so far.\<close>

definition occurrences :: "(telemetry_event \<Rightarrow> bool) \<Rightarrow> (int \<times> telemetry_event) list \<Rightarrow> nat" where
  "occurrences P evs = length (filter (\<lambda>e. P (snd e)) evs)"

fun is_complete :: "telemetry_event \<Rightarrow> bool" where
  "is_complete (CopyComplete p) = True"
| "is_complete _ = False"

fun is_failed :: "telemetry_event \<Rightarrow> bool" where
  "is_failed (CopyFailed p) = True"
| "is_failed _ = False"

fun copy_runs :: "string \<Rightarrow> bool \<Rightarrow> int \<times> telemetry_event \<Rightarrow> bool" where
  "copy_runs p b (t, CopyStarted q n) = (if q = Some p then True else b)"
| "copy_runs p b (t, CopyComplete q) = (if q = Some p then False else b)"
| "copy_runs p b (t, CopyFailed q) = (if q = Some p then False else b)"
| "copy_runs p b (t, e) = b"

fun handles_after :: "nat \<Rightarrow> int \<times> telemetry_event \<Rightarrow> nat" where
  "handles_after n (t, FuseOpen) = Suc n"
| "handles_after n (t, HandleClosed b) = n - 1"
| "handles_after n (t, e) = n"

definition apply_all :: "(int \<times> telemetry_event) list \<Rightarrow> dashboard \<Rightarrow> dashboard" where
  "apply_all evs d = foldl (\<lambda>d e. apply_event (fst e) (snd e) d) d evs"

lemma apply_all_snoc: "apply_all (evs @ [e]) d = apply_event (fst e) (snd e) (apply_all evs d)"
  by (simp add: apply_all_def)

lemma run_client_events:
  "run_client_stream (map (\<lambda>e. (fst e, Inr (Event (snd e)))) evs) d = (Inr (), apply_all evs d)"
  by (induction evs arbitrary: d) (auto simp: apply_all_def)

lemma occurrences_snoc: "occurrences P (evs @ [e]) = occurrences P evs + (if P (snd e) then 1 else 0)"
  by (simp add: occurrences_def)

lemma occurrences_le: "occurrences P evs \<le> length evs"
  by (simp add: occurrences_def)

lemma remove_active_copy_fields [simp]:
  "da_fuse_opens (remove_active_copy p d) = da_fuse_opens d" "da_cache_hits (remove_active_copy p d) = da_cache_hits d"
  "da_cache_misses (remove_active_copy p d) = da_cache_misses d" "da_open_handles (remove_active_copy p d) = da_open_handles d"
  "da_completed_copies (remove_active_copy p d) = da_completed_copies d" "da_failed_copies (remove_active_copy p d) = da_failed_copies d"
  by (simp_all add: remove_active_copy_def split: option.splits)

lemma counter_step:
  assumes "\<And>t e d. f (apply_event t e d) = (if P e then add64 (f d) 1 else f d)"
    and "f d = 0" and "length evs < 2 ^ 64"
  shows "f (apply_all evs d) = occurrences P evs"
  using assms(3)
proof (induction evs rule: rev_induct)
  case Nil
  then show ?case by (simp add: apply_all_def occurrences_def assms(2))
next
  case (snoc e evs)
  then have "occurrences P evs + 1 < 2 ^ 64" using occurrences_le [of P evs] by simp
  with snoc show ?case by (simp add: apply_all_snoc assms(1) occurrences_snoc add64_small)
qed

lemma active_step:
  "map_of (da_active_copies (apply_event t e d)) p \<noteq> None \<longleftrightarrow> copy_runs p (map_of (da_active_copies d) p \<noteq> None) (t, e)"
  by (cases e) (auto simp: remove_active_copy_def alist_map_of split: option.splits)

lemma handles_step:
  "Suc (da_open_handles d) < 2 ^ 64 \<Longrightarrow> da_open_handles (apply_event t e d) = handles_after (da_open_handles d) (t, e)"
  by (cases e) (auto simp: add64_def split: option.splits)

lemma handles_le: "foldl handles_after n evs \<le> n + length evs"
proof (induction evs arbitrary: n)
  case (Cons e evs)
  have "handles_after n e \<le> Suc n" by (cases "(n, e)" rule: handles_after.cases) auto
  with Cons [of "handles_after n e"] show ?case by simp
qed simp

lemma open_handles_after:
  "length evs < 2 ^ 64 \<Longrightarrow> da_open_handles (apply_all evs (dashboard_new c)) = foldl handles_after 0 evs"
proof (induction evs rule: rev_induct)
  case Nil
  show ?case by (simp add: apply_all_def dashboard_new_def)
next
  case (snoc e evs)
  then have "Suc (foldl handles_after 0 evs) < 2 ^ 64" using handles_le [of 0 evs] by simp
  with snoc show ?case by (simp add: apply_all_snoc handles_step)
qed



end
