(* ===== verification/Telemetry.thy ===== *)
theory Telemetry
  imports FuseSpec Protocol
begin

text \<open>
  What the daemon reports of itself (src/src/telemetry.rs and every place that emits one of its events):
  each emission is the level and the fields that the tracing macro is given, which the broadcast layer of
  \<open>Protocol\<close> turns into the events of the dashboard. The text of the log line, which follows the
  fields, is left out. The second half runs the filesystem and the dashboard together.
\<close>

section \<open>Names\<close>

definition EVENT_FUSE_OPEN :: string where "EVENT_FUSE_OPEN = ''fuse_open''"
definition EVENT_CACHE_HIT :: string where "EVENT_CACHE_HIT = ''cache_hit''"
definition EVENT_CACHE_MISS :: string where "EVENT_CACHE_MISS = ''cache_miss''"
definition EVENT_HANDLE_CLOSED :: string where "EVENT_HANDLE_CLOSED = ''handle_closed''"
definition EVENT_COPY_QUEUED :: string where "EVENT_COPY_QUEUED = ''copy_queued''"
definition EVENT_COPY_STARTED :: string where "EVENT_COPY_STARTED = ''copy_started''"
definition EVENT_COPY_COMPLETE :: string where "EVENT_COPY_COMPLETE = ''copy_complete''"
definition EVENT_COPY_FAILED :: string where "EVENT_COPY_FAILED = ''copy_failed''"
definition EVENT_COPY_PROGRESS :: string where "EVENT_COPY_PROGRESS = ''copy_progress''"
definition EVENT_DEFERRED_CHANGED :: string where "EVENT_DEFERRED_CHANGED = ''deferred_changed''"
definition EVENT_BUDGET_UPDATED :: string where "EVENT_BUDGET_UPDATED = ''budget_updated''"
definition EVENT_CACHING_WINDOW :: string where "EVENT_CACHING_WINDOW = ''caching_window''"
definition EVENT_EVICTION :: string where "EVENT_EVICTION = ''eviction''"
definition EVICTION_REASON_STALE_PERIODIC :: string where "EVICTION_REASON_STALE_PERIODIC = ''stale_periodic''"
definition EVENT_DB_INSERT :: string where "EVENT_DB_INSERT = ''db_insert''"
definition EVENT_DB_REMOVE :: string where "EVENT_DB_REMOVE = ''db_remove''"
definition EVENT_DB_HIT :: string where "EVENT_DB_HIT = ''db_hit''"
definition EVENT_BACKING_CHANGED :: string where "EVENT_BACKING_CHANGED = ''backing_changed''"

lemmas event_names = EVENT_FUSE_OPEN_def EVENT_CACHE_HIT_def EVENT_CACHE_MISS_def EVENT_HANDLE_CLOSED_def
  EVENT_COPY_QUEUED_def EVENT_COPY_STARTED_def EVENT_COPY_COMPLETE_def EVENT_COPY_FAILED_def EVENT_COPY_PROGRESS_def
  EVENT_DEFERRED_CHANGED_def EVENT_BUDGET_UPDATED_def EVENT_CACHING_WINDOW_def EVENT_EVICTION_def
  EVICTION_REASON_STALE_PERIODIC_def EVENT_DB_INSERT_def EVENT_DB_REMOVE_def EVENT_DB_HIT_def EVENT_BACKING_CHANGED_def

section \<open>Emissions\<close>

record emission =
  em_level :: log_level
  em_values :: "(string \<times> field_value) list"

definition emit :: "log_level \<Rightarrow> string \<Rightarrow> (string \<times> field_value) list \<Rightarrow> emission" where
  "emit level name vs = \<lparr>em_level = level, em_values = (''event'', VStr name) # vs\<rparr>"

text \<open>\<open>path = %p.display()\<close>: a value that is recorded through its Display text.\<close>

definition path_field :: "path \<Rightarrow> string \<times> field_value" where
  "path_field p = (''path'', VDebug (join_with ''/'' p))"

text \<open>The filesystem: an open is announced before it is tried.\<close>

definition fuse_open_emission :: "path \<Rightarrow> emission" where
  "fuse_open_emission p = emit LDebug EVENT_FUSE_OPEN [path_field p]"

definition log_open_outcome :: "path \<Rightarrow> open_outcome \<Rightarrow> bool \<Rightarrow> emission" where
  "log_open_outcome p outcome suppress =
     (case outcome of
        HitOutcome \<Rightarrow> emit LInfo EVENT_CACHE_HIT [path_field p]
      | FilteredOutcome \<Rightarrow> \<lparr>em_level = LInfo, em_values = []\<rparr>
      | MissOutcome \<Rightarrow> emit (if suppress then LDebug else LInfo) EVENT_CACHE_MISS [path_field p])"

definition handle_closed_emission :: "nat \<Rightarrow> emission" where
  "handle_closed_emission bytes_read = emit LDebug EVENT_HANDLE_CLOSED [(''bytes_read'', VU64 bytes_read)]"

text \<open>The pipeline.\<close>

definition restored_emissions :: "nat \<Rightarrow> emission list" where
  "restored_emissions n = (if n > 0 then [emit LDebug EVENT_DEFERRED_CHANGED [(''count'', VU64 n)]] else [])"

definition queued_emissions :: "path \<Rightarrow> nat \<Rightarrow> emission list" where
  "queued_emissions p queue_len =
     [emit LInfo EVENT_COPY_QUEUED [path_field p], emit LDebug EVENT_DEFERRED_CHANGED [(''count'', VU64 queue_len)]]"

definition expired_emission :: "nat \<Rightarrow> emission" where
  "expired_emission n = emit LDebug EVENT_DEFERRED_CHANGED [(''count'', VU64 n)]"

definition window_emission :: "bool \<Rightarrow> emission" where
  "window_emission allowed = emit LDebug EVENT_CACHING_WINDOW [(''allowed'', VBool allowed)]"

definition started_emission :: "path \<Rightarrow> nat \<Rightarrow> emission" where
  "started_emission p sz = emit LInfo EVENT_COPY_STARTED [path_field p, (''size_bytes'', VU64 sz)]"

definition progress_emission :: "path \<Rightarrow> nat \<Rightarrow> nat \<Rightarrow> emission" where
  "progress_emission p copied sz =
     emit LDebug EVENT_COPY_PROGRESS [path_field p, (''bytes_copied'', VU64 copied), (''size_bytes'', VU64 sz)]"

definition complete_emission :: "path \<Rightarrow> emission" where
  "complete_emission p = emit LInfo EVENT_COPY_COMPLETE [path_field p]"

definition failed_emission :: "path \<Rightarrow> emission" where
  "failed_emission p = emit LWarn EVENT_COPY_FAILED [path_field p]"

text \<open>Evictions: by age, by size, as stale, by hand. They name the absolute path of the file.\<close>

definition abs_path_field :: "path \<Rightarrow> string \<times> field_value" where
  "abs_path_field p = (''path'', VDebug (CHR ''/'' # join_with ''/'' p))"

definition eviction_emission :: "path \<Rightarrow> string \<Rightarrow> emission" where
  "eviction_emission p reason = emit LInfo EVENT_EVICTION [abs_path_field p, (''reason'', VStr reason)]"

definition budget_emission :: "nat \<Rightarrow> nat \<Rightarrow> emission" where
  "budget_emission used limit = emit LInfo EVENT_BUDGET_UPDATED [(''used_bytes'', VU64 used), (''max_bytes'', VU64 limit)]"

definition backing_emission :: "string \<Rightarrow> path \<Rightarrow> string \<Rightarrow> bool \<Rightarrow> emission" where
  "backing_emission mount_id p kind queued =
     emit LInfo EVENT_BACKING_CHANGED [(''mount_id'', VDebug mount_id), path_field p, (''kind'', VDebug kind),
       (''action'', VDebug (if queued then ''kernel_notified_validation_queued'' else ''kernel_notified''))]"

text \<open>The database.\<close>

definition db_insert_emission :: "path \<Rightarrow> nat \<Rightarrow> emission" where
  "db_insert_emission p sz = emit LInfo EVENT_DB_INSERT [path_field p, (''size_bytes'', VU64 sz)]"

definition db_hit_emission :: "path \<Rightarrow> emission" where
  "db_hit_emission p = emit LInfo EVENT_DB_HIT [path_field p]"

definition db_remove_emission :: "path \<Rightarrow> emission" where
  "db_remove_emission p = emit LInfo EVENT_DB_REMOVE [path_field p]"

section \<open>What arrives\<close>

definition reported :: "emission \<Rightarrow> telemetry_event option" where
  "reported em = telemetry_of (foldl record_field visitor_new (em_values em))"

definition reports :: "emission list \<Rightarrow> telemetry_event list" where
  "reports ems = List.map_filter reported ems"

lemma on_event_reported:
  "on_event limit now (em_level em) (em_values em) = (case reported em of None \<Rightarrow> [] | Some e \<Rightarrow> [Event e]) @
     (if level_rank (em_level em) \<le> level_rank limit
      then [Log \<lparr>ll_timestamp = now, ll_level = level_str (em_level em),
              ll_message = log_message (foldl record_field visitor_new (em_values em))\<rparr>] else [])"
  by (simp add: on_event_def reported_def Let_def)

lemmas field_defs = reported_def emit_def path_field_def abs_path_field_def record_str_def record_u64_def record_bool_def record_debug_def
  telemetry_of_def visitor_new_def event_names

lemma reported_open [simp]:
  "reported (fuse_open_emission p) = Some FuseOpen"
  "reported (log_open_outcome p HitOutcome b) = Some CacheHit"
  "reported (log_open_outcome p MissOutcome b) = Some CacheMiss"
  "reported (log_open_outcome p FilteredOutcome b) = None"
  "reported (handle_closed_emission n) = Some (HandleClosed (Some n))"
  by (simp_all add: fuse_open_emission_def log_open_outcome_def handle_closed_emission_def field_defs)


section \<open>The filesystem and the dashboard together\<close>

text \<open>What a request reports, in the state it finds.\<close>

definition read_open_emissions ::
  "fs_config \<Rightarrow> 'k machine \<Rightarrow> proc_fs \<Rightarrow> nat \<Rightarrow> int \<Rightarrow> fuse_request \<Rightarrow> path \<Rightarrow> 'k fs_state \<Rightarrow> emission list" where
  "read_open_emissions fc sys pf now instant req path s =
     (case run_state (should_suppress_log fc instant path) s of
        (suppress, s1) \<Rightarrow>
          fuse_open_emission path #
          (case fst (run_state (try_open fc sys now path (opener_filtered fc (opener fc pf req))) s1) of
             Inl _ \<Rightarrow> []
           | Inr (_, outcome) \<Rightarrow> [log_open_outcome path outcome suppress]))"

definition release_emissions :: "fd \<Rightarrow> 'k fs_state \<Rightarrow> emission list" where
  "release_emissions fh s =
     (if map_of (fs_write_paths s) fh \<noteq> None then []
      else [handle_closed_emission (case map_of (fs_open_bytes s) fh of None \<Rightarrow> 0 | Some n \<Rightarrow> n)])"

definition read_path :: "fuse_op \<Rightarrow> 'k fs_state \<Rightarrow> path option" where
  "read_path op s =
     (case op of OpOpen ino flags \<Rightarrow> if is_write_intent flags then None else get_path (fs_inodes s) ino | _ \<Rightarrow> None)"

definition op_emissions :: "fs_config \<Rightarrow> 'k machine \<Rightarrow> fuse_env \<Rightarrow> fuse_op \<Rightarrow> 'k fs_state \<Rightarrow> emission list" where
  "op_emissions fc sys e op s =
     (case read_path op s of
        Some path \<Rightarrow> read_open_emissions fc sys (fe_procs e) (fe_now e) (fe_instant e) (fe_req e) path s
      | None \<Rightarrow> (case op of OpRelease fh \<Rightarrow> release_emissions fh s | _ \<Rightarrow> []))"

text \<open>An open for reading that fails, and the bytes a request gives to a reader.\<close>

definition open_failed :: "fuse_op \<Rightarrow> 'k fs_state \<Rightarrow> reply \<Rightarrow> bool" where
  "open_failed op s r = (read_path op s \<noteq> None \<and> (\<forall>fh. r \<noteq> ROpened fh))"

definition bytes_given :: "fuse_op \<Rightarrow> 'k fs_state \<Rightarrow> reply \<Rightarrow> nat" where
  "bytes_given op s r =
     (case (op, r) of
        (OpRead fh _ _, RData buf) \<Rightarrow> if map_of (fs_open_bytes s) fh = None then 0 else length buf
      | _ \<Rightarrow> 0)"

text \<open>
  A run of the filesystem with the events reported so far, the number of opens for reading that have failed,
  and the number of bytes given to readers. The kernel releases only handles that are open.
\<close>

inductive watched :: "fs_config \<Rightarrow> 'k machine \<Rightarrow> 'k fs_state \<Rightarrow> telemetry_event list \<Rightarrow> nat \<Rightarrow> nat \<Rightarrow> bool" for fc sys where
  mount: "watched fc sys (fs_new k d db) [] 0 0"
| serve: "watched fc sys s evs failed given \<Longrightarrow> run_state (handle fc sys e op) s = (r, t) \<Longrightarrow>
    (\<And>fh. gets_handle sys op s r fh \<Longrightarrow> handle_free fh s) \<Longrightarrow> (\<And>fh. op = OpRelease fh \<Longrightarrow> \<not> handle_free fh s) \<Longrightarrow>
    watched fc sys t (evs @ reports (op_emissions fc sys e op s)) (failed + (if open_failed op s r then 1 else 0))
      (given + bytes_given op s r)"
| other: "watched fc sys s evs failed given \<Longrightarrow> watched fc sys (s\<lparr>fs_disk := d, fs_db := db\<rparr>) evs failed given"

lemma reports_simps [simp]:
  "reports [] = []" "reports (em # ems) = (case reported em of None \<Rightarrow> reports ems | Some e \<Rightarrow> e # reports ems)"
  by (simp_all add: reports_def List.map_filter_simps split: option.split)

lemma read_open_reports:
  "\<exists>rest. reports (read_open_emissions fc sys pf now instant req path s) = FuseOpen # rest \<and> set rest \<subseteq> {CacheHit, CacheMiss}"
proof -
  have "set (reports [log_open_outcome path outcome b]) \<subseteq> {CacheHit, CacheMiss}" for outcome b
    by (cases outcome) simp_all
  then show ?thesis by (auto simp: read_open_emissions_def split: prod.splits sum.splits)
qed

text \<open>The dashboard's open handles and bytes, as functions of the events.\<close>

definition handles_shown :: "telemetry_event list \<Rightarrow> nat" where
  "handles_shown evs = foldl handles_after 0 (map (Pair 0) evs)"

fun bytes_after :: "nat \<Rightarrow> telemetry_event \<Rightarrow> nat" where
  "bytes_after n (HandleClosed (Some b)) = n + b"
| "bytes_after n _ = n"

definition bytes_shown :: "telemetry_event list \<Rightarrow> nat" where
  "bytes_shown evs = foldl bytes_after 0 evs"

lemma handles_shown_opens:
  "set rest \<subseteq> {CacheHit, CacheMiss} \<Longrightarrow> foldl handles_after n (map (Pair 0) rest) = n \<and> foldl bytes_after n rest = n"
  by (induction rest) auto

lemma shown_append:
  "set rest \<subseteq> {CacheHit, CacheMiss} \<Longrightarrow> handles_shown (evs @ FuseOpen # rest) = Suc (handles_shown evs)"
  "set rest \<subseteq> {CacheHit, CacheMiss} \<Longrightarrow> bytes_shown (evs @ FuseOpen # rest) = bytes_shown evs"
  "handles_shown (evs @ [HandleClosed (Some b)]) = handles_shown evs - 1"
  "bytes_shown (evs @ [HandleClosed (Some b)]) = bytes_shown evs + b"
  using handles_shown_opens [of rest] by (simp_all add: handles_shown_def bytes_shown_def)

lemma bytes_step: "da_bytes_read (apply_event t e d) mod 2 ^ 64 = bytes_after (da_bytes_read d) e mod 2 ^ 64"
  by (cases "(da_bytes_read d, e)" rule: bytes_after.cases)
    (simp_all add: add64_def remove_active_copy_def split: option.splits)

lemma bytes_after_other: "(\<And>b. e \<noteq> HandleClosed (Some b)) \<Longrightarrow> bytes_after n e = n"
  by (cases "(n, e)" rule: bytes_after.cases) auto

lemma bytes_after_mod: "m mod 2 ^ 64 = n mod 2 ^ 64 \<Longrightarrow> bytes_after m e mod 2 ^ 64 = bytes_after n e mod (2 ^ 64 :: nat)"
proof (cases "\<exists>b. e = HandleClosed (Some b)")
  case True
  assume "m mod 2 ^ 64 = n mod 2 ^ 64"
  with True show ?thesis by (auto intro: mod_add_cong)
next
  case False
  assume "m mod 2 ^ 64 = n mod 2 ^ 64"
  with False show ?thesis by (simp add: bytes_after_other)
qed

lemma bytes_read_shown: "da_bytes_read (apply_all (map (Pair 0) evs) (dashboard_new c)) mod 2 ^ 64 = bytes_shown evs mod 2 ^ 64"
proof (induction evs rule: rev_induct)
  case Nil
  show ?case by (simp add: apply_all_def dashboard_new_def bytes_shown_def)
next
  case (snoc e evs)
  let ?d = "apply_all (map (Pair 0) evs) (dashboard_new c)"
  have "da_bytes_read (apply_event 0 e ?d) mod 2 ^ 64 = bytes_after (bytes_shown evs) e mod 2 ^ 64"
    unfolding bytes_step by (rule bytes_after_mod [OF snoc.IH])
  moreover have "apply_all (map (Pair 0) (evs @ [e])) (dashboard_new c) = apply_event 0 e ?d"
    by (simp only: map_append list.map apply_all_snoc fst_conv snd_conv)
  moreover have "bytes_shown (evs @ [e]) = bytes_after (bytes_shown evs) e" by (simp add: bytes_shown_def)
  ultimately show ?case by simp
qed

text \<open>The sum of the counters of the open handles.\<close>

definition unreported :: "(nat \<times> nat) list \<Rightarrow> nat" where
  "unreported ob = sum_list (map snd ob)"

lemma unreported_new: "map_of ob fh = None \<Longrightarrow> unreported (AList.update fh n ob) = unreported ob + n"
  by (induction ob) (auto simp: unreported_def)

lemma unreported_update:
  "distinct (map fst ob) \<Longrightarrow> map_of ob fh = Some n \<Longrightarrow> unreported (AList.update fh m ob) + n = unreported ob + m"
  by (induction ob) (auto simp: unreported_def)

lemma unreported_delete: "distinct (map fst ob) \<Longrightarrow> map_of ob fh = Some n \<Longrightarrow> unreported (AList.delete fh ob) + n = unreported ob"
proof (induction ob)
  case (Cons a ob)
  show ?case
  proof (cases "fst a = fh")
    case True
    with Cons.prems have "AList.delete fh ob = ob" by (simp add: delete_idem)
    with True Cons.prems show ?thesis by (cases a) (simp add: unreported_def)
  next
    case False
    with Cons show ?thesis by (cases a) (simp add: unreported_def)
  qed
qed simp

lemma length_new: "map_of ob fh = None \<Longrightarrow> length (AList.update fh n ob) = Suc (length ob)"
  by (induction ob) auto

lemma length_known: "map_of ob fh = Some m \<Longrightarrow> length (AList.update fh n ob) = length ob"
  by (induction ob) auto

lemma fewer_handles: "distinct (map fst ob) \<Longrightarrow> map_of ob fh = Some n \<Longrightarrow> Suc (length (AList.delete fh ob)) = length ob"
proof (induction ob)
  case (Cons a ob)
  show ?case
  proof (cases "fst a = fh")
    case True
    with Cons.prems have "AList.delete fh ob = ob" by (simp add: delete_idem)
    with True show ?thesis by (cases a) simp
  next
    case False
    with Cons show ?thesis by (cases a) simp
  qed
qed simp

text \<open>What each request does to the counters of the read handles.\<close>

lemma same_bytes: "(\<And>x. keeps (same_handles x) m) \<Longrightarrow> run_state m s = (a, t) \<Longrightarrow> fs_open_bytes t = fs_open_bytes s"
  using same_after [of s m a t] by (auto simp: handle_tables_def)

lemma write_open_bytes: "run_state (open_write_handle sys path flags mode) s = (a, t) \<Longrightarrow> fs_open_bytes t = fs_open_bytes s"
  using open_write_shape [of sys path flags mode s a t] by (auto simp: handle_tables_def opened_write_def)

lemma keeps_bytes:
  fixes m :: "('k fs_state, 'a) state"
  shows "(\<And>x. keeps (same_handles x) m) \<Longrightarrow> keeps (\<lambda>s. fs_open_bytes s = ob) m"
  unfolding keeps_def
proof (intro allI impI)
  fix s :: "'k fs_state" assume "\<And>x. \<forall>s. same_handles x s \<longrightarrow> same_handles x (snd (run_state m s))" and ob: "fs_open_bytes s = ob"
  from same_bytes [unfolded keeps_def, OF this(1), of s "fst (run_state m s)" "snd (run_state m s)"] ob
  show "fs_open_bytes (snd (run_state m s)) = ob" by simp
qed

lemma create_bytes:
  fixes s :: "'k fs_state"
  assumes "run_state (do_create sys req d name mode umask flags) s = (r, t)"
  shows "fs_open_bytes t = fs_open_bytes s"
proof -
  have w: "keeps (\<lambda>s. fs_open_bytes s = ob) (open_write_handle sys path fl m)" for ob path fl m
    unfolding keeps_def
  proof (intro allI impI)
    fix s :: "'k fs_state" assume "fs_open_bytes s = ob"
    then show "fs_open_bytes (snd (run_state (open_write_handle sys path fl m) s)) = ob"
      using write_open_bytes [of sys path fl m s "fst (run_state (open_write_handle sys path fl m) s)"] by simp
  qed
  have u: "keeps (\<lambda>s. fs_open_bytes s = ob) (undo_create sys fh path e)" for ob fh path e
    by (simp add: keeps_def undo_create_def run_kernel)
  have "keeps (\<lambda>s. fs_open_bytes s = ob) (do_create sys req d name mode umask flags)" for ob
    unfolding do_create_def by (intro keep_intros w u; intro keeps_bytes same_parts)
  with assms show ?thesis unfolding keeps_def by (metis snd_conv)
qed

lemma open_step:
  assumes "read_path op s = Some path" and "run_state (handle fc sys e op) s = (r, t)"
  shows "(open_failed op s r \<and> fs_open_bytes t = fs_open_bytes s) \<or>
    (\<exists>fh. r = ROpened fh \<and> gets_handle sys op s r fh \<and> \<not> open_failed op s r \<and> fs_open_bytes t = AList.update fh 0 (fs_open_bytes s))"
proof -
  obtain ino flags where op: "op = OpOpen ino flags" "\<not> is_write_intent flags" "get_path (fs_inodes s) ino = Some path"
    using assms(1) by (cases op) (auto simp: read_path_def split: if_splits)
  then have "run_state (read_open fc sys (fe_procs e) (fe_now e) (fe_instant e) (fe_req e) path) s = (r, t)"
    using assms(2) by (simp add: handle_def fuse_open_def path_for_ino_def)
  from read_open_shape [OF this] assms(1) op(1) show ?thesis
    by (auto simp: open_failed_def handle_tables_def opened_read_def gets_handle_def)
qed

lemma release_step:
  assumes "run_state (handle fc sys e (OpRelease fh)) s = (r, t)"
  shows "fs_open_bytes t = (if map_of (fs_write_paths s) fh = None then AList.delete fh (fs_open_bytes s) else fs_open_bytes s)"
  using assms by (auto simp: handle_def fuse_release_def run_kernel release_read_def Let_def)

lemma read_step:
  assumes "run_state (handle fc sys e (OpRead fh offset sz)) s = (r, t)"
  shows "(bytes_given (OpRead fh offset sz) s r = 0 \<and> fs_open_bytes t = fs_open_bytes s) \<or>
    (\<exists>n. map_of (fs_open_bytes s) fh = Some n \<and>
       fs_open_bytes t = AList.update fh (add64 n (bytes_given (OpRead fh offset sz) s r)) (fs_open_bytes s))"
  using assms
  by (auto simp: handle_def do_read_def run_kernel bytes_given_def split: sum.splits option.splits)

lemma other_step:
  assumes "run_state (handle fc sys e op) s = (r, t)" and "read_path op s = None"
    and "\<And>fh. op \<noteq> OpRelease fh" and "\<And>fh offset sz. op \<noteq> OpRead fh offset sz"
  shows "fs_open_bytes t = fs_open_bytes s"
proof (cases "opens_or_closes op")
  case False
  then show ?thesis using same_bytes [OF same_handle assms(1)] by blast
next
  case True
  then consider ino flags where "op = OpOpen ino flags" | d n m u fl where "op = OpCreate d n m u fl"
    using assms(3,4) by (cases op) (auto simp: opens_or_closes_def)
  then show ?thesis
  proof cases
    case 1
    then show ?thesis
    proof (cases "is_write_intent flags")
      case True
      with 1 assms(1) show ?thesis
        by (auto simp: handle_def fuse_open_def path_for_ino_def split: option.splits prod.splits sum.splits dest: write_open_bytes)
    next
      case False
      with 1 assms(1,2) show ?thesis
        by (auto simp: handle_def fuse_open_def path_for_ino_def read_path_def split: option.splits)
    qed
  next
    case 2
    with assms(1) show ?thesis by (auto simp: handle_def intro: create_bytes)
  qed
qed

definition books_balance :: "'k fs_state \<Rightarrow> telemetry_event list \<Rightarrow> nat \<Rightarrow> nat \<Rightarrow> bool" where
  "books_balance s evs failed given =
     (handles_shown evs = length (fs_open_bytes s) + failed \<and>
      (bytes_shown evs + unreported (fs_open_bytes s)) mod 2 ^ 64 = given mod 2 ^ 64)"

lemma shift_mod: "(x + n) mod m = (y + g + n) mod m \<Longrightarrow> (b + x) mod m = (b + y + g) mod m" for b :: nat
proof -
  assume "(x + n) mod m = (y + g + n) mod m"
  then have "int (x + n) mod int m = int (y + g + n) mod int m" by (metis zmod_int)
  then have "int m dvd int (x + n) - int (y + g + n)" by (simp add: mod_eq_dvd_iff)
  then have "int m dvd int (b + x) - int (b + y + g)" by (simp add: algebra_simps)
  then have "int (b + x) mod int m = int (b + y + g) mod int m" by (simp only: mod_eq_dvd_iff)
  then show ?thesis by (metis of_nat_eq_iff of_nat_mod)
qed

lemma balance_served:
  assumes ok: "handles_ok fc (handle_tables s)" and run: "run_state (handle fc sys e op) s = (r, t)"
    and free: "\<And>fh. gets_handle sys op s r fh \<Longrightarrow> handle_free fh s" and rel: "\<And>fh. op = OpRelease fh \<Longrightarrow> \<not> handle_free fh s"
    and bal: "books_balance s evs failed given"
  shows "books_balance t (evs @ reports (op_emissions fc sys e op s)) (failed + (if open_failed op s r then 1 else 0))
    (given + bytes_given op s r)"
proof -
  have dist: "distinct (map fst (fs_open_bytes s))" using ok by (simp add: handles_ok_def handle_tables_def)
  consider (op) path where "read_path op s = Some path" | (rl) fh where "op = OpRelease fh"
    | (rd) fh offset sz where "op = OpRead fh offset sz"
    | (no) "read_path op s = None" "\<And>fh. op \<noteq> OpRelease fh" "\<And>fh offset sz. op \<noteq> OpRead fh offset sz"
    by fast
  then show ?thesis
  proof cases
    case op
    obtain rest where rest: "reports (op_emissions fc sys e op s) = FuseOpen # rest" "set rest \<subseteq> {CacheHit, CacheMiss}"
      using read_open_reports op by (fastforce simp: op_emissions_def)
    have "bytes_given op s r = 0" using op by (cases op) (simp_all add: read_path_def bytes_given_def)
    with open_step [OF op run] show ?thesis using bal free shown_append(1,2) [OF rest(2), of evs]
      by (auto simp: books_balance_def rest(1) handle_free_def length_new unreported_new)
  next
    case rl
    have quiet: "bytes_given op s r = 0" "\<not> open_failed op s r" "read_path op s = None"
      by (simp_all add: rl bytes_given_def open_failed_def read_path_def)
    show ?thesis
    proof (cases "map_of (fs_write_paths s) fh")
      case (Some path)
      then have "op_emissions fc sys e op s = []" "fs_open_bytes t = fs_open_bytes s"
        using release_step [of fc sys e fh s r t] run by (simp_all add: rl op_emissions_def release_emissions_def read_path_def)
      with bal quiet show ?thesis by (simp add: books_balance_def)
    next
      case None
      then obtain n where n: "map_of (fs_open_bytes s) fh = Some n" using rel [OF rl] by (auto simp: handle_free_def)
      have "reports (op_emissions fc sys e op s) = [HandleClosed (Some n)]"
        using None n by (simp add: rl op_emissions_def release_emissions_def read_path_def)
      moreover have "fs_open_bytes t = AList.delete fh (fs_open_bytes s)" using None release_step [of fc sys e fh s r t] run by (simp add: rl)
      moreover have "unreported (fs_open_bytes s) = n + unreported (AList.delete fh (fs_open_bytes s))"
        using unreported_delete [OF dist n] by simp
      ultimately show ?thesis using bal quiet fewer_handles [OF dist n, symmetric]
        by (simp add: books_balance_def shown_append add.assoc)
    qed
  next
    case rd
    have quiet: "\<not> open_failed op s r" "reports (op_emissions fc sys e op s) = []"
      by (simp_all add: rd open_failed_def read_path_def op_emissions_def)
    consider "bytes_given op s r = 0" "fs_open_bytes t = fs_open_bytes s"
      | n where "map_of (fs_open_bytes s) fh = Some n" "fs_open_bytes t = AList.update fh (add64 n (bytes_given op s r)) (fs_open_bytes s)"
      using read_step [OF run [unfolded rd]] rd by fast
    then show ?thesis
    proof cases
      case 1
      with bal quiet show ?thesis by (simp add: books_balance_def)
    next
      case 2
      let ?g = "bytes_given op s r"
      have "unreported (fs_open_bytes t) + n = unreported (fs_open_bytes s) + add64 n ?g"
        using unreported_update [OF dist 2(1)] 2(2) by simp
      then have "(unreported (fs_open_bytes t) + n) mod 2 ^ 64 = (unreported (fs_open_bytes s) + ?g + n) mod 2 ^ 64"
        by (simp add: add64_def mod_simps ac_simps)
      then have "(bytes_shown evs + unreported (fs_open_bytes t)) mod 2 ^ 64 = (bytes_shown evs + unreported (fs_open_bytes s) + ?g) mod 2 ^ 64"
        by (rule shift_mod)
      also have "\<dots> = (given + ?g) mod 2 ^ 64" using bal by (intro mod_add_cong) (simp_all add: books_balance_def)
      finally show ?thesis using bal quiet length_known [OF 2(1)] 2(2) by (simp add: books_balance_def)
    qed
  next
    case no
    then have "bytes_given op s r = 0" "\<not> open_failed op s r" "reports (op_emissions fc sys e op s) = []"
      by (cases op; simp add: bytes_given_def open_failed_def op_emissions_def)+
    with other_step [OF run no(1)] no(2,3) bal show ?thesis by (simp add: books_balance_def)
  qed
qed

lemma watched_balance:
  "watched fc sys s evs failed given \<Longrightarrow> handles_ok fc (handle_tables s) \<and> books_balance s evs failed given"
proof (induction rule: watched.induct)
  case (mount k d db)
  show ?case by (simp add: fs_new_def handle_tables_def handles_ok_def sent_opens_def sent_closes_def open_on_def
        books_balance_def handles_shown_def bytes_shown_def unreported_def)
next
  case (serve s evs failed given e op r t)
  then show ?case using handles_ok_served balance_served by blast
next
  case (other s evs failed given d db)
  then show ?case by (simp add: books_balance_def)
qed

text \<open>C29. The dashboard and the filesystem agree, over any run of requests: a client that watches from the start shows
  as open handles those that are open for reading plus every open for reading that has ever failed, which
  is announced before it is tried and never taken back; and the bytes it shows as read, with those counted
  on handles still open, are the bytes that were given to readers.\<close>

theorem dashboard_follows_filesystem:
  assumes "watched fc sys s evs failed given" and "length evs < 2 ^ 64"
  shows "\<exists>d. run_client_stream (map (\<lambda>e. (0, Inr (Event e))) evs) (dashboard_new c) = (Inr (), d) \<and>
    da_open_handles d = length (fs_open_bytes s) + failed \<and>
    (da_bytes_read d + sum_list (map snd (fs_open_bytes s))) mod 2 ^ 64 = given mod 2 ^ 64"
proof (intro exI conjI)
  let ?d = "apply_all (map (Pair 0) evs) (dashboard_new c)"
  have bal: "books_balance s evs failed given" using watched_balance [OF assms(1)] by simp
  show "run_client_stream (map (\<lambda>e. (0, Inr (Event e))) evs) (dashboard_new c) = (Inr (), ?d)"
    using run_client_events [of "map (Pair 0) evs"] by (simp add: comp_def)
  show "da_open_handles ?d = length (fs_open_bytes s) + failed"
    using open_handles_after [of "map (Pair 0) evs" c] assms(2) bal by (simp add: books_balance_def handles_shown_def)
  have "(da_bytes_read ?d + unreported (fs_open_bytes s)) mod 2 ^ 64 = (bytes_shown evs + unreported (fs_open_bytes s)) mod 2 ^ 64"
    by (rule mod_add_cong [OF bytes_read_shown refl])
  then show "(da_bytes_read ?d + sum_list (map snd (fs_open_bytes s))) mod 2 ^ 64 = given mod 2 ^ 64"
    using bal by (simp add: books_balance_def unreported_def)
qed

text \<open>One open that fails: no handle is open, and the dashboard shows one.\<close>

fun deny_sys :: "nat machine" where
  "deny_sys c k = (Failed 2, k)"

lemma denied_open: "run_state (handle sample_fc deny_sys sample_fe (OpOpen 1 0)) fs_mounted = (RError 2, fs_mounted)"
  by (simp add: handle_def fuse_open_def path_for_ino_def root_path is_write_intent_def O_ACCMODE_def
      O_WRONLY_def O_RDWR_def read_open_def should_suppress_log_def sample_fc_def opener_def opener_filtered_def
      try_open_def open_backing_def run_kernel sys_open_file_def open_file_with_flags_def got_fd_def fs_mounted_def
      fs_new_def Let_def)

lemma denied_watched: "watched sample_fc deny_sys fs_mounted [FuseOpen] 1 0"
proof -
  have path: "read_path (OpOpen 1 0) fs_mounted = Some []"
    by (simp add: read_path_def is_write_intent_def O_ACCMODE_def O_WRONLY_def O_RDWR_def root_path fs_mounted_def fs_new_def)
  have "op_emissions sample_fc deny_sys sample_fe (OpOpen 1 0) fs_mounted = read_open_emissions sample_fc deny_sys
      (fe_procs sample_fe) (fe_now sample_fe) (fe_instant sample_fe) (fe_req sample_fe) [] fs_mounted"
    using path by (simp add: op_emissions_def)
  then have "reports (op_emissions sample_fc deny_sys sample_fe (OpOpen 1 0) fs_mounted) = [FuseOpen]"
    by (simp add: read_open_emissions_def should_suppress_log_def sample_fc_def opener_def
        opener_filtered_def try_open_def open_backing_def run_kernel sys_open_file_def open_file_with_flags_def got_fd_def
        fs_mounted_def fs_new_def)
  moreover have "watched sample_fc deny_sys fs_mounted [] 0 0" unfolding fs_mounted_def by (rule watched.mount)
  ultimately show ?thesis
    using watched.serve [OF _ denied_open, of "[]" 0 0] path by (simp add: gets_handle_def open_failed_def bytes_given_def)
qed

theorem dashboard_follows_filesystem_witness:
  "\<exists>d. run_client_stream [(0, Inr (Event FuseOpen))] (dashboard_new minimal_config) = (Inr (), d) \<and>
     fs_open_bytes fs_mounted = [] \<and> da_open_handles d = 1"
  using dashboard_follows_filesystem [OF denied_watched, of minimal_config] by (auto simp: fs_mounted_def fs_new_def)

end
