(* ===== verification/Discovery.thy ===== *)
theory Discovery
  imports Fuse Lru
begin

text \<open>
  Process discovery (src/src/discovery.rs): the controller that is armed and disarmed, the counters
  the FUSE threads bump, and the drain task of each session that flushes them to the database. The
  tasks are interleaved: a touch loads the session in one step and bumps its counter in a later one,
  a flush takes the counters one by one, and what a drain task does after its last flush is a step
  of its own.
\<close>

section \<open>Names, samples and formatting\<close>

datatype op_kind = OpHit | OpMiss | OpMeta

fun op_as_str :: "op_kind \<Rightarrow> string" where
  "op_as_str OpHit = ''hit''"
| "op_as_str OpMiss = ''miss''"
| "op_as_str OpMeta = ''meta''"

definition outcome_op :: "open_outcome \<Rightarrow> op_kind" where
  "outcome_op outcome = (case outcome of HitOutcome \<Rightarrow> OpHit | MissOutcome \<Rightarrow> OpMiss | FilteredOutcome \<Rightarrow> OpMiss)"

definition display_name :: "process_info \<Rightarrow> string" where
  "display_name info = (case p_name info of None \<Rightarrow> ''(unknown)'' | Some n \<Rightarrow> n)"

definition DISCOVERY_CMDLINE_MAX :: nat where
  "DISCOVERY_CMDLINE_MAX = 4096"

text \<open>A byte starts a character unless it is a UTF-8 continuation byte; the end of the text is a boundary.\<close>

definition is_char_boundary :: "string \<Rightarrow> nat \<Rightarrow> bool" where
  "is_char_boundary s i = (i = 0 \<or> i = length s \<or> (i < length s \<and> \<not> (128 \<le> code_of (s ! i) \<and> code_of (s ! i) < 192)))"

fun boundary_loop :: "string \<Rightarrow> nat \<Rightarrow> nat" where
  "boundary_loop s 0 = 0"
| "boundary_loop s (Suc n) = (if is_char_boundary s (Suc n) then Suc n else boundary_loop s n)"

definition truncate_cmdline :: "string \<Rightarrow> nat \<Rightarrow> string" where
  "truncate_cmdline s max_bytes = (if length s \<le> max_bytes then s else take (boundary_loop s max_bytes) s)"

definition ELLIPSIS :: string where
  "ELLIPSIS = [CHR 0xE2, CHR 0x80, CHR 0xA6]"

definition format_process_info :: "process_info \<Rightarrow> string \<times> string" where
  "format_process_info info =
     ((case p_cmdline info of
         None \<Rightarrow> []
       | Some b \<Rightarrow>
           let s = join_with '' '' (filter (\<lambda>t. t \<noteq> []) (split_at (\<lambda>c. code_of c = 0) b))
           in if length s > DISCOVERY_CMDLINE_MAX then truncate_cmdline s DISCOVERY_CMDLINE_MAX @ ELLIPSIS else s),
      join_with ''>'' (p_ancestors info))"

section \<open>State\<close>

type_synonym count_key = "string \<times> op_kind"

text \<open>
  A session lives in the list of all sessions ever started, so that the tasks that still hold it share
  it. Its drain task waits, is in the middle of a flush (its bucket, the keys left, the rows so far,
  whether it is the last flush), has left its loop, or is done.
\<close>

datatype drain_phase = Waiting | Flushing int "count_key list" "process_access_row list" bool | Draining_done | Gone

record 'l session =
  se_cancelled :: bool
  se_counts :: "(count_key \<times> nat) list"
  se_samples :: "(string \<times> (string option \<times> string option)) list"
  se_filtered :: "(string \<times> bool) list"
  se_seen :: "string list"
  se_pid_lru :: 'l
  se_started_at :: int
  se_drain :: drain_phase

type_synonym 'l pid_lru = "(nat, process_info, 'l) lru_ops"

text \<open>What the log gets when a process is first seen, and the status messages on the IPC channel.\<close>

record new_line =
  nl_session :: nat
  nl_name :: string
  nl_filtered :: bool

text \<open>
  \<open>dc_touches\<close>: the accesses that hold a session and have not bumped it yet; \<open>dc_upserts\<close>: the rows
  on their way to the database; \<open>dc_last_seen\<close>: the thread-local last process, per thread.
\<close>

record 'l discovery =
  dc_enabled :: bool
  dc_session :: "nat option"
  dc_sessions :: "'l session list"
  dc_last_seen :: "(nat \<times> (nat \<times> process_info)) list"
  dc_touches :: "(nat \<times> count_key) list"
  dc_upserts :: "process_access_row list list"
  dc_news :: "new_line list"
  dc_statuses :: "(bool \<times> int option) list"
  dc_db :: cache_db

definition discovery_new :: "cache_db \<Rightarrow> 'l discovery" where
  "discovery_new db = \<lparr>dc_enabled = False, dc_session = None, dc_sessions = [], dc_last_seen = [], dc_touches = [],
     dc_upserts = [], dc_news = [], dc_statuses = [], dc_db = db\<rparr>"

definition upd_session :: "nat \<Rightarrow> ('l session \<Rightarrow> 'l session) \<Rightarrow> 'l discovery \<Rightarrow> 'l discovery" where
  "upd_session i f dc = dc\<lparr>dc_sessions := (dc_sessions dc)[i := f (dc_sessions dc ! i)]\<rparr>"

section \<open>The hot path\<close>

text \<open>A name that the session has not seen gets a sample and a line in the log.\<close>

definition first_sight :: "process_filter_policy \<Rightarrow> nat \<Rightarrow> process_info \<Rightarrow> 'l discovery \<Rightarrow> 'l discovery" where
  "first_sight policy i info dc =
     (let name = display_name info; se = dc_sessions dc ! i
      in if name \<in> set (se_seen se) then dc
         else (case format_process_info info of (cmdline, ancestors) \<Rightarrow>
           (upd_session i (\<lambda>se. se\<lparr>se_seen := name # se_seen se,
              se_samples := AList.update name (Some cmdline, Some ancestors) (se_samples se),
              se_filtered := AList.update name (policy_should_filter policy info) (se_filtered se)\<rparr>) dc)
           \<lparr>dc_news := dc_news dc @ [\<lparr>nl_session = i, nl_name = name, nl_filtered = policy_should_filter policy info\<rparr>]\<rparr>))"

definition resolve_pid ::
  "'l pid_lru \<Rightarrow> process_filter_policy \<Rightarrow> proc_fs \<Rightarrow> nat \<Rightarrow> nat \<Rightarrow> 'l discovery \<Rightarrow> process_info \<times> 'l discovery" where
  "resolve_pid ops policy pf i pid dc =
     (case l_get ops pid (se_pid_lru (dc_sessions dc ! i)) of
        (Some info, l) \<Rightarrow> (info, upd_session i (\<lambda>se. se\<lparr>se_pid_lru := l\<rparr>) dc)
      | (None, l) \<Rightarrow>
          let info = capture pf pid
          in (info, first_sight policy i info (upd_session i (\<lambda>se. se\<lparr>se_pid_lru := l_put ops pid info l\<rparr>) dc)))"

text \<open>The process behind a pid: the thread's last one if it is the same pid, else resolved and remembered.\<close>

definition last_seen_info ::
  "'l pid_lru \<Rightarrow> process_filter_policy \<Rightarrow> proc_fs \<Rightarrow> nat \<Rightarrow> nat \<Rightarrow> nat \<Rightarrow> 'l discovery \<Rightarrow> process_info \<times> 'l discovery" where
  "last_seen_info ops policy pf thread i pid dc =
     (case map_of (dc_last_seen dc) thread of
        Some (p, info) \<Rightarrow> if p = pid then (info, dc)
          else (case resolve_pid ops policy pf i pid dc of
                  (info, dc) \<Rightarrow> (info, dc\<lparr>dc_last_seen := AList.update thread (pid, info) (dc_last_seen dc)\<rparr>))
      | None \<Rightarrow> (case resolve_pid ops policy pf i pid dc of
                  (info, dc) \<Rightarrow> (info, dc\<lparr>dc_last_seen := AList.update thread (pid, info) (dc_last_seen dc)\<rparr>)))"

definition log_touch ::
  "'l pid_lru \<Rightarrow> process_filter_policy \<Rightarrow> proc_fs \<Rightarrow> nat \<Rightarrow> nat \<Rightarrow> op_kind \<Rightarrow> 'l discovery \<Rightarrow> 'l discovery" where
  "log_touch ops policy pf thread pid op dc =
     (if \<not> dc_enabled dc then dc
      else (case dc_session dc of
              None \<Rightarrow> dc
            | Some i \<Rightarrow>
                (case last_seen_info ops policy pf thread i pid dc of
                   (info, dc) \<Rightarrow> dc\<lparr>dc_touches := dc_touches dc @ [(i, (display_name info, op))]\<rparr>)))"

definition log_open :: "process_filter_policy \<Rightarrow> process_info \<Rightarrow> open_outcome \<Rightarrow> 'l discovery \<Rightarrow> 'l discovery" where
  "log_open policy info outcome dc =
     (if \<not> dc_enabled dc then dc
      else (case dc_session dc of
              None \<Rightarrow> dc
            | Some i \<Rightarrow>
                let dc = first_sight policy i info dc
                in dc\<lparr>dc_touches := dc_touches dc @ [(i, (display_name info, outcome_op outcome))]\<rparr>))"

definition count_of :: "count_key \<Rightarrow> 'l session \<Rightarrow> nat" where
  "count_of key se = (case map_of (se_counts se) key of None \<Rightarrow> 0 | Some n \<Rightarrow> n)"

text \<open>bump: a missing counter is created, then it is increased.\<close>

definition bump :: "nat \<Rightarrow> count_key \<Rightarrow> 'l discovery \<Rightarrow> 'l discovery" where
  "bump i key dc = upd_session i (\<lambda>se. se\<lparr>se_counts := AList.update key (add64 (count_of key se) 1) (se_counts se)\<rparr>) dc"

section \<open>Start, stop, status\<close>

definition status :: "'l discovery \<Rightarrow> bool \<times> int option" where
  "status dc = (dc_enabled dc, map_option (\<lambda>i. se_started_at (dc_sessions dc ! i)) (dc_session dc))"

definition broadcast_status :: "'l discovery \<Rightarrow> 'l discovery" where
  "broadcast_status dc = dc\<lparr>dc_statuses := dc_statuses dc @ [status dc]\<rparr>"

definition start :: "'l \<Rightarrow> nat \<Rightarrow> 'l discovery \<Rightarrow> 'l discovery" where
  "start new_lru now dc =
     (if dc_enabled dc then dc
      else broadcast_status (dc\<lparr>
        dc_sessions := dc_sessions dc @ [\<lparr>se_cancelled = False, se_counts = [], se_samples = [], se_filtered = [],
          se_seen = [], se_pid_lru = new_lru, se_started_at = as_i64 now, se_drain = Waiting\<rparr>],
        dc_session := Some (length (dc_sessions dc)), dc_enabled := True\<rparr>))"

definition stop :: "'l discovery \<Rightarrow> 'l discovery" where
  "stop dc =
     (if \<not> dc_enabled dc then dc
      else broadcast_status
        ((case dc_session dc of
            None \<Rightarrow> dc
          | Some i \<Rightarrow> upd_session i (\<lambda>se. se\<lparr>se_cancelled := True\<rparr>) dc)\<lparr>dc_enabled := False, dc_session := None\<rparr>))"

section \<open>The drain task\<close>

definition op_row :: "int \<Rightarrow> 'l session \<Rightarrow> count_key \<Rightarrow> nat \<Rightarrow> process_access_row" where
  "op_row bucket_epoch se key n =
     (let (cmdline, ancestors) = (case map_of (se_samples se) (fst key) of None \<Rightarrow> (None, None) | Some s \<Rightarrow> s)
      in \<lparr>pr_bucket_epoch = bucket_epoch, pr_process_name = fst key, pr_op_kind = op_as_str (snd key), pr_count = n,
          pr_sample_cmdline = cmdline, pr_sample_ancestors = ancestors\<rparr>)"

text \<open>One entry of the flush: the counter is swapped with zero; a counter at zero gives no row.\<close>

definition flush_entry :: "int \<Rightarrow> nat \<Rightarrow> count_key \<Rightarrow> count_key list \<Rightarrow> process_access_row list \<Rightarrow> bool \<Rightarrow> 'l discovery \<Rightarrow> 'l discovery" where
  "flush_entry bucket_epoch i key keys rows final dc =
     upd_session i (\<lambda>se.
       (if count_of key se = 0 then se else se\<lparr>se_counts := AList.update key 0 (se_counts se)\<rparr>)
       \<lparr>se_drain := Flushing bucket_epoch keys (if count_of key se = 0 then rows else rows @ [op_row bucket_epoch se key (count_of key se)]) final\<rparr>) dc"

definition flush_end :: "nat \<Rightarrow> process_access_row list \<Rightarrow> bool \<Rightarrow> 'l discovery \<Rightarrow> 'l discovery" where
  "flush_end i rows final dc =
     (upd_session i (\<lambda>se. se\<lparr>se_drain := (if final then Draining_done else Waiting)\<rparr>) dc)
     \<lparr>dc_upserts := (if rows = [] then dc_upserts dc else dc_upserts dc @ [rows])\<rparr>"

text \<open>What the task of a session does after its drain loop: it disarms the controller.\<close>

definition drain_exit :: "nat \<Rightarrow> 'l discovery \<Rightarrow> 'l discovery" where
  "drain_exit i dc = broadcast_status
     ((upd_session i (\<lambda>se. se\<lparr>se_drain := Gone\<rparr>) dc)\<lparr>dc_enabled := False, dc_session := None\<rparr>)"

definition upsert_rows :: "'l discovery \<Rightarrow> 'l discovery" where
  "upsert_rows dc =
     (case dc_upserts dc of
        [] \<Rightarrow> dc
      | rows # rest \<Rightarrow>
          dc\<lparr>dc_upserts := rest,
             dc_db := (case upsert_process_access rows (dc_db dc) of None \<Rightarrow> dc_db dc | Some db \<Rightarrow> db)\<rparr>)"

section \<open>Steps\<close>

text \<open>
  A flush starts at a tick, or after the token is cancelled (then it is the last one). Which
  counters it visits depends on the map's iteration under concurrent inserts; a key without a counter
  contributes nothing. The root token cancels every session at shutdown.
\<close>

inductive discovery_step :: "'l pid_lru \<Rightarrow> process_filter_policy \<Rightarrow> 'l discovery \<Rightarrow> 'l discovery \<Rightarrow> bool"
  for ops policy where
  touched: "discovery_step ops policy dc (log_touch ops policy pf thread pid op dc)"
| opened: "discovery_step ops policy dc (log_open policy info outcome dc)"
| bumped: "dc_touches dc = ts @ (i, key) # us \<Longrightarrow> discovery_step ops policy dc (bump i key (dc\<lparr>dc_touches := ts @ us\<rparr>))"
| armed: "discovery_step ops policy dc (start new_lru now dc)"
| disarmed: "discovery_step ops policy dc (stop dc)"
| cancelled: "i < length (dc_sessions dc) \<Longrightarrow> discovery_step ops policy dc (upd_session i (\<lambda>se. se\<lparr>se_cancelled := True\<rparr>) dc)"
| ticked: "i < length (dc_sessions dc) \<Longrightarrow> se_drain (dc_sessions dc ! i) = Waiting \<Longrightarrow> distinct keys \<Longrightarrow>
    (final \<longrightarrow> se_cancelled (dc_sessions dc ! i)) \<Longrightarrow>
    discovery_step ops policy dc (upd_session i (\<lambda>se. se\<lparr>se_drain := Flushing (as_i64 now) keys [] final\<rparr>) dc)"
| flushed: "i < length (dc_sessions dc) \<Longrightarrow> se_drain (dc_sessions dc ! i) = Flushing bucket (key # keys) rows final \<Longrightarrow>
    discovery_step ops policy dc (flush_entry bucket i key keys rows final dc)"
| ended: "i < length (dc_sessions dc) \<Longrightarrow> se_drain (dc_sessions dc ! i) = Flushing bucket [] rows final \<Longrightarrow>
    discovery_step ops policy dc (flush_end i rows final dc)"
| exited: "i < length (dc_sessions dc) \<Longrightarrow> se_drain (dc_sessions dc ! i) = Draining_done \<Longrightarrow>
    discovery_step ops policy dc (drain_exit i dc)"
| stored: "discovery_step ops policy dc (upsert_rows dc)"

inductive discovery_reachable :: "'l pid_lru \<Rightarrow> process_filter_policy \<Rightarrow> 'l discovery \<Rightarrow> bool" for ops policy where
  created: "discovery_reachable ops policy (discovery_new db)"
| stepped: "discovery_reachable ops policy dc \<Longrightarrow> discovery_step ops policy dc dc' \<Longrightarrow> discovery_reachable ops policy dc'"

section \<open>Accesses in the pipeline\<close>

definition rows_total :: "count_key \<Rightarrow> process_access_row list \<Rightarrow> int" where
  "rows_total key rows = sum_list (map (\<lambda>r. int (pr_count r))
     (filter (\<lambda>r. pr_process_name r = fst key \<and> pr_op_kind r = op_as_str (snd key)) rows))"

definition in_flight :: "'l session \<Rightarrow> process_access_row list" where
  "in_flight se = (case se_drain se of Flushing b keys rows final \<Rightarrow> rows | _ \<Rightarrow> [])"

definition session_total :: "count_key \<Rightarrow> 'l session \<Rightarrow> int" where
  "session_total key se = int (count_of key se) + rows_total key (in_flight se)"

definition stored_total :: "count_key \<Rightarrow> access_row list \<Rightarrow> int" where
  "stored_total key t = sum_list (map a_count (filter (\<lambda>a. a_process_name a = fst key \<and> a_op_kind a = op_as_str (snd key)) t))"

text \<open>Where an access can be: about to be counted, in a counter, in a flush, on its way to the database,
  in the database.\<close>

definition accounted :: "count_key \<Rightarrow> 'l discovery \<Rightarrow> int" where
  "accounted key dc =
     int (length (filter (\<lambda>t. snd t = key) (dc_touches dc))) + sum_list (map (session_total key) (dc_sessions dc)) +
     sum_list (map (rows_total key) (dc_upserts dc)) + stored_total key (process_access (dc_db dc))"

text \<open>The accesses a step recorded.\<close>

definition recorded :: "count_key \<Rightarrow> 'l discovery \<Rightarrow> 'l discovery \<Rightarrow> int" where
  "recorded key dc dc' = int (length (filter (\<lambda>t. snd t = key) (drop (length (dc_touches dc)) (dc_touches dc'))))"

lemma rows_total_simps [simp]: "rows_total key [] = 0" "rows_total key (xs @ ys) = rows_total key xs + rows_total key ys"
  by (simp_all add: rows_total_def)

lemma sum_list_upd:
  "i < length xs \<Longrightarrow> sum_list (map f (xs[i := y])) = sum_list (map f xs) - f (xs ! i) + (f y :: int)"
  by (induction xs arbitrary: i) (auto split: nat.splits)

lemma total_upd_session:
  assumes "i < length (dc_sessions dc)"
  shows "sum_list (map g (dc_sessions (upd_session i f dc))) =
     sum_list (map g (dc_sessions dc)) - g (dc_sessions dc ! i) + (g (f (dc_sessions dc ! i)) :: int)"
  using assms by (simp add: upd_session_def sum_list_upd)

lemma total_upd_same:
  assumes "\<And>se. g (f se) = (g se :: int)"
  shows "sum_list (map g (dc_sessions (upd_session i f dc))) = sum_list (map g (dc_sessions dc))"
  using assms total_upd_session [of i dc g f] by (cases "i < length (dc_sessions dc)") (simp_all add: upd_session_def list_update_beyond)

lemma upd_session_fields [simp]:
  "dc_enabled (upd_session i f dc) = dc_enabled dc" "dc_session (upd_session i f dc) = dc_session dc"
  "dc_last_seen (upd_session i f dc) = dc_last_seen dc" "dc_touches (upd_session i f dc) = dc_touches dc"
  "dc_upserts (upd_session i f dc) = dc_upserts dc" "dc_news (upd_session i f dc) = dc_news dc"
  "dc_statuses (upd_session i f dc) = dc_statuses dc" "dc_db (upd_session i f dc) = dc_db dc"
  "length (dc_sessions (upd_session i f dc)) = length (dc_sessions dc)"
  by (simp_all add: upd_session_def)

lemma broadcast_fields [simp]:
  "dc_sessions (broadcast_status dc) = dc_sessions dc" "dc_touches (broadcast_status dc) = dc_touches dc"
  "dc_upserts (broadcast_status dc) = dc_upserts dc" "dc_db (broadcast_status dc) = dc_db dc"
  "dc_news (broadcast_status dc) = dc_news dc" "dc_session (broadcast_status dc) = dc_session dc"
  "dc_enabled (broadcast_status dc) = dc_enabled dc"
  by (simp_all add: broadcast_status_def)

lemma session_total_frame [simp]:
  "session_total key (se\<lparr>se_cancelled := c\<rparr>) = session_total key se"
  "session_total key (se\<lparr>se_pid_lru := l\<rparr>) = session_total key se"
  "session_total key (se\<lparr>se_seen := a, se_samples := b, se_filtered := d\<rparr>) = session_total key se"
  by (simp_all add: session_total_def count_of_def in_flight_def)

lemma first_sight_fields [simp]:
  "dc_touches (first_sight policy i info dc) = dc_touches dc" "dc_upserts (first_sight policy i info dc) = dc_upserts dc"
  "dc_db (first_sight policy i info dc) = dc_db dc" "dc_session (first_sight policy i info dc) = dc_session dc"
  "dc_enabled (first_sight policy i info dc) = dc_enabled dc" "dc_last_seen (first_sight policy i info dc) = dc_last_seen dc"
  "length (dc_sessions (first_sight policy i info dc)) = length (dc_sessions dc)"
  "sum_list (map (session_total key) (dc_sessions (first_sight policy i info dc))) = sum_list (map (session_total key) (dc_sessions dc))"
  by (simp_all add: first_sight_def Let_def total_upd_same split: prod.splits)

lemma resolve_pid_fields:
  assumes "resolve_pid ops policy pf i pid dc = (info, dc')"
  shows "dc_touches dc' = dc_touches dc" "dc_upserts dc' = dc_upserts dc" "dc_db dc' = dc_db dc"
    "dc_session dc' = dc_session dc" "length (dc_sessions dc') = length (dc_sessions dc)"
    "sum_list (map (session_total key) (dc_sessions dc')) = sum_list (map (session_total key) (dc_sessions dc))"
  using assms by (auto simp: resolve_pid_def Let_def total_upd_same split: option.splits prod.splits)

lemma last_seen_info_fields:
  assumes "last_seen_info ops policy pf thread i pid dc = (info, dc')"
  shows "dc_touches dc' = dc_touches dc" "dc_upserts dc' = dc_upserts dc" "dc_db dc' = dc_db dc"
    "dc_session dc' = dc_session dc" "length (dc_sessions dc') = length (dc_sessions dc)"
    "sum_list (map (session_total key) (dc_sessions dc')) = sum_list (map (session_total key) (dc_sessions dc))"
  using assms resolve_pid_fields(1-5) [of ops policy pf i pid dc] resolve_pid_fields(6) [where key = key, of ops policy pf i pid dc]
  by (auto simp: last_seen_info_def split: option.splits prod.splits if_splits)

text \<open>An access does nothing, or appends itself to the touches and nothing else that is accounted.\<close>

definition only_recorded :: "'l discovery \<Rightarrow> 'l discovery \<Rightarrow> bool" where
  "only_recorded dc dc' =
     (\<exists>i k. dc_session dc = Some i \<and> dc_touches dc' = dc_touches dc @ [(i, k)] \<and> dc_upserts dc' = dc_upserts dc \<and>
        dc_db dc' = dc_db dc \<and> dc_session dc' = dc_session dc \<and> length (dc_sessions dc') = length (dc_sessions dc) \<and>
        (\<forall>key. sum_list (map (session_total key) (dc_sessions dc')) = sum_list (map (session_total key) (dc_sessions dc))))"

lemma log_touch_cases:
  "log_touch ops policy pf thread pid op dc = dc \<or> only_recorded dc (log_touch ops policy pf thread pid op dc)"
proof (cases "\<not> dc_enabled dc \<or> dc_session dc = None")
  case True
  then show ?thesis by (auto simp: log_touch_def)
next
  case False
  then obtain i where i: "dc_enabled dc" "dc_session dc = Some i" by auto
  obtain info dc1 where res: "last_seen_info ops policy pf thread i pid dc = (info, dc1)" by fastforce
  from i res last_seen_info_fields [OF res] show ?thesis
    by (simp add: log_touch_def only_recorded_def)
qed

lemma log_open_cases:
  "log_open policy info outcome dc = dc \<or> only_recorded dc (log_open policy info outcome dc)"
  by (cases "dc_enabled dc"; cases "dc_session dc") (simp_all add: log_open_def only_recorded_def)

lemma accounted_recorded:
  assumes "only_recorded dc dc'"
  shows "accounted key dc' = accounted key dc + recorded key dc dc'"
  using assms by (auto simp: only_recorded_def accounted_def recorded_def simp del: split_paired_All split_paired_Ex)

section \<open>Nothing is lost on the way\<close>

definition indices_ok :: "'l discovery \<Rightarrow> bool" where
  "indices_ok dc =
     ((\<forall>i. dc_session dc = Some i \<longrightarrow> i < length (dc_sessions dc)) \<and> (\<forall>t \<in> set (dc_touches dc). fst t < length (dc_sessions dc)))"

lemma indices_ok_recorded:
  assumes "indices_ok dc" and "only_recorded dc dc'"
  shows "indices_ok dc'"
proof -
  from assms(2) obtain i k where "dc_session dc = Some i" "dc_touches dc' = dc_touches dc @ [(i, k)]"
      "dc_session dc' = dc_session dc" "length (dc_sessions dc') = length (dc_sessions dc)"
    unfolding only_recorded_def by blast
  with assms(1) show ?thesis by (simp add: indices_ok_def)
qed

lemma indices_ok_keep:
  "indices_ok dc \<Longrightarrow> dc_session dc' = None \<or> dc_session dc' = dc_session dc \<Longrightarrow> set (dc_touches dc') \<subseteq> set (dc_touches dc) \<Longrightarrow>
   length (dc_sessions dc') = length (dc_sessions dc) \<Longrightarrow> indices_ok dc'"
  unfolding indices_ok_def by (metis option.distinct(1) subsetD)

lemma indices_ok_step: "discovery_step ops policy dc dc' \<Longrightarrow> indices_ok dc \<Longrightarrow> indices_ok dc'"
proof (induction rule: discovery_step.induct)
  case (touched dc pf thread pid op)
  then show ?case using log_touch_cases [of ops policy pf thread pid op dc] indices_ok_recorded by metis
next
  case (opened dc info outcome)
  then show ?case using log_open_cases [of policy info outcome dc] indices_ok_recorded by metis
next
  case (armed dc new_lru now)
  then show ?case by (simp add: start_def indices_ok_def less_Suc_eq)
next
  case (stored dc)
  then show ?case by (elim indices_ok_keep) (simp_all add: upsert_rows_def split: list.splits)
next
  case (disarmed dc)
  then show ?case by (elim indices_ok_keep) (simp_all add: stop_def split: option.splits)
qed (elim indices_ok_keep, (auto simp: bump_def flush_entry_def flush_end_def drain_exit_def) [3])+

lemma indices_ok_reachable: "discovery_reachable ops policy dc \<Longrightarrow> indices_ok dc"
proof (induction rule: discovery_reachable.induct)
  case (created db)
  show ?case by (simp add: discovery_new_def indices_ok_def)
next
  case (stepped dc dc')
  then show ?case by (blast intro: indices_ok_step)
qed

text \<open>No counter and no row is near the end of its range.\<close>

definition within_range :: "'l discovery \<Rightarrow> bool" where
  "within_range dc =
     ((\<forall>se \<in> set (dc_sessions dc). \<forall>key. count_of key se < 2 ^ 64 - 1) \<and>
      (\<forall>rows \<in> set (dc_upserts dc). \<forall>r \<in> set rows. pr_count r < 2 ^ 63))"

lemma count_of_update: "count_of key (se\<lparr>se_counts := AList.update k n (se_counts se)\<rparr>) = (if key = k then n else count_of key se)"
  by (simp add: count_of_def alist_map_of)

lemma accounted_bump:
  assumes "dc_touches dc = ts @ (i, k) # us" and "indices_ok dc" and "within_range dc"
  shows "accounted key (bump i k (dc\<lparr>dc_touches := ts @ us\<rparr>)) = accounted key dc"
proof -
  have i: "i < length (dc_sessions dc)" using assms(1,2) by (simp add: indices_ok_def)
  then have "count_of k (dc_sessions dc ! i) < 2 ^ 64 - 1" using assms(3) unfolding within_range_def by (meson nth_mem)
  then have "add64 (count_of k (dc_sessions dc ! i)) 1 = Suc (count_of k (dc_sessions dc ! i))" by (simp add: add64_def)
  then show ?thesis using i assms(1)
    by (simp add: accounted_def bump_def total_upd_session session_total_def in_flight_def count_of_update)
qed

lemma op_as_str_inject: "op_as_str a = op_as_str b \<longleftrightarrow> a = b"
  by (cases a; cases b) simp_all

lemma rows_total_op_row: "rows_total key [op_row b se k n] = (if key = k then int n else 0)"
  by (cases key; cases k) (auto simp: rows_total_def op_row_def op_as_str_inject split: prod.splits)

lemma accounted_flush_entry:
  assumes "i < length (dc_sessions dc)" and "se_drain (dc_sessions dc ! i) = Flushing b (k # ks) rows final"
  shows "accounted key (flush_entry b i k ks rows final dc) = accounted key dc"
  using assms
  by (simp add: accounted_def flush_entry_def total_upd_session session_total_def in_flight_def count_of_update
      rows_total_op_row)
    (simp add: count_of_def)

lemma accounted_flush_end:
  assumes "i < length (dc_sessions dc)" and "se_drain (dc_sessions dc ! i) = Flushing b [] rows final"
  shows "accounted key (flush_end i rows final dc) = accounted key dc"
  using assms
  by (simp add: accounted_def flush_end_def total_upd_session session_total_def in_flight_def) (simp add: count_of_def)

text \<open>An upsert adds the rows of the flush to the table.\<close>

lemma stored_total_Cons:
  "stored_total key (a # t) =
     (if a_process_name a = fst key \<and> a_op_kind a = op_as_str (snd key) then a_count a else 0) + stored_total key t"
  by (simp add: stored_total_def)

lemma row_update_Cons: "row_update k x f (a # t) = (if k a = x then f a else a) # row_update k x f t"
  by (simp add: row_update_def)

lemma stored_total_update:
  assumes "unique_key access_key t" and "row_lookup access_key (b, n, op) t \<noteq> None"
  shows "stored_total key (row_update access_key (b, n, op) (\<lambda>a. a\<lparr>a_count := a_count a + d, a_last_seen := g a,
       a_sample_cmdline := h a, a_sample_ancestors := m a\<rparr>) t) =
     stored_total key t + (if n = fst key \<and> op = op_as_str (snd key) then d else 0)"
  using assms
proof (induction t)
  case Nil
  then show ?case by (simp add: row_lookup_Nil)
next
  case (Cons a t)
  have rest: "access_key a = (b, n, op) \<Longrightarrow> row_update access_key (b, n, op) f t = t" for f
  proof -
    assume a: "access_key a = (b, n, op)"
    have "access_key a \<notin> access_key ` set t" using Cons.prems(1) by (simp add: unique_key_def)
    then have "\<forall>x \<in> set t. access_key x \<noteq> (b, n, op)" using a by (metis image_eqI)
    then show ?thesis unfolding row_update_def by (intro map_idI) simp
  qed
  show ?case
  proof (cases "access_key a = (b, n, op)")
    case True
    with rest show ?thesis
      by (simp add: stored_total_Cons row_update_Cons) (auto simp: access_key_def)
  next
    case False
    with Cons show ?thesis
      by (simp add: stored_total_Cons row_update_Cons row_lookup_Cons unique_key_def)
  qed
qed

lemma stored_total_upsert_one:
  assumes "unique_key access_key t" and "pr_count r < 2 ^ 63"
  shows "stored_total key (upsert_one t r) = stored_total key t + rows_total key [r]"
proof (cases "row_lookup access_key (pr_bucket_epoch r, pr_process_name r, pr_op_kind r) t = None")
  case True
  then show ?thesis using as_i64_small [OF assms(2)] by (simp add: upsert_one_def stored_total_def rows_total_def Let_def)
next
  case False
  have "upsert_one t r = row_update access_key (pr_bucket_epoch r, pr_process_name r, pr_op_kind r)
      (\<lambda>a. a\<lparr>a_count := a_count a + as_i64 (pr_count r), a_last_seen := max (a_last_seen a) (pr_bucket_epoch r),
         a_sample_cmdline := coalesce (a_sample_cmdline a) (pr_sample_cmdline r),
         a_sample_ancestors := coalesce (a_sample_ancestors a) (pr_sample_ancestors r)\<rparr>) t"
    using False by (simp only: upsert_one_def Let_def if_False)
  then show ?thesis using as_i64_small [OF assms(2)] stored_total_update [OF assms(1) False]
    by (simp add: rows_total_def)
qed

lemma stored_total_upsert:
  "unique_key access_key t \<Longrightarrow> \<forall>r \<in> set rows. pr_count r < 2 ^ 63 \<Longrightarrow>
   stored_total key (foldl upsert_one t rows) = stored_total key t + rows_total key rows"
proof (induction rows arbitrary: t)
  case Nil
  then show ?case by simp
next
  case (Cons r rows)
  then have "stored_total key (foldl upsert_one (upsert_one t r) rows) =
      stored_total key (upsert_one t r) + rows_total key rows"
    by (simp add: unique_upsert_one)
  also have "rows_total key rows = rows_total key (r # rows) - rows_total key [r]"
    using rows_total_simps(2) [of key "[r]" rows] by simp
  finally show ?case using Cons.prems stored_total_upsert_one [of t r key] by simp
qed

definition db_writable :: "cache_db \<Rightarrow> bool" where
  "db_writable db = (db_usable db \<and> \<not> db_query_only db \<and> unique_key access_key (process_access db))"

lemma accounted_upsert:
  assumes "db_writable (dc_db dc)" and "within_range dc"
  shows "accounted key (upsert_rows dc) = accounted key dc"
proof (cases "dc_upserts dc")
  case Nil
  then show ?thesis by (simp add: upsert_rows_def)
next
  case (Cons rows rest)
  with assms(2) have "\<forall>r \<in> set rows. pr_count r < 2 ^ 63" unfolding within_range_def by simp
  with Cons assms(1) show ?thesis
    by (simp add: upsert_rows_def accounted_def upsert_process_access_def db_writable_def stored_total_upsert)
qed

lemma accounted_cong:
  assumes "dc_touches dc' = dc_touches dc" and "dc_upserts dc' = dc_upserts dc" and "dc_db dc' = dc_db dc"
    and "sum_list (map (session_total key) (dc_sessions dc')) = sum_list (map (session_total key) (dc_sessions dc))"
  shows "accounted key dc' = accounted key dc + recorded key dc dc'"
  using assms by (simp add: accounted_def recorded_def)

lemma accounted_start: "accounted key (start l now dc) = accounted key dc + recorded key dc (start l now dc)"
  by (rule accounted_cong) (simp_all add: start_def session_total_def count_of_def in_flight_def)

lemma accounted_stop: "accounted key (stop dc) = accounted key dc + recorded key dc (stop dc)"
  by (rule accounted_cong) (simp_all add: stop_def total_upd_same split: option.splits)

lemma recorded_none: "length (dc_touches dc') \<le> length (dc_touches dc) \<Longrightarrow> recorded key dc dc' = 0"
  by (simp add: recorded_def)


definition armed_discovery :: "(nat \<times> process_info) list discovery" where
  "armed_discovery = start [] 100 (discovery_new db_empty)"

definition player_info :: process_info where
  "player_info = \<lparr>p_pid = 7, p_name = Some ''mpv'', p_cmdline = None, p_ancestors = []\<rparr>"

lemma armed_discovery_fields:
  "dc_enabled armed_discovery" "dc_session armed_discovery = Some 0" "dc_touches armed_discovery = []"
  "dc_upserts armed_discovery = []" "dc_db armed_discovery = db_empty"
  "dc_sessions armed_discovery = [\<lparr>se_cancelled = False, se_counts = [], se_samples = [], se_filtered = [],
     se_seen = [], se_pid_lru = [], se_started_at = 100, se_drain = Waiting\<rparr>]"
  by (simp_all add: armed_discovery_def start_def discovery_new_def as_i64_def)

lemma armed_reachable: "discovery_reachable ops policy armed_discovery"
  unfolding armed_discovery_def by (blast intro: discovery_reachable.intros discovery_step.armed)


section \<open>Samples, log lines and sessions\<close>

definition news_ok :: "'l discovery \<Rightarrow> bool" where
  "news_ok dc =
     ((\<forall>n \<in> set (dc_news dc). nl_session n < length (dc_sessions dc) \<and> nl_name n \<in> set (se_seen (dc_sessions dc ! nl_session n))) \<and>
      distinct (map (\<lambda>n. (nl_session n, nl_name n)) (dc_news dc)))"

lemma news_ok_keep:
  assumes "news_ok dc" and "dc_news dc' = dc_news dc" and "length (dc_sessions dc) \<le> length (dc_sessions dc')"
    and "\<And>j. j < length (dc_sessions dc) \<Longrightarrow> se_seen (dc_sessions dc' ! j) = se_seen (dc_sessions dc ! j)"
  shows "news_ok dc'"
  using assms by (auto simp: news_ok_def)

lemma news_ok_upd:
  assumes "news_ok dc" and "\<And>se. se_seen (f se) = se_seen se"
  shows "news_ok (upd_session i f dc)"
proof (rule news_ok_keep [OF assms(1)])
  show "se_seen (dc_sessions (upd_session i f dc) ! j) = se_seen (dc_sessions dc ! j)" if "j < length (dc_sessions dc)" for j
    using that assms(2) by (cases "j = i") (simp_all add: upd_session_def)
qed simp_all

lemma news_ok_first_sight:
  assumes "news_ok dc" and "i < length (dc_sessions dc)"
  shows "news_ok (first_sight policy i info dc)"
  using assms
  by (auto simp: first_sight_def news_ok_def Let_def upd_session_def nth_list_update split: prod.splits)

lemma news_ok_resolve_pid:
  assumes "resolve_pid ops policy pf i pid dc = (info, dc')" and "news_ok dc" and "i < length (dc_sessions dc)"
  shows "news_ok dc'"
proof (cases "l_get ops pid (se_pid_lru (dc_sessions dc ! i))")
  case (Pair r l)
  show ?thesis
  proof (cases r)
    case None
    have "news_ok (upd_session i (\<lambda>se. se\<lparr>se_pid_lru := l_put ops pid (capture pf pid) l\<rparr>) dc)"
      using assms(2) by (rule news_ok_upd) simp
    with None Pair assms(1,3) show ?thesis by (auto simp: resolve_pid_def Let_def intro!: news_ok_first_sight)
  next
    case (Some x)
    with Pair assms(1,2) show ?thesis by (auto simp: resolve_pid_def intro: news_ok_upd)
  qed
qed

lemma news_ok_last_seen_info:
  assumes "last_seen_info ops policy pf thread i pid dc = (info, dc')" and "news_ok dc" and "i < length (dc_sessions dc)"
  shows "news_ok dc'"
proof -
  have keep: "news_ok d \<Longrightarrow> news_ok (d\<lparr>dc_last_seen := x\<rparr>)" for d :: "'l discovery" and x
    by (simp add: news_ok_def)
  then have "resolve_pid ops policy pf i pid dc = (y, d) \<Longrightarrow> news_ok (d\<lparr>dc_last_seen := x\<rparr>)" for y d x
    using news_ok_resolve_pid assms(2,3) by blast
  then show ?thesis using assms(1,2) by (auto simp: last_seen_info_def split: option.splits prod.splits if_splits)
qed

lemma news_ok_touches [simp]: "news_ok (dc\<lparr>dc_touches := x\<rparr>) = news_ok dc"
  by (simp add: news_ok_def)

lemma news_ok_touch: "indices_ok dc \<Longrightarrow> news_ok dc \<Longrightarrow> news_ok (log_touch ops policy pf thread pid op dc)"
  by (auto simp: log_touch_def indices_ok_def split: option.splits prod.splits intro: news_ok_last_seen_info)

lemma news_ok_open: "indices_ok dc \<Longrightarrow> news_ok dc \<Longrightarrow> news_ok (log_open policy info outcome dc)"
  by (auto simp: log_open_def indices_ok_def Let_def split: option.splits intro: news_ok_first_sight)

lemma news_ok_step:
  assumes "discovery_step ops policy dc dc'" and "indices_ok dc" and "news_ok dc"
  shows "news_ok dc'"
  using assms(1)
proof cases
  case (touched pf thread pid op)
  then show ?thesis using news_ok_touch assms(2,3) by blast
next
  case (opened info outcome)
  then show ?thesis using news_ok_open assms(2,3) by blast
next
  case (armed l now)
  then show ?thesis using assms(3) by (intro news_ok_keep [OF assms(3)]) (simp_all add: start_def nth_append)
next
  case (bumped ts i k us)
  then show ?thesis using assms(3) by (simp add: bump_def news_ok_upd)
next
  case disarmed
  have keep: "news_ok d \<Longrightarrow> news_ok (broadcast_status (d\<lparr>dc_enabled := a, dc_session := b\<rparr>))" for d :: "'a discovery" and a b
    by (simp add: news_ok_def)
  show ?thesis unfolding disarmed stop_def using assms(3) by (auto split: option.splits intro!: keep news_ok_upd)
next
  case (exited i)
  have keep: "news_ok d \<Longrightarrow> news_ok (broadcast_status (d\<lparr>dc_enabled := a, dc_session := b\<rparr>))" for d :: "'a discovery" and a b
    by (simp add: news_ok_def)
  show ?thesis unfolding exited(1) drain_exit_def using assms(3) by (intro keep news_ok_upd) simp_all
next
  case (ended i bucket rows final)
  have keep: "news_ok d \<Longrightarrow> news_ok (d\<lparr>dc_upserts := a\<rparr>)" for d :: "'a discovery" and a
    by (simp add: news_ok_def)
  show ?thesis unfolding ended(1) flush_end_def using assms(3) by (intro keep news_ok_upd) simp_all
next
  case stored
  then show ?thesis using assms(3) by (simp add: upsert_rows_def news_ok_def split: list.splits)
qed (auto simp: flush_entry_def intro!: news_ok_upd assms(3))

text \<open>A process is announced at most once per session: the NEW lines of the log name each process
  once for each session, however many threads and pids it shows up with.\<close>

theorem processes_announced_once:
  assumes "discovery_reachable ops policy dc"
  shows "distinct (map (\<lambda>n. (nl_session n, nl_name n)) (dc_news dc))"
proof -
  have "news_ok dc" using assms
  proof (induction rule: discovery_reachable.induct)
    case (created db)
    show ?case by (simp add: news_ok_def discovery_new_def)
  next
    case (stepped dc dc')
    then show ?case using news_ok_step indices_ok_reachable by blast
  qed
  then show ?thesis by (simp add: news_ok_def)
qed

theorem processes_announced_once_witness:
  "length (dc_news (log_open \<lparr>pol_allowlist = [], pol_blocklist = []\<rparr> player_info HitOutcome armed_discovery)) = 1 \<and>
   distinct (map (\<lambda>n. (nl_session n, nl_name n))
     (dc_news (log_open \<lparr>pol_allowlist = [], pol_blocklist = []\<rparr> player_info HitOutcome armed_discovery)))"
proof
  let ?pol = "\<lparr>pol_allowlist = [], pol_blocklist = []\<rparr>"
  show "length (dc_news (log_open ?pol player_info HitOutcome armed_discovery)) = 1"
    by (simp add: log_open_def armed_discovery_fields first_sight_def player_info_def display_name_def Let_def
        format_process_info_def) (simp add: armed_discovery_def start_def discovery_new_def broadcast_status_def)
  show "distinct (map (\<lambda>n. (nl_session n, nl_name n)) (dc_news (log_open ?pol player_info HitOutcome armed_discovery)))"
    using discovery_reachable.stepped [OF armed_reachable discovery_step.opened, of "list_lru 4" ?pol player_info HitOutcome]
    by (rule processes_announced_once)
qed

lemma boundary_loop_spec:
  "boundary_loop s n \<le> n \<and> is_char_boundary s (boundary_loop s n) \<and>
   (\<forall>j. j \<le> n \<longrightarrow> is_char_boundary s j \<longrightarrow> j \<le> boundary_loop s n)"
proof (induction n)
  case 0
  show ?case by (simp add: is_char_boundary_def)
next
  case (Suc n)
  then show ?case using le_Suc_eq by auto
qed

text \<open>The sample of a command line is cut to the limit without cutting a character: the longest prefix
  of at most the given length that ends at a character boundary.\<close>

theorem truncate_cmdline_spec:
  "\<exists>n. truncate_cmdline s m = take n s \<and> length (truncate_cmdline s m) = n \<and> n \<le> m \<and> is_char_boundary s n \<and>
     (\<forall>j. is_char_boundary s j \<and> n < j \<and> j \<le> length s \<longrightarrow> m < j)"
proof (cases "length s \<le> m")
  case True
  then show ?thesis by (intro exI [of _ "length s"]) (simp add: truncate_cmdline_def is_char_boundary_def)
next
  case False
  then show ?thesis using boundary_loop_spec [of s m]
    by (intro exI [of _ "boundary_loop s m"]) (auto simp: truncate_cmdline_def not_less [symmetric])
qed

theorem truncate_cmdline_spec_witness:
  "truncate_cmdline [CHR ''a'', CHR 0xC3, CHR 0xA9] 2 = ''a'' \<and>
   (\<exists>n. truncate_cmdline [CHR ''a'', CHR 0xC3, CHR 0xA9] 2 = take n [CHR ''a'', CHR 0xC3, CHR 0xA9] \<and> n \<le> 2)"
proof
  show "truncate_cmdline [CHR ''a'', CHR 0xC3, CHR 0xA9] 2 = ''a''"
    by (simp add: truncate_cmdline_def is_char_boundary_def numeral_2_eq_2 code_of_def)
  show "\<exists>n. truncate_cmdline [CHR ''a'', CHR 0xC3, CHR 0xA9] 2 = take n [CHR ''a'', CHR 0xC3, CHR 0xA9] \<and> n \<le> 2"
    using truncate_cmdline_spec [of "[CHR ''a'', CHR 0xC3, CHR 0xA9]" 2] by blast
qed

section \<open>Restarts\<close>

text \<open>The task of a stopped session runs on after its last flush, and what it does then is not tied to its
  session: stopped and started again at once, the controller ends up disarmed although the new session was
  never cancelled and its own task still runs.\<close>

definition restarted :: "'l \<Rightarrow> nat \<Rightarrow> cache_db \<Rightarrow> 'l discovery" where
  "restarted l now db = start l now (stop (start l now (discovery_new db)))"

theorem old_drain_disarms_new_session:
  "\<exists>dc. discovery_reachable ops policy (restarted l now db) \<and> dc_enabled (restarted l now db) \<and>
     dc_session (restarted l now db) = Some 1 \<and>
     discovery_reachable ops policy dc \<and> \<not> dc_enabled dc \<and> dc_session dc = None \<and>
     \<not> se_cancelled (dc_sessions dc ! 1) \<and> se_drain (dc_sessions dc ! 1) = Waiting"
proof -
  let ?r = "restarted l now db"
  let ?ticked = "upd_session 0 (\<lambda>se. se\<lparr>se_drain := Flushing (as_i64 now) [] [] True\<rparr>) ?r"
  let ?ended = "flush_end 0 [] True ?ticked"
  have r: "discovery_reachable ops policy ?r" unfolding restarted_def
    by (intro discovery_reachable.stepped [OF _ discovery_step.armed] discovery_reachable.stepped [OF _ discovery_step.disarmed]
        discovery_reachable.created)
  have s: "dc_sessions ?r = [\<lparr>se_cancelled = True, se_counts = [], se_samples = [], se_filtered = [], se_seen = [],
        se_pid_lru = l, se_started_at = as_i64 now, se_drain = Waiting\<rparr>,
      \<lparr>se_cancelled = False, se_counts = [], se_samples = [], se_filtered = [], se_seen = [],
        se_pid_lru = l, se_started_at = as_i64 now, se_drain = Waiting\<rparr>]"
    "dc_enabled ?r" "dc_session ?r = Some 1"
    by (simp_all add: restarted_def start_def stop_def discovery_new_def upd_session_def broadcast_status_def)
  have t: "discovery_reachable ops policy ?ticked"
    by (rule discovery_reachable.stepped [OF r discovery_step.ticked]) (simp_all add: s)
  have e: "discovery_reachable ops policy ?ended"
    by (rule discovery_reachable.stepped [OF t discovery_step.ended]) (simp_all add: s upd_session_def)
  have x: "discovery_reachable ops policy (drain_exit 0 ?ended)"
    by (rule discovery_reachable.stepped [OF e discovery_step.exited]) (simp_all add: s upd_session_def flush_end_def)
  show ?thesis
    by (intro exI [of _ "drain_exit 0 ?ended"] conjI r x)
      (simp_all add: s drain_exit_def flush_end_def upd_session_def)
qed

text \<open>The last process of a thread outlives the session: the first access of a new session from the same
  process leaves no sample and no line in the log.\<close>

theorem new_session_misses_last_process:
  assumes "dc_enabled dc" and "dc_session dc = Some i" and "map_of (dc_last_seen dc) thread = Some (pid, info)"
  shows "dc_news (log_touch ops policy pf thread pid op dc) = dc_news dc \<and>
    dc_sessions (log_touch ops policy pf thread pid op dc) = dc_sessions dc"
  using assms by (simp add: log_touch_def last_seen_info_def)

end
