(* ===== verification/Daemon.thy ===== *)
theory Daemon
  imports Config Fuse BackingWatch Scheduler
begin

text \<open>
  The daemon's start (src/src/main.rs, src/src/utils.rs): the names and locks of instances and
  targets, the mount table, the choice of the preset, and the assembly of the components of a mount
  from the configuration. The hash of a path is the standard library's unspecified hasher and an
  argument; the file locks of all running daemons are one table, since the kernel keeps them.
\<close>

section \<open>Names\<close>

definition path_text :: "path \<Rightarrow> string" where
  "path_text p = (if p = [] then ''/'' else concat (map (\<lambda>c. CHR ''/'' # c) p))"

definition hex_digit :: "nat \<Rightarrow> char" where
  "hex_digit n = ''0123456789abcdef'' ! n"

definition hex8 :: "nat \<Rightarrow> string" where
  "hex8 n = map (\<lambda>i. hex_digit (n div 16 ^ i mod 16)) [7, 6, 5, 4, 3, 2, 1, 0]"

definition slug :: "string \<Rightarrow> string" where
  "slug s = join_with ''-'' (filter (\<lambda>t. t \<noteq> []) (split_at (\<lambda>c. c = CHR ''-'')
     (map (\<lambda>c. if is_ascii_alphanumeric c then c else CHR ''-'') (dropWhile (\<lambda>c. c = CHR ''/'') s))))"

definition mount_cache_name :: "(path \<Rightarrow> nat) \<Rightarrow> path \<Rightarrow> string" where
  "mount_cache_name hash target = slug (path_text target) @ ''-'' @ hex8 (hash target mod 2 ^ 32)"

section \<open>Targets\<close>

datatype startup_error = NoTargets | NotFound path | DuplicateTarget path | AlreadyRunning string
  | TargetMounted path "string option" | PresetError string | WindowError time_error

fun validate_loop :: "(path \<Rightarrow> bool) \<Rightarrow> (path \<Rightarrow> path option) \<Rightarrow> path list \<Rightarrow> path list \<Rightarrow> startup_error + unit" where
  "validate_loop found canonicalize seen [] = Inr ()"
| "validate_loop found canonicalize seen (t # ts) =
     (if \<not> found t then Inl (NotFound t)
      else let canonical = (case canonicalize t of None \<Rightarrow> t | Some c \<Rightarrow> c)
           in if canonical \<in> set seen then Inl (DuplicateTarget t)
              else validate_loop found canonicalize (canonical # seen) ts)"

definition validate_targets :: "(path \<Rightarrow> bool) \<Rightarrow> (path \<Rightarrow> path option) \<Rightarrow> path list \<Rightarrow> startup_error + unit" where
  "validate_targets found canonicalize targets =
     (if targets = [] then Inl NoTargets else validate_loop found canonicalize [] targets)"

section \<open>The mount table\<close>

fun holder_loop :: "string \<Rightarrow> string list \<Rightarrow> string option" where
  "holder_loop target [] = None"
| "holder_loop target (l # ls) =
     (case split_whitespace l of
        source # mount_point # _ \<Rightarrow>
          if mount_point = target
          then (case strip_text_prefix ''fscache-'' source of Some name \<Rightarrow> Some name | None \<Rightarrow> holder_loop target ls)
          else holder_loop target ls
      | _ \<Rightarrow> None)"

definition parse_fscache_mount_holder :: "string \<Rightarrow> path \<Rightarrow> string option" where
  "parse_fscache_mount_holder mounts target = holder_loop (path_text target) (lines mounts)"

text \<open>\<open>mounts\<close> is what reading /proc/mounts gave.\<close>

definition find_fscache_mount_holder :: "string option \<Rightarrow> path \<Rightarrow> string option" where
  "find_fscache_mount_holder mounts target =
     (case mounts of None \<Rightarrow> None | Some s \<Rightarrow> parse_fscache_mount_holder s target)"

definition clean_stale_mount :: "string option \<Rightarrow> string \<Rightarrow> path \<Rightarrow> bool" where
  "clean_stale_mount mounts instance_name target = (find_fscache_mount_holder mounts target = Some instance_name)"

section \<open>Locks\<close>

text \<open>The lock files under /run/fscache that are held, with their holders.\<close>

type_synonym flocks = "(string \<times> nat) list"

definition flock_exclusive :: "string \<Rightarrow> nat \<Rightarrow> flocks \<Rightarrow> flocks option" where
  "flock_exclusive lock_name pid locks = (if map_of locks lock_name = None then Some ((lock_name, pid) # locks) else None)"

definition instance_lock_name :: "string \<Rightarrow> string" where
  "instance_lock_name name = name @ ''.lock''"

definition target_lock_name :: "(path \<Rightarrow> nat) \<Rightarrow> path \<Rightarrow> string" where
  "target_lock_name hash target = ''mount-'' @ mount_cache_name hash target @ ''.lock''"

definition acquire_instance_lock :: "string \<Rightarrow> nat \<Rightarrow> flocks \<Rightarrow> startup_error + flocks" where
  "acquire_instance_lock name pid locks =
     (case flock_exclusive (instance_lock_name name) pid locks of None \<Rightarrow> Inl (AlreadyRunning name) | Some l \<Rightarrow> Inr l)"

definition acquire_target_lock :: "(path \<Rightarrow> nat) \<Rightarrow> string option \<Rightarrow> path \<Rightarrow> nat \<Rightarrow> flocks \<Rightarrow> startup_error + flocks" where
  "acquire_target_lock hash mounts target pid locks =
     (case flock_exclusive (target_lock_name hash target) pid locks of
        None \<Rightarrow> Inl (TargetMounted target (find_fscache_mount_holder mounts target))
      | Some l \<Rightarrow> Inr l)"

text \<open>
  The daemons of a host: each has its instance name, the targets still to mount and those mounted.
  They start concurrently; a daemon that fails or ends drops its locks with its process.
\<close>

record daemon =
  dm_pid :: nat
  dm_instance :: string
  dm_todo :: "path list"
  dm_mounted :: "path list"

record host =
  ho_locks :: flocks
  ho_daemons :: "daemon list"

inductive host_step :: "(path \<Rightarrow> nat) \<Rightarrow> host \<Rightarrow> host \<Rightarrow> bool" for hash where
  launched: "pid \<notin> dm_pid ` set (ho_daemons h) \<Longrightarrow> validate_instance_name name = Inr () \<Longrightarrow>
    acquire_instance_lock name pid (ho_locks h) = Inr locks \<Longrightarrow>
    validate_targets found canonicalize targets = Inr () \<Longrightarrow>
    host_step hash h \<lparr>ho_locks = locks,
      ho_daemons = \<lparr>dm_pid = pid, dm_instance = name, dm_todo = targets, dm_mounted = []\<rparr> # ho_daemons h\<rparr>"
| mounted: "ho_daemons h = ds @ d # es \<Longrightarrow> dm_todo d = t # ts \<Longrightarrow>
    acquire_target_lock hash mounts t (dm_pid d) (ho_locks h) = Inr locks \<Longrightarrow>
    host_step hash h \<lparr>ho_locks = locks, ho_daemons = ds @ (d\<lparr>dm_todo := ts, dm_mounted := dm_mounted d @ [t]\<rparr>) # es\<rparr>"
| died: "ho_daemons h = ds @ d # es \<Longrightarrow>
    host_step hash h \<lparr>ho_locks = filter (\<lambda>l. snd l \<noteq> dm_pid d) (ho_locks h), ho_daemons = ds @ es\<rparr>"

inductive host_reachable :: "(path \<Rightarrow> nat) \<Rightarrow> host \<Rightarrow> bool" for hash where
  booted: "host_reachable hash \<lparr>ho_locks = [], ho_daemons = []\<rparr>"
| stepped: "host_reachable hash h \<Longrightarrow> host_step hash h h' \<Longrightarrow> host_reachable hash h'"

section \<open>Assembly\<close>

definition gb_bytes :: "f64 \<Rightarrow> nat" where
  "gb_bytes x = f64_to_u64 (f64_scale x 1073741824)"

definition discovery_process_policy :: "config \<Rightarrow> process_filter_policy" where
  "discovery_process_policy c =
     (if cf_preset c = ''prefetch''
      then \<lparr>pol_allowlist = fc_process_allowlist (cf_prefetch c), pol_blocklist = fc_process_blocklist (cf_prefetch c)\<rparr>
      else \<lparr>pol_allowlist = xc_process_allowlist (cf_plex c), pol_blocklist = xc_process_blocklist (cf_plex c)\<rparr>)"

definition plex_from_config :: "config \<Rightarrow> cache_preset_methods" where
  "plex_from_config c = plex_preset (plex_new (xc_lookahead (cf_plex c)) (xc_process_allowlist (cf_plex c))
     (xc_process_blocklist (cf_plex c)) (xc_mode (cf_plex c) = ''rolling-buffer''))"

text \<open>An unknown preset falls back to the Plex one.\<close>

definition choose_preset ::
  "(string \<Rightarrow> 'r option) \<Rightarrow> ('r \<Rightarrow> string \<Rightarrow> bool) \<Rightarrow> config \<Rightarrow> startup_error + cache_preset_methods" where
  "choose_preset compile is_match c =
     (if cf_preset c = ''prefetch''
      then (case parse_mode (fc_mode (cf_prefetch c)) of
              Inl e \<Rightarrow> Inl (PresetError e)
            | Inr mode \<Rightarrow>
                (case prefetch_new compile mode (fc_max_depth (cf_prefetch c)) (fc_process_allowlist (cf_prefetch c))
                        (fc_process_blocklist (cf_prefetch c)) (fc_file_whitelist (cf_prefetch c))
                        (fc_file_blacklist (cf_prefetch c)) of
                   Inl e \<Rightarrow> Inl (PresetError e)
                 | Inr p \<Rightarrow> Inr (prefetch_preset is_match p)))
      else Inr (plex_from_config c))"

record mount =
  mt_fs :: fs_config
  mt_manager :: cache_manager
  mt_scheduler :: scheduler
  mt_engine :: action_engine
  mt_max_copies :: nat
  mt_eviction_interval_secs :: nat
  mt_deferred_ttl_minutes :: nat
  mt_max_watches :: nat
  mt_maintenance :: bool

text \<open>\<open>base_cache_dir\<close> is the configured cache directory, \<open>capacity\<close> the size of its drive.\<close>

definition assemble_mount ::
  "(string \<Rightarrow> 'r option) \<Rightarrow> ('r \<Rightarrow> string \<Rightarrow> bool) \<Rightarrow> (path \<Rightarrow> nat) \<Rightarrow> path \<Rightarrow> nat option \<Rightarrow> config \<Rightarrow> path \<Rightarrow> startup_error + mount" where
  "assemble_mount compile is_match hash base_cache_dir capacity c target =
     (case choose_preset compile is_match c of
        Inl e \<Rightarrow> Inl e
      | Inr preset \<Rightarrow>
          let ev = resolve_eviction (cf_eviction c) (cf_cache c);
              cm = manager_new (join base_cache_dir [mount_cache_name hash target]) capacity
                     (gb_bytes (re_max_size_gb ev)) (re_expiry_hours ev) (gb_bytes (re_min_free_space_gb ev)) True
                     (ic_check_on_hit (cf_invalidation c))
          in (case scheduler_new (sc_cache_window_start (cf_schedule c)) (sc_cache_window_end (cf_schedule c)) of
                Inl e \<Rightarrow> Inl (WindowError e)
              | Inr sch \<Rightarrow>
                  Inr \<lparr>mt_fs = \<lparr>fc_passthrough_mode = cc_passthrough_mode (cf_cache c), fc_cache = Some cm,
                          fc_access_tx = True, fc_repeat_log_window = secs (lc_repeat_log_window_secs (cf_logging c)),
                          fc_preset = Some preset, fc_discovery = True, fc_backing_watch = wc_enabled (cf_backing_watch c)\<rparr>,
                       mt_manager = cm, mt_scheduler = sch,
                       mt_engine = \<lparr>ae_preset = Some preset,
                          ae_max_cache_pull_bytes = gb_bytes (cc_max_cache_pull_per_mount_gb (cf_cache c)),
                          ae_min_access_secs = cc_min_access_secs (cf_cache c),
                          ae_min_file_size_mb = cc_min_file_size_mb (cf_cache c)\<rparr>,
                       mt_max_copies = cc_max_concurrent_copies (cf_cache c),
                       mt_eviction_interval_secs = ec_poll_interval_secs (cf_eviction c),
                       mt_deferred_ttl_minutes = cc_deferred_ttl_minutes (cf_cache c),
                       mt_max_watches = wc_max_dirs (cf_backing_watch c),
                       mt_maintenance = (ec_poll_interval_secs (cf_eviction c) > 0 \<and> ic_check_on_maintenance (cf_invalidation c))\<rparr>))"

text \<open>What the task that prunes the process table asks for; the subtraction wraps.\<close>

definition prune_cutoff :: "nat \<Rightarrow> nat \<Rightarrow> int" where
  "prune_cutoff now window_days = as_i64 (as_u64 (as_i64 now - as_i64 (mul64 window_days 86400)))"

section \<open>One daemon per instance and target\<close>

definition host_ok :: "(path \<Rightarrow> nat) \<Rightarrow> host \<Rightarrow> bool" where
  "host_ok hash h =
     (distinct (map fst (ho_locks h)) \<and> distinct (map dm_pid (ho_daemons h)) \<and>
      (\<forall>d \<in> set (ho_daemons h). (instance_lock_name (dm_instance d), dm_pid d) \<in> set (ho_locks h) \<and>
         (\<forall>t \<in> set (dm_mounted d). (target_lock_name hash t, dm_pid d) \<in> set (ho_locks h))))"

lemma flock_Some: "flock_exclusive n pid locks = Some l \<longleftrightarrow> n \<notin> fst ` set locks \<and> l = (n, pid) # locks"
  by (auto simp: flock_exclusive_def map_of_eq_None_iff)

lemma acquire_instance_Inr:
  "acquire_instance_lock n pid locks = Inr l \<longleftrightarrow> instance_lock_name n \<notin> fst ` set locks \<and> l = (instance_lock_name n, pid) # locks"
  by (auto simp: acquire_instance_lock_def flock_Some split: option.splits) (simp add: flock_exclusive_def map_of_eq_None_iff)

lemma acquire_target_Inr:
  "acquire_target_lock hash m t pid locks = Inr l \<longleftrightarrow>
     target_lock_name hash t \<notin> fst ` set locks \<and> l = (target_lock_name hash t, pid) # locks"
  by (auto simp: acquire_target_lock_def flock_Some split: option.splits) (simp add: flock_exclusive_def map_of_eq_None_iff)

lemma host_ok_step: "host_step hash h h' \<Longrightarrow> host_ok hash h \<Longrightarrow> host_ok hash h'"
proof (induction rule: host_step.induct)
  case (launched pid h name locks found canonicalize targets)
  then show ?case by (auto simp: host_ok_def acquire_instance_Inr)
next
  case (mounted h ds d es t ts mounts locks)
  then show ?case by (auto simp: host_ok_def acquire_target_Inr)
next
  case (died h ds d es)
  then have "dm_pid d \<notin> dm_pid ` (set ds \<union> set es)" by (auto simp: host_ok_def)
  then have "\<forall>x \<in> set ds \<union> set es. dm_pid x \<noteq> dm_pid d" by (metis image_eqI)
  with died show ?case by (auto simp: host_ok_def distinct_map_filter)
qed

lemma host_ok_reachable: "host_reachable hash h \<Longrightarrow> host_ok hash h"
proof (induction rule: host_reachable.induct)
  case booted
  show ?case by (simp add: host_ok_def)
next
  case (stepped h h')
  then show ?case using host_ok_step by blast
qed

text \<open>C22. However daemons start and die, no two running daemons have the same instance name, and no two
  have mounted the same target.\<close>

theorem daemons_exclusive:
  assumes "host_reachable hash h" and "d \<in> set (ho_daemons h)" and "e \<in> set (ho_daemons h)"
    and "dm_instance d = dm_instance e \<or> set (dm_mounted d) \<inter> set (dm_mounted e) \<noteq> {}"
  shows "d = e"
proof -
  have ok: "host_ok hash h" by (rule host_ok_reachable [OF assms(1)])
  have "\<exists>n. (n, dm_pid d) \<in> set (ho_locks h) \<and> (n, dm_pid e) \<in> set (ho_locks h)"
    using assms(4)
  proof
    assume "dm_instance d = dm_instance e"
    then show ?thesis using ok assms(2,3) unfolding host_ok_def by metis
  next
    assume "set (dm_mounted d) \<inter> set (dm_mounted e) \<noteq> {}"
    then obtain t where "t \<in> set (dm_mounted d)" "t \<in> set (dm_mounted e)" by blast
    then show ?thesis using ok assms(2,3) unfolding host_ok_def by blast
  qed
  then have "dm_pid d = dm_pid e" using ok by (auto simp: host_ok_def dest: eq_key_imp_eq_value)
  then show ?thesis using ok assms(2,3) by (auto simp: host_ok_def distinct_map inj_on_def)
qed

text \<open>The preset of a mount and the discovery log follow the same process policy: whatever the policy
  shown as filtered in the log vetoes, the preset that was chosen for the mounts filters.\<close>

theorem preset_follows_discovery_policy:
  assumes "choose_preset compile is_match c = Inr p" and "policy_should_filter (discovery_process_policy c) info"
  shows "cp_should_filter p info"
proof (cases "cf_preset c = ''prefetch''")
  case True
  with assms(1) obtain x where x: "p = prefetch_preset is_match x" "pf_process_policy x = discovery_process_policy c"
    by (auto simp: choose_preset_def discovery_process_policy_def prefetch_new_def split: sum.splits)
  then show ?thesis using prefetch.policy_vetoes [of x info is_match] assms(2) by simp
next
  case False
  with assms(1) obtain x where x: "p = plex_preset x" "px_process_policy x = discovery_process_policy c"
    by (auto simp: choose_preset_def discovery_process_policy_def plex_from_config_def plex_new_def)
  then show ?thesis using plex.policy_vetoes [of x info] assms(2) by simp
qed

section \<open>The mount table\<close>

text \<open>A line of the mount table: the source, the mount point and the rest, which has the type and the options.\<close>

type_synonym mount_entry = "string \<times> string \<times> string"

definition entry_line :: "mount_entry \<Rightarrow> string" where
  "entry_line e = (case e of (source, mount_point, rest) \<Rightarrow> source @ '' '' @ mount_point @ '' '' @ rest)"

definition mounts_text :: "mount_entry list \<Rightarrow> string" where
  "mounts_text es = concat (map (\<lambda>e. entry_line e @ [CHR 0x0A]) es)"

definition entry_ok :: "mount_entry \<Rightarrow> bool" where
  "entry_ok e = (case e of (source, mount_point, rest) \<Rightarrow>
     source \<noteq> [] \<and> mount_point \<noteq> [] \<and> list_all (\<lambda>c. \<not> is_space c) source \<and> list_all (\<lambda>c. \<not> is_space c) mount_point \<and>
     list_all (\<lambda>c. code_of c \<noteq> 10 \<and> code_of c \<noteq> 13) rest)"

lemma space_codes: "code_of c = 10 \<Longrightarrow> is_space c" "code_of c = 13 \<Longrightarrow> is_space c"
  by (simp_all add: is_space_def)

lemma entry_line_plain:
  assumes "entry_ok e"
  shows "\<forall>c \<in> set (entry_line e). code_of c \<noteq> 10 \<and> code_of c \<noteq> 13"
proof -
  obtain a b c where e: "e = (a, b, c)" by (cases e) auto
  have "code_of (CHR '' '') = 32" by (simp add: code_of_def)
  then show ?thesis using assms space_codes by (auto simp: e entry_ok_def entry_line_def list_all_iff)
qed

lemma entry_line_nonempty: "entry_ok e \<Longrightarrow> entry_line e \<noteq> []"
  by (cases e) (auto simp: entry_ok_def entry_line_def)

lemma strip_cr_plain: "\<forall>c \<in> set l. code_of c \<noteq> 13 \<Longrightarrow> strip_cr l = l"
  by (auto simp: strip_cr_def)

lemma split_lines:
  "list_all entry_ok es \<Longrightarrow> split_at (\<lambda>c. code_of c = 10) (mounts_text es) = map entry_line es @ [[]]"
proof (induction es)
  case Nil
  show ?case by (simp add: mounts_text_def)
next
  case (Cons e es)
  have nl: "code_of (CHR 0x0A) = 10" by (simp add: code_of_def)
  have "split_at (\<lambda>c. code_of c = 10) (entry_line e) = [entry_line e]"
    using Cons.prems entry_line_plain [of e] by (intro split_at_none) auto
  moreover have "mounts_text (e # es) = entry_line e @ CHR 0x0A # mounts_text es"
    by (simp add: mounts_text_def)
  ultimately show ?case
    using Cons split_at_append_sep [where sep = "\<lambda>c. code_of c = 10" and c = "CHR 0x0A", OF nl] by simp
qed

lemma lines_mounts: "list_all entry_ok es \<Longrightarrow> lines (mounts_text es) = map entry_line es"
  using entry_line_plain
  by (auto simp: lines_def split_lines Let_def list_all_iff intro!: map_idI strip_cr_plain)

lemma split_entry:
  assumes "entry_ok (a, b, c)"
  shows "\<exists>r. split_whitespace (entry_line (a, b, c)) = a # b # r"
proof -
  have sp: "is_space (CHR '' '')" by (simp add: is_space_def code_of_def)
  have "split_at is_space (entry_line (a, b, c)) = split_at is_space a @ split_at is_space b @ split_at is_space c"
    using split_at_append_sep [where sep = is_space and c = "CHR '' ''" and xs = a and ys = "b @ CHR '' '' # c", OF sp]
      split_at_append_sep [where sep = is_space and c = "CHR '' ''" and xs = b and ys = c, OF sp]
    by (simp add: entry_line_def)
  moreover have "split_at is_space a = [a]" "split_at is_space b = [b]"
    using assms by (auto simp: entry_ok_def list_all_iff intro!: split_at_none)
  ultimately show ?thesis using assms by (simp add: split_whitespace_def entry_ok_def)
qed

definition holder_of :: "string \<Rightarrow> mount_entry list \<Rightarrow> string option" where
  "holder_of target es =
     map_option (\<lambda>e. drop (length ''fscache-'') (fst e)) (find (\<lambda>e. fst (snd e) = target \<and> prefix ''fscache-'' (fst e)) es)"

text \<open>Reading the mount table gives the instance of the first fscache mount on the target, and no
  instance when there is none, wherever the line stands and whatever the options are.\<close>

theorem mount_holder_roundtrip:
  assumes "list_all entry_ok es"
  shows "parse_fscache_mount_holder (mounts_text es) target = holder_of (path_text target) es"
proof -
  have "holder_loop t (map entry_line es) = holder_of t es" for t
    using assms
  proof (induction es)
    case Nil
    show ?case by (simp add: holder_of_def)
  next
    case (Cons e es)
    obtain a b c where e: "e = (a, b, c)" by (cases e) auto
    with Cons.prems obtain r where "split_whitespace (entry_line e) = a # b # r"
      using split_entry [of a b c] by (auto simp only: list.pred_inject)
    with Cons e show ?case by (simp add: holder_of_def strip_text_prefix_def)
  qed
  then show ?thesis using assms by (simp add: parse_fscache_mount_holder_def lines_mounts)
qed

theorem mount_holder_roundtrip_witness:
  "parse_fscache_mount_holder (mounts_text [(''sysfs'', ''/sys'', ''sysfs rw 0 0''),
     (''fscache-tv'', ''/mnt/tv'', ''fuse ro 0 0'')]) [''mnt'', ''tv''] = Some ''tv''"
  using mount_holder_roundtrip [of "[(''sysfs'', ''/sys'', ''sysfs rw 0 0''), (''fscache-tv'', ''/mnt/tv'', ''fuse ro 0 0'')]"
      "[''mnt'', ''tv'']"]
  by (simp add: entry_ok_def is_space_def code_of_def holder_of_def path_text_def)

text \<open>The kernel writes a space in a mount point as an octal escape, which the code does not undo: a target
  with a space in its path is never found.\<close>

lemma split_whitespace_pieces: "p \<in> set (split_whitespace l) \<Longrightarrow> c \<in> set p \<Longrightarrow> \<not> is_space c"
  by (auto simp: split_whitespace_def dest: split_at_pieces)

lemma holder_loop_spaces: "is_space c \<Longrightarrow> c \<in> set t \<Longrightarrow> holder_loop t ls = None"
proof (induction t ls rule: holder_loop.induct)
  case (2 t l ls)
  have "t \<notin> set (split_whitespace l)" using split_whitespace_pieces 2(3,4) by blast
  with 2 show ?case by (auto split: list.splits)
qed simp

theorem spaced_target_never_found:
  assumes "is_space c" and "x \<in> set target" and "c \<in> set x"
  shows "parse_fscache_mount_holder mounts target = None"
  using assms by (auto simp: parse_fscache_mount_holder_def path_text_def intro!: holder_loop_spaces)

section \<open>Cache directories\<close>

definition name_char :: "char \<Rightarrow> bool" where
  "name_char c = (is_ascii_alphanumeric c \<or> c = CHR ''-'')"

lemma join_with_chars: "c \<in> set (join_with sep ss) \<Longrightarrow> c \<in> set sep \<or> (\<exists>s \<in> set ss. c \<in> set s)"
  by (induction sep ss rule: join_with.induct) auto

lemma slug_chars: "c \<in> set (slug s) \<Longrightarrow> name_char c"
  unfolding slug_def
  by (drule join_with_chars) (auto simp: name_char_def dest!: split_at_pieces split: if_splits)

lemma code_of_hex_digit:
  assumes "n < 16"
  shows "code_of (hex_digit n) = (if n < 10 then 48 + n else 87 + n)"
proof -
  have "\<forall>n \<in> set [0..<16]. code_of (hex_digit n) = (if n < 10 then 48 + n else 87 + n)"
    by code_simp
  with assms show ?thesis by simp
qed

lemma hex_digit_char: "n < 16 \<Longrightarrow> is_ascii_alphanumeric (hex_digit n)"
  unfolding is_ascii_alphanumeric_def is_digit_def by (subst code_of_hex_digit | assumption)+ auto

lemma hex_digit_inject: "a < 16 \<Longrightarrow> b < 16 \<Longrightarrow> hex_digit a = hex_digit b \<Longrightarrow> a = b"
proof -
  assume ab: "a < 16" "b < 16" "hex_digit a = hex_digit b"
  have "(if a < 10 then 48 + a else 87 + a) = code_of (hex_digit b)" by (simp only: ab(3) [symmetric] code_of_hex_digit [OF ab(1)])
  then have "(if a < 10 then 48 + a else 87 + a) = (if b < 10 then 48 + b else 87 + b)" by (simp only: code_of_hex_digit [OF ab(2)])
  with ab(1,2) show ?thesis by presburger
qed

lemma hex8_chars:
  assumes "c \<in> set (hex8 n)"
  shows "name_char c"
proof -
  from assms obtain i where "c = hex_digit (n div 16 ^ i mod 16)" unfolding hex8_def set_map by blast
  moreover have "n div 16 ^ i mod 16 < 16" by (rule mod_less_divisor) simp
  ultimately show ?thesis using hex_digit_char unfolding name_char_def by blast
qed

lemma hex8_digits:
  assumes "hex8 a = hex8 b" and "i < 8"
  shows "a div 16 ^ i mod 16 = b div 16 ^ i mod 16"
proof -
  have "i \<in> set [7, 6, 5, 4, 3, 2, 1, 0]" using assms(2) by simp arith
  then have "hex_digit (a div 16 ^ i mod 16) = hex_digit (b div 16 ^ i mod 16)"
    using assms(1) unfolding hex8_def map_eq_conv by blast
  moreover have "a div 16 ^ i mod 16 < 16" "b div 16 ^ i mod 16 < 16" by (rule mod_less_divisor, simp)+
  ultimately show ?thesis by (intro hex_digit_inject)
qed

lemma hex8_inject:
  assumes "hex8 a = hex8 b" and "a < 2 ^ 32" and "b < 2 ^ 32"
  shows "a = b"
proof -
  have step: "n div 16 ^ i = 16 * (n div 16 ^ Suc i) + n div 16 ^ i mod 16" for n i :: nat
    by (simp add: div_mult2_eq mult.commute [of 16])
  have "a div 16 ^ (8 - k) = b div 16 ^ (8 - k)" if "k \<le> 8" for k
    using that
  proof (induction k)
    case 0
    then show ?case using assms(2,3) by simp
  next
    case (Suc k)
    then have "Suc (8 - Suc k) = 8 - k" "8 - Suc k < 8" by auto
    then show ?case using step [of a "8 - Suc k"] step [of b "8 - Suc k"] hex8_digits [OF assms(1), of "8 - Suc k"] Suc by simp
  qed
  from this [of 8] show ?thesis by simp
qed

text \<open>The cache directory of a target is one path component made of letters, digits and hyphens, so
  the cache stays below the configured directory; and two targets share one only if the lower halves of
  their hashes collide.\<close>

theorem mount_cache_name_safe:
  "list_all name_char (mount_cache_name hash a) \<and> mount_cache_name hash a \<noteq> [] \<and>
   (mount_cache_name hash a = mount_cache_name hash b \<longrightarrow> hash a mod 2 ^ 32 = hash b mod 2 ^ 32)"
proof (intro conjI impI)
  show "list_all name_char (mount_cache_name hash a)"
    by (auto simp: mount_cache_name_def list_all_iff name_char_def [of "CHR ''-''"] dest: slug_chars hex8_chars)
  show "mount_cache_name hash a \<noteq> []" by (simp add: mount_cache_name_def)
  assume "mount_cache_name hash a = mount_cache_name hash b"
  then have "hex8 (hash a mod 2 ^ 32) = hex8 (hash b mod 2 ^ 32)"
    by (auto simp: mount_cache_name_def hex8_def append_eq_append_conv2 dest: append_eq_append_conv)
  then show "hash a mod 2 ^ 32 = hash b mod 2 ^ 32" by (rule hex8_inject) auto
qed

theorem mount_cache_name_safe_witness:
  "mount_cache_name (\<lambda>p. 10) [''mnt'', ''a''] = ''mnt-a-0000000a'' \<and> list_all name_char (mount_cache_name (\<lambda>p. 10) [''mnt'', ''a''])"
proof
  show "mount_cache_name (\<lambda>p. 10) [''mnt'', ''a''] = ''mnt-a-0000000a''"
    by (simp add: mount_cache_name_def slug_def path_text_def is_ascii_alphanumeric_def is_digit_def code_of_def hex8_def
        hex_digit_def)
  show "list_all name_char (mount_cache_name (\<lambda>p. 10) [''mnt'', ''a''])"
    using mount_cache_name_safe [of "\<lambda>p. 10" "[''mnt'', ''a'']" "[]"] by blast
qed

section \<open>A host with two daemons\<close>

definition cold_host :: host where
  "cold_host = \<lparr>ho_locks = [], ho_daemons = []\<rparr>"

definition daemon_a :: daemon where
  "daemon_a = \<lparr>dm_pid = 1, dm_instance = ''a'', dm_todo = [], dm_mounted = [[''x'']]\<rparr>"

definition daemon_b :: daemon where
  "daemon_b = \<lparr>dm_pid = 2, dm_instance = ''b'', dm_todo = [], dm_mounted = [[''y'']]\<rparr>"

text \<open>The lock of a target follows its spelling: with y a link to x, two daemons mount the same directory.\<close>

definition link_target :: "path \<Rightarrow> path option" where
  "link_target t = (if t = [''y''] then Some [''x''] else Some t)"

definition both_host :: host where
  "both_host = \<lparr>ho_locks = [(target_lock_name (\<lambda>p. 0) [''y''], 2), (''b.lock'', 2), (target_lock_name (\<lambda>p. 0) [''x''], 1), (''a.lock'', 1)],
     ho_daemons = [daemon_b, daemon_a]\<rparr>"

lemma lock_names:
  "target_lock_name (\<lambda>p. 0) [''x''] = ''mount-x-00000000.lock''" "target_lock_name (\<lambda>p. 0) [''y''] = ''mount-y-00000000.lock''"
  by (simp_all add: target_lock_name_def mount_cache_name_def slug_def path_text_def is_ascii_alphanumeric_def
      is_digit_def code_of_def hex8_def hex_digit_def)

lemma short_names_valid: "validate_instance_name ''a'' = Inr ()" "validate_instance_name ''b'' = Inr ()"
  by (simp_all add: validate_instance_name_def trim_def is_space_def code_of_def instance_char_def
      is_ascii_alphanumeric_def is_digit_def)

lemma reach_launched:
  "host_reachable hash h \<Longrightarrow> pid \<notin> dm_pid ` set (ho_daemons h) \<Longrightarrow> validate_instance_name name = Inr () \<Longrightarrow>
   acquire_instance_lock name pid (ho_locks h) = Inr locks \<Longrightarrow> validate_targets found canonicalize targets = Inr () \<Longrightarrow>
   h' = \<lparr>ho_locks = locks, ho_daemons = \<lparr>dm_pid = pid, dm_instance = name, dm_todo = targets, dm_mounted = []\<rparr> # ho_daemons h\<rparr> \<Longrightarrow>
   host_reachable hash h'"
  using host_reachable.stepped host_step.launched by blast

lemma reach_mounted:
  "host_reachable hash h \<Longrightarrow> ho_daemons h = ds @ d # es \<Longrightarrow> dm_todo d = t # ts \<Longrightarrow>
   acquire_target_lock hash mounts t (dm_pid d) (ho_locks h) = Inr locks \<Longrightarrow>
   h' = \<lparr>ho_locks = locks, ho_daemons = ds @ (d\<lparr>dm_todo := ts, dm_mounted := dm_mounted d @ [t]\<rparr>) # es\<rparr> \<Longrightarrow>
   host_reachable hash h'"
  using host_reachable.stepped host_step.mounted by blast

lemma both_reachable: "host_reachable (\<lambda>p. 0) both_host"
proof -
  let ?h = "\<lambda>p :: path. 0 :: nat"
  let ?a = "\<lparr>dm_pid = 1, dm_instance = ''a'', dm_todo = [[''x'']], dm_mounted = []\<rparr>"
  let ?b = "\<lparr>dm_pid = 2, dm_instance = ''b'', dm_todo = [[''y'']], dm_mounted = []\<rparr>"
  let ?x = "target_lock_name ?h [''x'']"
  have h1: "host_reachable ?h \<lparr>ho_locks = [(''a.lock'', 1)], ho_daemons = [?a]\<rparr>"
    by (rule reach_launched [OF host_reachable.booted, where found = "\<lambda>p. True" and canonicalize = link_target and
          name = "''a''" and targets = "[[''x'']]" and pid = 1 and locks = "[(''a.lock'', 1)]"])
      (simp_all add: short_names_valid acquire_instance_Inr instance_lock_name_def validate_targets_def)
  have h2: "host_reachable ?h \<lparr>ho_locks = [(?x, 1), (''a.lock'', 1)], ho_daemons = [daemon_a]\<rparr>"
    by (rule reach_mounted [OF h1, where ds = "[]" and es = "[]" and d = ?a and t = "[''x'']" and ts = "[]" and
          locks = "[(?x, 1), (''a.lock'', 1)]" and mounts = None])
      (simp_all add: acquire_target_Inr lock_names daemon_a_def)
  have h3: "host_reachable ?h \<lparr>ho_locks = [(''b.lock'', 2), (?x, 1), (''a.lock'', 1)], ho_daemons = [?b, daemon_a]\<rparr>"
    by (rule reach_launched [OF h2, where found = "\<lambda>p. True" and canonicalize = link_target and
          name = "''b''" and targets = "[[''y'']]" and pid = 2 and locks = "[(''b.lock'', 2), (?x, 1), (''a.lock'', 1)]"])
      (simp_all add: short_names_valid acquire_instance_Inr instance_lock_name_def validate_targets_def lock_names daemon_a_def)
  show ?thesis
    by (rule reach_mounted [OF h3, where ds = "[]" and es = "[daemon_a]" and d = ?b and t = "[''y'']" and ts = "[]" and
          locks = "(target_lock_name ?h [''y''], 2) # [(''b.lock'', 2), (?x, 1), (''a.lock'', 1)]" and mounts = None])
      (simp_all add: acquire_target_Inr lock_names daemon_b_def both_host_def)
qed

theorem daemons_exclusive_witness:
  "daemon_a \<in> set (ho_daemons both_host) \<and> find (\<lambda>d. dm_instance d = ''a'') (ho_daemons both_host) = Some daemon_a"
proof
  show a: "daemon_a \<in> set (ho_daemons both_host)" by (simp add: both_host_def)
  have "find (\<lambda>d. dm_instance d = ''a'') (ho_daemons both_host) \<noteq> None"
    by (simp add: both_host_def daemon_a_def daemon_b_def)
  then obtain d where d: "find (\<lambda>d. dm_instance d = ''a'') (ho_daemons both_host) = Some d" by blast
  then have "d \<in> set (ho_daemons both_host)" "dm_instance d = ''a''" by (auto simp: find_Some_iff)
  then have "d = daemon_a" using daemons_exclusive [OF both_reachable _ a] by (simp add: daemon_a_def)
  with d show "find (\<lambda>d. dm_instance d = ''a'') (ho_daemons both_host) = Some daemon_a" by simp
qed

theorem linked_target_mounted_twice:
  "host_reachable (\<lambda>p. 0) both_host \<and>
   (\<exists>d \<in> set (ho_daemons both_host). \<exists>e \<in> set (ho_daemons both_host). d \<noteq> e \<and>
      (\<exists>s \<in> set (dm_mounted d). \<exists>t \<in> set (dm_mounted e). link_target s = link_target t))"
  using both_reachable by (simp add: both_host_def daemon_a_def daemon_b_def link_target_def)

theorem preset_follows_discovery_policy_witness:
  "cp_should_filter (plex_from_config (minimal_config\<lparr>cf_plex := plex_default\<lparr>xc_process_blocklist := [''scan'']\<rparr>\<rparr>))
     \<lparr>p_pid = 1, p_name = Some ''scan'', p_cmdline = None, p_ancestors = []\<rparr>"
proof (rule preset_follows_discovery_policy)
  let ?c = "minimal_config\<lparr>cf_plex := plex_default\<lparr>xc_process_blocklist := [''scan'']\<rparr>\<rparr>"
  show "choose_preset (\<lambda>s. None :: unit option) (\<lambda>r s. False) ?c = Inr (plex_from_config ?c)"
    by (simp add: choose_preset_def minimal_config_def default_preset_name_def)
  show "policy_should_filter (discovery_process_policy ?c) \<lparr>p_pid = 1, p_name = Some ''scan'', p_cmdline = None, p_ancestors = []\<rparr>"
    by (simp add: discovery_process_policy_def minimal_config_def default_preset_name_def policy_should_filter_def
        is_blocked_by_def matches_any_def plex_default_def matches_opener_def)
qed

end
