(* ===== verification/Server.thy ===== *)
theory Server
  imports Protocol Discovery
begin

text \<open>
  The IPC server's side of a connection (src/src/ipc/server.rs), the client's way to it
  (src/src/ipc/client.rs) and the commands built on it (src/src/main.rs): the greeting, the forwarding
  of the broadcast, the commands of the client, the discovery of running instances and the choice of
  one. The database of the server is the one of the discovery controller: the daemon has one.
\<close>

section \<open>The server\<close>

definition socket_path :: "string \<Rightarrow> path" where
  "socket_path instance_name = [''run'', ''fscache'', instance_name @ ''.sock'']"

definition target_path :: "file_target \<Rightarrow> path" where
  "target_path t = join (ft_mount_id t) (ft_rel_path t)"

text \<open>\<open>sv_evicted\<close>: the paths of the eviction events sent.\<close>

record 'l server =
  sv_disk :: disk
  sv_discovery :: "'l discovery"
  sv_shutdown :: bool
  sv_evicted :: "path list"

abbreviation sv_db :: "'l server \<Rightarrow> cache_db" where
  "sv_db s \<equiv> dc_db (sv_discovery s)"

definition on_db :: "(cache_db \<Rightarrow> cache_db) \<Rightarrow> 'l server \<Rightarrow> 'l server" where
  "on_db f s = s\<lparr>sv_discovery := (sv_discovery s)\<lparr>dc_db := f (sv_db s)\<rparr>\<rparr>"

definition evict_target :: "file_target \<Rightarrow> 'l server \<Rightarrow> 'l server" where
  "evict_target t s =
     (case remove_file (target_path t) (sv_disk s) of
        Inl _ \<Rightarrow> s
      | Inr d \<Rightarrow> on_db (db_remove (ft_rel_path t) (ft_mount_id t))
                  (s\<lparr>sv_disk := d, sv_evicted := sv_evicted s @ [target_path t]\<rparr>))"

definition refresh_target :: "nat \<Rightarrow> file_target \<Rightarrow> 'l server \<Rightarrow> 'l server" where
  "refresh_target now t s = on_db (db_mark_hit now (ft_rel_path t) (ft_mount_id t)) s"

text \<open>A frame of the client; the first result tells whether the connection stays open.\<close>

fun handle_frame :: "'l \<Rightarrow> nat \<Rightarrow> client_message \<Rightarrow> 'l server \<Rightarrow> bool \<times> 'l server" where
  "handle_frame new_lru now Shutdown s = (False, s\<lparr>sv_shutdown := True\<rparr>)"
| "handle_frame new_lru now (EvictFiles files) s = (True, fold evict_target files s)"
| "handle_frame new_lru now (RefreshLease files) s = (True, fold (refresh_target now) files s)"
| "handle_frame new_lru now DiscoveryStart s = (True, s\<lparr>sv_discovery := start new_lru now (sv_discovery s)\<rparr>)"
| "handle_frame new_lru now DiscoveryStop s = (True, s\<lparr>sv_discovery := stop (sv_discovery s)\<rparr>)"

text \<open>What a client is sent: the greeting, the recent log lines, the discovery status, and then the
  broadcast until it says goodbye or closes.\<close>

fun forward :: "daemon_message received list \<Rightarrow> daemon_message list" where
  "forward [] = []"
| "forward (Rx m # rs) = m # (if m = Goodbye then [] else forward rs)"
| "forward (RxLagged n # rs) = forward rs"
| "forward (RxClosed # rs) = []"

definition client_stream :: "hello_payload \<Rightarrow> log_line list \<Rightarrow> bool \<times> int option \<Rightarrow> daemon_message received list \<Rightarrow> daemon_message list" where
  "client_stream hello recent st rs =
     Hello hello # map Log recent @ Event (DiscoveryStatus (fst st) (snd st)) # forward rs"

section \<open>The client\<close>

datatype client_error = UnexpectedFirst daemon_message | ClosedEarly | BadFrame string | ConnectFailed
  | NoInstances | InvalidSelection | OutOfRange | SeveralInstances "string list" | NoDatabase
  | SeveralDatabases "string list" | Disconnected | TimedOut

definition connect :: "(string + daemon_message) list \<Rightarrow> client_error + hello_payload \<times> (string + daemon_message) list" where
  "connect frames =
     (case frames of
        [] \<Rightarrow> Inl ClosedEarly
      | Inl e # _ \<Rightarrow> Inl (BadFrame e)
      | Inr m # rest \<Rightarrow> (case m of Hello h \<Rightarrow> Inr (h, rest) | _ \<Rightarrow> Inl (UnexpectedFirst m)))"

text \<open>\<open>trim_end_matches\<close> strips the suffix as often as it is there.\<close>

function trim_end_matches :: "string \<Rightarrow> string \<Rightarrow> string" where
  "trim_end_matches suf s =
     (if suf \<noteq> [] \<and> ends_with s suf then trim_end_matches suf (take (length s - length suf) s) else s)"
  by auto
termination
  by (relation "measure (\<lambda>(suf, s). length s)")
    (auto simp: ends_with_def min_def not_le intro: diff_less_mono2 simp flip: length_greater_0_conv)

declare trim_end_matches.simps [simp del]

text \<open>The sockets in /run/fscache: the file names, and what the probing connection gave.\<close>

definition discover_from_dir :: "(string \<times> (client_error + hello_payload)) list \<Rightarrow> (string \<times> hello_payload) list" where
  "discover_from_dir entries =
     List.map_filter (\<lambda>(name, probe).
       if ends_with name ''.sock''
       then (case probe of Inl _ \<Rightarrow> None | Inr h \<Rightarrow> Some (trim_end_matches ''.sock'' name, h))
       else None) entries"

section \<open>Commands\<close>

definition parse_usize :: "string \<Rightarrow> nat option" where
  "parse_usize s = parse_unsigned (2 ^ 64) s"

text \<open>\<open>line\<close> is what the user types when asked.\<close>

definition resolve_socket ::
  "string option \<Rightarrow> path option \<Rightarrow> (string \<times> hello_payload) list \<Rightarrow> string \<Rightarrow> client_error + path" where
  "resolve_socket inst socket found line =
     (case socket of
        Some p \<Rightarrow> Inr p
      | None \<Rightarrow>
          (case inst of
             Some name \<Rightarrow> Inr (socket_path name)
           | None \<Rightarrow>
               (case found of
                  [] \<Rightarrow> Inl NoInstances
                | [(name, _)] \<Rightarrow> Inr (socket_path name)
                | _ \<Rightarrow>
                    (case parse_usize (trim line) of
                       None \<Rightarrow> Inl InvalidSelection
                     | Some choice \<Rightarrow>
                         if choice < 1 \<or> choice > length found then Inl OutOfRange
                         else Inr (socket_path (fst (found ! (choice - 1))))))))"

text \<open>\<open>stems\<close>: the stems of the .db files of the database directory.\<close>

definition resolve_instance_name ::
  "string option \<Rightarrow> (string \<times> hello_payload) list \<Rightarrow> string list \<Rightarrow> client_error + string" where
  "resolve_instance_name inst found stems =
     (case inst of
        Some name \<Rightarrow> Inr name
      | None \<Rightarrow>
          (case found of
             [(name, _)] \<Rightarrow> Inr name
           | _ # _ # _ \<Rightarrow> Inl (SeveralInstances (map fst found))
           | [] \<Rightarrow>
               (case stems of
                  [] \<Rightarrow> Inl NoDatabase
                | [s] \<Rightarrow> Inr s
                | _ \<Rightarrow> Inl (SeveralDatabases stems))))"

text \<open>What each wait of at most three seconds for a message gives; \<open>None\<close> is to wait on.\<close>

datatype wait_result = Msg daemon_message | Broken string | Eof | Timeout

fun recv_discovery_status :: "wait_result list \<Rightarrow> (client_error + bool \<times> int option) option" where
  "recv_discovery_status [] = None"
| "recv_discovery_status (Timeout # ws) = Some (Inl TimedOut)"
| "recv_discovery_status (Eof # ws) = Some (Inl Disconnected)"
| "recv_discovery_status (Broken e # ws) = Some (Inl (BadFrame e))"
| "recv_discovery_status (Msg Goodbye # ws) = Some (Inl Disconnected)"
| "recv_discovery_status (Msg (Event (DiscoveryStatus b t)) # ws) = Some (Inr (b, t))"
| "recv_discovery_status (Msg m # ws) = recv_discovery_status ws"

definition format_recording :: "(nat \<Rightarrow> string) \<Rightarrow> nat \<Rightarrow> bool \<Rightarrow> int option \<Rightarrow> string" where
  "format_recording format_duration now enabled started_at =
     (if \<not> enabled then ''Recording: off''
      else (case started_at of
              None \<Rightarrow> ''Recording: on''
            | Some a \<Rightarrow> ''Recording: on (started '' @ format_duration (max0_u64 (as_i64 (as_u64 (as_i64 now - a)))) @ '' ago)''))"

text \<open>The rows \<open>discover stat\<close> prints; \<open>window\<close> is the parsed duration in seconds.\<close>

definition stat_rows :: "nat \<Rightarrow> nat option \<Rightarrow> string option \<Rightarrow> nat \<Rightarrow> cache_db \<Rightarrow> process_summary list option" where
  "stat_rows now window kind limit db =
     top_processes (as_i64 (as_u64 (as_i64 now - as_i64 (case window of None \<Rightarrow> 86400 | Some w \<Rightarrow> w)))) kind limit db"

section \<open>Evicting and refreshing\<close>

lemma server_db_simps [simp]:
  "sv_disk (on_db f s) = sv_disk s" "sv_db (on_db f s) = f (sv_db s)" "sv_evicted (on_db f s) = sv_evicted s"
  by (simp_all add: on_db_def)

lemma evict_target_cases:
  "evict_target t s =
     (if evictable (sv_disk s) (target_path t)
      then on_db (db_remove (ft_rel_path t) (ft_mount_id t))
             (s\<lparr>sv_disk := unlink_node (target_path t) (sv_disk s), sv_evicted := sv_evicted s @ [target_path t]\<rparr>)
      else s)"
proof (cases "evictable (sv_disk s) (target_path t)")
  case True
  then show ?thesis by (simp add: evict_target_def remove_file_evictable)
next
  case False
  then obtain e where "remove_file (target_path t) (sv_disk s) = Inl e" using remove_file_not_evictable by blast
  with False show ?thesis by (simp add: evict_target_def)
qed

definition evicted_targets :: "disk \<Rightarrow> file_target list \<Rightarrow> file_target set" where
  "evicted_targets d ts = {t \<in> set ts. evictable d (target_path t)}"

lemma evictable_nonempty: "evictable d p \<Longrightarrow> p \<noteq> []"
  by (auto simp: evictable_def is_file_at_def file_at_def node_at_def)

lemma writable_remove [simp]: "writable (db_remove rel m db) = writable db"
  unfolding db_remove_def execute_def writable_def by simp

lemma evict_all:
  assumes "inj_on target_path (set ts)" and "writable (sv_db s)"
  shows "node_at (sv_disk (fold evict_target ts s)) q =
      (if q \<in> target_path ` evicted_targets (sv_disk s) ts then None else node_at (sv_disk s) q) \<and>
    find_row rel m (sv_db (fold evict_target ts s)) =
      (if \<exists>t \<in> evicted_targets (sv_disk s) ts. rel = ft_rel_path t \<and> m = ft_mount_id t then None else find_row rel m (sv_db s))"
  using assms
proof (induction ts arbitrary: s)
  case Nil
  show ?case by (simp add: evicted_targets_def)
next
  case (Cons t ts)
  show ?case
  proof (cases "evictable (sv_disk s) (target_path t)")
    case False
    then have "evicted_targets (sv_disk s) (t # ts) = evicted_targets (sv_disk s) ts" by (auto simp: evicted_targets_def)
    then show ?thesis using Cons.IH [of s] Cons.prems False by (simp add: evict_target_cases inj_on_def)
  next
    case True
    let ?s = "evict_target t s"
    have ne: "target_path t \<noteq> []" using True by (rule evictable_nonempty)
    have rest: "evicted_targets (sv_disk ?s) ts = {x \<in> set ts. target_path x \<noteq> target_path t \<and> evictable (sv_disk s) (target_path x)}"
      using True ne by (auto simp: evict_target_cases evicted_targets_def evictable_unlink)
    have all: "evicted_targets (sv_disk s) (t # ts) = insert t (evicted_targets (sv_disk ?s) ts)"
    proof -
      have "x = t" if "x \<in> set ts" "target_path x = target_path t" for x
        using Cons.prems(1) that by (auto simp: inj_on_def)
      then show ?thesis using True unfolding rest by (auto simp: evicted_targets_def)
    qed
    have disk: "node_at (sv_disk ?s) q = (if q = target_path t then None else node_at (sv_disk s) q)"
      using True ne by (simp add: evict_target_cases node_at_unlink)
    have row: "find_row rel m (sv_db ?s) = (if rel = ft_rel_path t \<and> m = ft_mount_id t then None else find_row rel m (sv_db s))"
      using True Cons.prems(2) by (simp add: evict_target_cases find_row_remove)
    have "inj_on target_path (set ts)" "writable (sv_db ?s)" using Cons.prems True by (auto simp: evict_target_cases inj_on_def)
    note IH = Cons.IH [OF this]
    have step: "fold evict_target (t # ts) s = fold evict_target ts ?s" by simp
    show ?thesis unfolding all step
    proof
      show "node_at (sv_disk (fold evict_target ts ?s)) q =
          (if q \<in> target_path ` insert t (evicted_targets (sv_disk ?s) ts) then None else node_at (sv_disk s) q)"
        by (subst conjunct1 [OF IH], subst disk) auto
      show "find_row rel m (sv_db (fold evict_target ts ?s)) =
          (if \<exists>x \<in> insert t (evicted_targets (sv_disk ?s) ts). rel = ft_rel_path x \<and> m = ft_mount_id x then None
           else find_row rel m (sv_db s))"
        by (subst conjunct2 [OF IH], subst row) auto
    qed
  qed
qed

text \<open>A client's eviction removes exactly what it names and the kernel lets go of: each such file leaves
  the disk together with its row, a file that cannot be deleted keeps its row, and no other file and no
  other row changes.\<close>

theorem manual_eviction_exact:
  assumes "inj_on target_path (set ts)" and "writable (sv_db s)"
  shows "\<exists>s'. handle_frame new_lru now (EvictFiles ts) s = (True, s') \<and>
    (\<forall>q. node_at (sv_disk s') q =
       (if q \<in> target_path ` evicted_targets (sv_disk s) ts then None else node_at (sv_disk s) q)) \<and>
    (\<forall>rel m. find_row rel m (sv_db s') =
       (if \<exists>t \<in> evicted_targets (sv_disk s) ts. rel = ft_rel_path t \<and> m = ft_mount_id t then None
        else find_row rel m (sv_db s)))"
  using evict_all [OF assms] by simp

section \<open>Commands and their answers\<close>

text \<open>A command to arm or disarm the recording is answered with the new status exactly if it changes
  anything. The command-line client waits for an answer, so it runs into its timeout when the recording is
  already as asked.\<close>

theorem toggle_answered_on_change:
  "dc_statuses (sv_discovery (snd (handle_frame new_lru now DiscoveryStart s))) =
     dc_statuses (sv_discovery s) @ (if dc_enabled (sv_discovery s) then [] else [(True, Some (as_i64 now))]) \<and>
   dc_statuses (sv_discovery (snd (handle_frame new_lru now DiscoveryStop s))) =
     dc_statuses (sv_discovery s) @ (if dc_enabled (sv_discovery s) then [(False, None)] else [])"
  by (simp add: start_def stop_def broadcast_status_def status_def split: option.splits)

text \<open>Telemetry that arrives in time keeps the client waiting for as long as it arrives.\<close>

fun other_message :: "wait_result \<Rightarrow> bool" where
  "other_message (Msg Goodbye) = False"
| "other_message (Msg (Event (DiscoveryStatus b t))) = False"
| "other_message (Msg m) = True"
| "other_message _ = False"

theorem unanswered_client_waits_on:
  "list_all other_message ws \<Longrightarrow> recv_discovery_status ws = None"
  by (induction ws rule: recv_discovery_status.induct) auto

section \<open>A watching client\<close>

fun log_of :: "daemon_message \<Rightarrow> log_line list" where
  "log_of (Log l) = [l]"
| "log_of _ = []"

definition logs_of :: "daemon_message list \<Rightarrow> log_line list" where
  "logs_of ms = concat (map log_of ms)"

lemma logs_of_simps [simp]:
  "logs_of [] = []" "logs_of (m # ms) = log_of m @ logs_of ms" "logs_of (ms @ ns) = logs_of ms @ logs_of ns"
  by (simp_all add: logs_of_def)

lemma logs_of_map [simp]: "logs_of (map Log ls) = ls"
  by (induction ls) auto

lemma apply_event_logs [simp]: "da_recent_logs (apply_event t e d) = da_recent_logs d"
  by (cases e) (auto simp: remove_active_copy_def split: option.splits)

lemma client_stream_logs:
  "da_recent_logs d = last_n 200 ls \<Longrightarrow>
   da_recent_logs (snd (run_client_stream (map (\<lambda>f. (fst f, Inr (snd f))) fs) d)) =
     last_n 200 (ls @ logs_of (takeWhile (\<lambda>m. m \<noteq> Goodbye) (map snd fs)))"
proof (induction fs arbitrary: d ls)
  case Nil
  then show ?case by simp
next
  case (Cons f fs)
  show ?case
  proof (cases "snd f")
    case (Log l)
    have "da_recent_logs (push_log l d) = last_n 200 (ls @ [l])"
      using Cons.prems push_bounded_last_n [of 200 ls l] by (simp add: push_log_def)
    from Cons.IH [OF this] show ?thesis using Log by simp
  qed (use Cons in auto)
qed

lemma forward_goodbye: "logs_of (takeWhile (\<lambda>m. m \<noteq> Goodbye) (forward rs)) = logs_of (forward rs)"
  by (induction rs rule: forward.induct) auto

lemma takeWhile_logs: "takeWhile (\<lambda>m. m \<noteq> Goodbye) (map Log ls @ ms) = map Log ls @ takeWhile (\<lambda>m. m \<noteq> Goodbye) ms"
  by (induction ls) auto

text \<open>C31. What a watching client shows of the log: it connects, and shows the last two hundred of the lines
  the ring held when it came (itself the last hundred of all lines before) followed by those broadcast
  since, up to the daemon's goodbye.\<close>

theorem watch_session_log:
  assumes "map snd fs = tl (client_stream hello (recent_logs_loop before []) st rs)"
  shows "connect (map Inr (client_stream hello (recent_logs_loop before []) st rs)) = Inr (hello, map (Inr \<circ> snd) fs) \<and>
    da_recent_logs (snd (run_client_stream (map (\<lambda>f. (fst f, Inr (snd f))) fs) (dashboard_new (hp_config hello)))) =
      last_n 200 (last_n RECENT_LOG_CAP (logs_received before) @ logs_of (forward rs))"
proof
  show "connect (map Inr (client_stream hello (recent_logs_loop before []) st rs)) = Inr (hello, map (Inr \<circ> snd) fs)"
    using assms by (simp add: connect_def client_stream_def) (metis list.map_comp map_append list.simps(9))
  have "da_recent_logs (dashboard_new (hp_config hello)) = last_n 200 []" by (simp add: dashboard_new_def)
  from client_stream_logs [OF this, of fs] assms
  show "da_recent_logs (snd (run_client_stream (map (\<lambda>f. (fst f, Inr (snd f))) fs) (dashboard_new (hp_config hello)))) =
      last_n 200 (last_n RECENT_LOG_CAP (logs_received before) @ logs_of (forward rs))"
    by (simp add: client_stream_def takeWhile_logs forward_goodbye recent_logs_refine)
qed

section \<open>Finding instances\<close>

lemma ends_with_last: "ends_with s t \<Longrightarrow> c \<in> set t \<Longrightarrow> c \<in> set s"
  by (metis ends_with_def in_set_dropD)

lemma instance_char_dot: "\<not> instance_char (CHR ''.'')"
  by (simp add: instance_char_def is_ascii_alphanumeric_def is_digit_def code_of_def)

lemma valid_name_no_dot: "list_all instance_char n \<Longrightarrow> CHR ''.'' \<notin> set n"
  using instance_char_dot by (auto simp: list_all_iff)

lemma trim_sock:
  assumes "CHR ''.'' \<notin> set n"
  shows "trim_end_matches ''.sock'' (n @ ''.sock'') = n"
proof -
  have "\<not> ends_with n ''.sock''" using assms ends_with_last [of n "''.sock''" "CHR ''.''"] by auto
  then show ?thesis by (simp add: trim_end_matches.simps [of _ "n @ _"] trim_end_matches.simps [of _ n])
qed

lemma lock_not_sock: "\<not> ends_with (n @ ''.lock'') ''.sock''"
proof -
  have "drop (length (n @ ''.lock'') - length ''.sock'') (n @ ''.lock'') = ''.lock''" by simp
  then show ?thesis unfolding ends_with_def by simp
qed

text \<open>A running instance is found under its own name: the file name of its socket gives the name back,
  and the lock files in the same directory are not taken for instances.\<close>

theorem instance_found_by_name:
  assumes "validate_instance_name name = Inr ()"
  shows "discover_from_dir [(instance_name @ ''.lock'', p), (last (socket_path name), Inr h)] = [(name, h)]"
  using trim_sock [OF valid_name_no_dot] validate_Inr [OF assms] lock_not_sock
  by (simp add: discover_from_dir_def socket_path_def map_filter_simps)

definition sample_hello :: hello_payload where
  "sample_hello = \<lparr>hp_version = [], hp_instance_name = ''a'', hp_mounts = [], hp_db_path = [], hp_config = minimal_config\<rparr>"

theorem instance_found_by_name_witness:
  "discover_from_dir [(''b.lock'', Inl ConnectFailed), (last (socket_path ''a''), Inr sample_hello)] = [(''a'', sample_hello)]"
proof -
  have "validate_instance_name ''a'' = Inr ()"
    by (simp add: validate_instance_name_def trim_def is_space_def code_of_def instance_char_def
        is_ascii_alphanumeric_def is_digit_def)
  from instance_found_by_name [OF this, of "''b''" "Inl ConnectFailed" sample_hello] show ?thesis by simp
qed

definition sample_server :: "unit server" where
  "sample_server = \<lparr>sv_disk = \<lparr>ents = [([''c''], DDir), ([''c'', ''f''], DFile \<lparr>f_data = [], f_mode = 0, f_uid = 0, f_gid = 0,
       f_atime = (0, 0), f_mtime = (0, 0)\<rparr>)], stuck = []\<rparr>,
     sv_discovery = discovery_new db_empty, sv_shutdown = False, sv_evicted = []\<rparr>"

theorem manual_eviction_exact_witness:
  "\<exists>s'. handle_frame () 0 (EvictFiles [\<lparr>ft_rel_path = [''f''], ft_mount_id = [''c'']\<rparr>]) sample_server = (True, s') \<and>
     node_at (sv_disk s') [''c'', ''f''] = None \<and> node_at (sv_disk s') [''c''] = Some DDir"
proof -
  let ?ts = "[\<lparr>ft_rel_path = [''f''], ft_mount_id = [''c'']\<rparr>]"
  have "writable (sv_db sample_server)" by (simp add: sample_server_def discovery_new_def writable_def db_empty_def)
  then obtain s' where s': "handle_frame () 0 (EvictFiles ?ts) sample_server = (True, s')"
      "\<forall>q. node_at (sv_disk s') q =
         (if q \<in> target_path ` evicted_targets (sv_disk sample_server) ?ts then None else node_at (sv_disk sample_server) q)"
    using manual_eviction_exact [of ?ts sample_server "()" 0] by auto
  moreover have "evicted_targets (sv_disk sample_server) ?ts = set ?ts"
    by (auto simp: evicted_targets_def evictable_def is_file_at_def file_at_def node_at_def target_path_def sample_server_def)
  ultimately show ?thesis by (simp add: target_path_def) (simp add: sample_server_def node_at_def)
qed

theorem watch_session_log_witness:
  "da_recent_logs (snd (run_client_stream
     [(1, Inr (Log \<lparr>ll_timestamp = [], ll_level = ''INFO '', ll_message = ''a''\<rparr>)),
      (2, Inr (Event (DiscoveryStatus False None))), (3, Inr Goodbye)] (dashboard_new minimal_config))) =
   [\<lparr>ll_timestamp = [], ll_level = ''INFO '', ll_message = ''a''\<rparr>]"
  using watch_session_log [of "[(1, Log \<lparr>ll_timestamp = [], ll_level = ''INFO '', ll_message = ''a''\<rparr>),
      (2, Event (DiscoveryStatus False None)), (3, Goodbye)]" sample_hello
      "[Rx (Log \<lparr>ll_timestamp = [], ll_level = ''INFO '', ll_message = ''a''\<rparr>)]" "(False, None)" "[Rx Goodbye]"]
  by (simp add: client_stream_def push_bounded_def RECENT_LOG_CAP_def last_n_def sample_hello_def)

end
