(* ===== verification/DbSchema.thy ===== *)
theory DbSchema
  imports CacheDb
begin

text \<open>
  Opening the database (src/src/cache/db.rs, open_with_config and open_readonly_with_config):
  creation of the tables, the additive migrations, and the connection settings. A table on disk is
  its column list with rows that give each column a value; opening decodes cache_files into the
  rows the rest of the development works on.
\<close>

section \<open>Connection settings\<close>

definition sat_i64 :: "int \<Rightarrow> int" where
  "sat_i64 i = (if i < - (2 ^ 63) then - (2 ^ 63) else if i \<ge> 2 ^ 63 then 2 ^ 63 - 1 else i)"

record pragmas =
  pg_cache_size :: int
  pg_mmap_size :: int
  pg_busy_timeout_ms :: nat
  pg_query_only :: bool
  pg_wal :: bool

definition SQLITE_BUSY_TIMEOUT_MS :: nat where
  "SQLITE_BUSY_TIMEOUT_MS = 1000"

definition apply_common_pragmas :: "u32 \<Rightarrow> pragmas \<Rightarrow> pragmas" where
  "apply_common_pragmas cache_size_mb p =
     p\<lparr>pg_cache_size := - sat_i64 (uint cache_size_mb * 1024),
       pg_mmap_size := sat_i64 (uint cache_size_mb * (1024 * 1024)),
       pg_busy_timeout_ms := SQLITE_BUSY_TIMEOUT_MS\<rparr>"

section \<open>Tables on disk\<close>

datatype sql_value = SqlInt int | SqlText path

record raw_table =
  rt_columns :: "string list"
  rt_rows :: "(string \<times> sql_value) list list"

definition base_columns :: "string list" where
  "base_columns = [''rel_path'', ''mount_id'', ''size_bytes'', ''cached_at'', ''last_hit_at'', ''hit_count'']"

definition migrations :: "string list" where
  "migrations = [''hit_count'', ''source_mtime_secs'', ''source_mtime_nsecs'', ''source_size_bytes'',
     ''source_blocks'', ''source_atime_sec'', ''source_atime_nsec'', ''source_ctime_sec'',
     ''source_ctime_nsec'', ''source_mode'', ''source_nlink'', ''source_uid'', ''source_gid'',
     ''source_rdev'', ''source_blksize'']"

text \<open>CREATE TABLE IF NOT EXISTS, then ALTER TABLE ADD COLUMN with the error for an existing column
  ignored.\<close>

definition create_if_absent :: "raw_table option \<Rightarrow> raw_table" where
  "create_if_absent t = (case t of None \<Rightarrow> \<lparr>rt_columns = base_columns, rt_rows = []\<rparr> | Some t \<Rightarrow> t)"

definition add_column :: "string \<Rightarrow> raw_table \<Rightarrow> raw_table" where
  "add_column c t =
     (if c \<in> set (rt_columns t) then t
      else \<lparr>rt_columns = rt_columns t @ [c], rt_rows = map (\<lambda>r. r @ [(c, SqlInt 0)]) (rt_rows t)\<rparr>)"

definition migrate :: "raw_table \<Rightarrow> raw_table" where
  "migrate t = fold add_column migrations t"

definition int_col :: "(string \<times> sql_value) list \<Rightarrow> string \<Rightarrow> int" where
  "int_col r c = (case map_of r c of Some (SqlInt i) \<Rightarrow> i | _ \<Rightarrow> 0)"

definition text_col :: "(string \<times> sql_value) list \<Rightarrow> string \<Rightarrow> path" where
  "text_col r c = (case map_of r c of Some (SqlText p) \<Rightarrow> p | _ \<Rightarrow> [])"

definition decode_row :: "(string \<times> sql_value) list \<Rightarrow> cache_row" where
  "decode_row r =
     \<lparr>r_rel_path = text_col r ''rel_path'', r_mount_id = text_col r ''mount_id'',
      r_size_bytes = int_col r ''size_bytes'', r_cached_at = int_col r ''cached_at'',
      r_last_hit_at = int_col r ''last_hit_at'', r_hit_count = int_col r ''hit_count'',
      r_source = \<lparr>c_mtime_secs = int_col r ''source_mtime_secs'',
        c_mtime_nsecs = int_col r ''source_mtime_nsecs'', c_size_bytes = int_col r ''source_size_bytes'',
        c_blocks = int_col r ''source_blocks'', c_atime_sec = int_col r ''source_atime_sec'',
        c_atime_nsec = int_col r ''source_atime_nsec'', c_ctime_sec = int_col r ''source_ctime_sec'',
        c_ctime_nsec = int_col r ''source_ctime_nsec'', c_mode = int_col r ''source_mode'',
        c_nlink = int_col r ''source_nlink'', c_uid = int_col r ''source_uid'',
        c_gid = int_col r ''source_gid'', c_rdev = int_col r ''source_rdev'',
        c_blksize = int_col r ''source_blksize''\<rparr>\<rparr>"

record db_file =
  dbf_cache_files :: "raw_table option"
  dbf_deferred :: "deferred_row list"
  dbf_access :: "access_row list"

definition default_pragmas :: pragmas where
  "default_pragmas = \<lparr>pg_cache_size = -2000, pg_mmap_size = 0, pg_busy_timeout_ms = 0,
     pg_query_only = False, pg_wal = False\<rparr>"

definition open_with_config :: "u32 \<Rightarrow> db_file \<Rightarrow> pragmas \<times> raw_table \<times> cache_db" where
  "open_with_config cache_size_mb f =
     (let pg = apply_common_pragmas cache_size_mb (default_pragmas\<lparr>pg_wal := True\<rparr>);
          t = migrate (create_if_absent (dbf_cache_files f))
      in (pg, t, \<lparr>cache_files = map decode_row (rt_rows t), deferred_events = dbf_deferred f,
                  process_access = dbf_access f, db_usable = True, db_query_only = pg_query_only pg\<rparr>))"

text \<open>The read-only connection does not migrate; it sees the table the daemon's open has left.\<close>

definition open_readonly_with_config :: "u32 \<Rightarrow> cache_db \<Rightarrow> pragmas \<times> cache_db" where
  "open_readonly_with_config cache_size_mb db =
     (let pg = apply_common_pragmas cache_size_mb (default_pragmas\<lparr>pg_query_only := True\<rparr>)
      in (pg, db\<lparr>db_query_only := pg_query_only pg\<rparr>))"

section \<open>Lemmas\<close>

definition raw_ok :: "raw_table \<Rightarrow> bool" where
  "raw_ok t = list_all (\<lambda>r. map fst r = rt_columns t) (rt_rows t)"

lemma raw_ok_add: "raw_ok t \<Longrightarrow> raw_ok (add_column c t)"
  by (auto simp: raw_ok_def add_column_def list_all_iff)

lemma raw_ok_fold: "raw_ok t \<Longrightarrow> raw_ok (fold add_column cs t)"
  by (induction cs arbitrary: t) (auto intro: raw_ok_add)

lemma columns_fold: "set (rt_columns (fold add_column cs t)) = set (rt_columns t) \<union> set cs"
  by (induction cs arbitrary: t) (auto simp: add_column_def)

lemma fold_add_present: "set cs \<subseteq> set (rt_columns t) \<Longrightarrow> fold add_column cs t = t"
  by (induction cs arbitrary: t) (auto simp: add_column_def)

lemma int_col_append_0: "map_of r c' = None \<Longrightarrow> int_col (r @ [(c', SqlInt 0)]) c = int_col r c"
  by (auto simp: int_col_def map_add_def split: option.splits)

lemma text_col_append: "text_col (r @ [(c', SqlInt 0)]) c = text_col r c"
  by (auto simp: text_col_def map_add_def split: option.splits)

lemma decode_append: "map_of r c' = None \<Longrightarrow> decode_row (r @ [(c', SqlInt 0)]) = decode_row r"
  by (simp only: decode_row_def int_col_append_0 text_col_append)

lemma decode_add:
  assumes "raw_ok t"
  shows "map decode_row (rt_rows (add_column c t)) = map decode_row (rt_rows t)"
proof (cases "c \<in> set (rt_columns t)")
  case True
  then show ?thesis by (simp add: add_column_def)
next
  case False
  have "decode_row (r @ [(c, SqlInt 0)]) = decode_row r" if "r \<in> set (rt_rows t)" for r
  proof (rule decode_append)
    have "map fst r = rt_columns t" using assms that by (simp add: raw_ok_def list_all_iff)
    with False show "map_of r c = None" by (metis list.set_map map_of_eq_None_iff)
  qed
  with False show ?thesis by (simp add: add_column_def)
qed

lemma decode_fold: "raw_ok t \<Longrightarrow> map decode_row (rt_rows (fold add_column cs t)) = map decode_row (rt_rows t)"
  by (induction cs arbitrary: t) (simp_all add: raw_ok_add decode_add)

text \<open>Opening a database written by any earlier version keeps every row with its values; the
  columns that version did not have read as zero, every column the statements name exists
  afterwards, and opening again changes nothing.\<close>

theorem open_migrates:
  assumes "dbf_cache_files f = Some t" and "raw_ok t"
    and "open_with_config mb f = (pg, t', db)"
  shows "cache_files db = map decode_row (rt_rows t) \<and> set migrations \<subseteq> set (rt_columns t') \<and>
    set (rt_columns t) \<subseteq> set (rt_columns t') \<and> migrate t' = t'"
proof -
  have t': "t' = fold add_column migrations t" and db: "cache_files db = map decode_row (rt_rows t')"
    using assms(1,3) by (auto simp: open_with_config_def create_if_absent_def migrate_def Let_def)
  have "set migrations \<subseteq> set (rt_columns t')" "set (rt_columns t) \<subseteq> set (rt_columns t')"
    unfolding t' columns_fold by simp_all
  moreover from this(1) have "migrate t' = t'" unfolding migrate_def by (rule fold_add_present)
  moreover have "cache_files db = map decode_row (rt_rows t)"
    unfolding db t' by (rule decode_fold [OF assms(2)])
  ultimately show ?thesis by blast
qed

text \<open>A read-only connection never changes the database, whatever statement is sent.\<close>

theorem readonly_never_writes:
  assumes "db_step (snd (open_readonly_with_config mb db)) db'"
  shows "cache_files db' = cache_files db \<and> deferred_events db' = deferred_events db \<and>
    process_access db' = process_access db"
proof -
  let ?ro = "snd (open_readonly_with_config mb db)"
  have q: "db_query_only ?ro" and same: "cache_files ?ro = cache_files db"
    "deferred_events ?ro = deferred_events db" "process_access ?ro = process_access db"
    by (simp_all add: open_readonly_with_config_def Let_def apply_common_pragmas_def)
  have "\<not> writable ?ro" using q by (simp add: writable_def)
  then have "execute f ?ro = ?ro" for f by simp
  with assms q same show ?thesis
    by cases
      (auto simp: db_mark_cached_def db_update_source_metadata_def db_mark_hit_def db_remove_def
        save_deferred_def remove_deferred_def upsert_process_access_def prune_process_access_def
        recover_file_def Let_def split: if_splits option.splits)
qed

section \<open>Instances\<close>

definition legacy_row :: "(string \<times> sql_value) list" where
  "legacy_row = [(''rel_path'', SqlText [''a'']), (''mount_id'', SqlText [''m'']), (''size_bytes'', SqlInt 5),
     (''cached_at'', SqlInt 10), (''last_hit_at'', SqlInt 20)]"

definition legacy_file :: db_file where
  "legacy_file = \<lparr>dbf_cache_files = Some \<lparr>rt_columns = map fst legacy_row, rt_rows = [legacy_row]\<rparr>,
     dbf_deferred = [], dbf_access = []\<rparr>"

theorem open_migrates_witness:
  "map r_last_hit_at (cache_files (snd (snd (open_with_config 64 legacy_file)))) = [20]"
  using open_migrates [of legacy_file "\<lparr>rt_columns = map fst legacy_row, rt_rows = [legacy_row]\<rparr>" 64
      "fst (open_with_config 64 legacy_file)" "fst (snd (open_with_config 64 legacy_file))"
      "snd (snd (open_with_config 64 legacy_file))"]
  by (simp add: legacy_file_def raw_ok_def decode_row_def int_col_def legacy_row_def)

theorem readonly_never_writes_witness:
  "cache_files (db_remove [''a''] [''m''] (snd (open_readonly_with_config 16 sample_db))) = cache_files sample_db"
  using readonly_never_writes [OF step_remove [of "snd (open_readonly_with_config 16 sample_db)" "[''a'']" "[''m'']"]]
  by simp

text \<open>A row written before the migrations has no snapshot and a zero modification time, which the
  cache manager treats as in need of a backfill.\<close>

lemma legacy_needs_backfill:
  "find_row rel m db = Some (decode_row legacy_row) \<Longrightarrow>
   source_metadata_row rel m db = None \<and> fingerprint_row rel m db = Some \<lparr>fp_mtime_secs = 0, fp_mtime_nsecs = 0, fp_size_bytes = 5\<rparr>"
  by (simp add: source_metadata_row_def fingerprint_row_def row_fingerprint_def decode_row_def int_col_def
      legacy_row_def metadata_of_def has_snapshot_def max0_u32_def max0_u64_def)

end
