(* ===== verification/Tui.thy ===== *)
theory Tui
  imports Protocol
begin

text \<open>
  The monitoring dashboard (src/src/tui/app.rs, state.rs, ui.rs): the pages, the list of cached files
  and its orders, the polling of the database, the keys and the commands they send, and the part of
  the rendering that computes: which rows of the list are shown, and the texts for paths and times.
  Drawing itself is third-party code.
\<close>

section \<open>Pages and orders\<close>

datatype cache_sort = Newest | Oldest | Largest | Smallest | NameAz

fun sort_next :: "cache_sort \<Rightarrow> cache_sort" where
  "sort_next Newest = Oldest"
| "sort_next Oldest = Largest"
| "sort_next Largest = Smallest"
| "sort_next Smallest = NameAz"
| "sort_next NameAz = Newest"

fun sort_label :: "cache_sort \<Rightarrow> string" where
  "sort_label Newest = ''newest''"
| "sort_label Oldest = ''oldest''"
| "sort_label Largest = ''largest''"
| "sort_label Smallest = ''smallest''"
| "sort_label NameAz = ''name A-Z''"

datatype page = StatusPage | CachePage | CacheIoPage | LogsPage

fun page_next :: "page \<Rightarrow> page" where
  "page_next StatusPage = CachePage"
| "page_next CachePage = CacheIoPage"
| "page_next CacheIoPage = LogsPage"
| "page_next LogsPage = StatusPage"

fun page_prev :: "page \<Rightarrow> page" where
  "page_prev StatusPage = LogsPage"
| "page_prev CachePage = StatusPage"
| "page_prev CacheIoPage = CachePage"
| "page_prev LogsPage = CacheIoPage"

text \<open>sort_by is stable; descending comparisons swap their arguments.\<close>

fun sort_refs :: "cache_sort \<Rightarrow> cached_file_info list \<Rightarrow> cached_file_info list" where
  "sort_refs Newest fs = sort_key (\<lambda>f. - int (ci_cached_at f)) fs"
| "sort_refs Oldest fs = sort_key ci_cached_at fs"
| "sort_refs Largest fs = sort_key (\<lambda>f. - int (ci_size_bytes f)) fs"
| "sort_refs Smallest fs = sort_key ci_size_bytes fs"
| "sort_refs NameAz fs = sort_key ci_path fs"

definition get_at :: "'a list \<Rightarrow> nat \<Rightarrow> 'a option" where
  "get_at xs i = (if i < length xs then Some (xs ! i) else None)"

text \<open>A set of paths is a list without repetitions.\<close>

definition toggle_checked_at :: "cached_file_info list \<Rightarrow> nat \<Rightarrow> cache_sort \<Rightarrow> path list \<Rightarrow> path list" where
  "toggle_checked_at files i srt checked =
     (case get_at (sort_refs srt files) i of
        None \<Rightarrow> checked
      | Some f \<Rightarrow> if ci_path f \<in> set checked then removeAll (ci_path f) checked else ci_path f # checked)"

definition target_of :: "cached_file_info \<Rightarrow> file_target" where
  "target_of f = \<lparr>ft_rel_path = ci_path f, ft_mount_id = ci_mount_id f\<rparr>"

definition build_targets :: "cached_file_info list \<Rightarrow> path list \<Rightarrow> nat \<Rightarrow> cache_sort \<Rightarrow> file_target list" where
  "build_targets files checked sel srt =
     (if checked = [] then (case get_at (sort_refs srt files) sel of None \<Rightarrow> [] | Some f \<Rightarrow> [target_of f])
      else map target_of (filter (\<lambda>f. ci_path f \<in> set checked) (sort_refs srt files)))"

section \<open>Polling\<close>

text \<open>The eviction time of a file: a SystemTime that leaves its range panics, which is \<open>None\<close>.\<close>

definition time_plus :: "nat \<Rightarrow> nat \<Rightarrow> nat option" where
  "time_plus t d = (if t + d < 2 ^ 63 then Some (t + d) else None)"

fun file_infos :: "nat \<Rightarrow> path \<Rightarrow> (path \<times> nat \<times> nat \<times> nat) list \<Rightarrow> cached_file_info list option" where
  "file_infos expiry mount [] = Some []"
| "file_infos expiry mount ((p, sz, cached, hit) # fs) =
     (case time_plus hit expiry of
        None \<Rightarrow> None
      | Some t \<Rightarrow> map_option (\<lambda>xs. \<lparr>ci_path = p, ci_size_bytes = sz, ci_cached_at = cached, ci_last_hit_at = hit,
                   ci_evicts_at = t, ci_mount_id = mount\<rparr> # xs) (file_infos expiry mount fs))"

record poll_totals =
  po_used :: nat
  po_files :: nat
  po_free :: "nat option"
  po_infos :: "cached_file_info list"

fun poll_mounts :: "nat \<Rightarrow> (path \<Rightarrow> nat option) \<Rightarrow> cache_db \<Rightarrow> path list \<Rightarrow> poll_totals \<Rightarrow> poll_totals option" where
  "poll_mounts expiry free_space db [] po = Some po"
| "poll_mounts expiry free_space db (m # ms) po =
     (case client_files_for_mount m db of (used, files) \<Rightarrow>
        (case file_infos expiry m files of
           None \<Rightarrow> None
         | Some infos \<Rightarrow> poll_mounts expiry free_space db ms
             \<lparr>po_used = add64 (po_used po) used, po_files = po_files po + length files,
              po_free = (case free_space m of
                           None \<Rightarrow> po_free po
                         | Some f \<Rightarrow> Some (case po_free po of None \<Rightarrow> f | Some p \<Rightarrow> min p f)),
              po_infos = po_infos po @ infos\<rparr>))"

definition poll_cache_stats :: "(path \<Rightarrow> nat option) \<Rightarrow> cache_db \<Rightarrow> path list \<Rightarrow> dashboard \<Rightarrow> dashboard option" where
  "poll_cache_stats free_space db mount_dirs d =
     (case poll_mounts (mul64 (ec_expiry_hours (cf_eviction (da_config d))) 3600) free_space db mount_dirs
             \<lparr>po_used = 0, po_files = 0, po_free = None, po_infos = []\<rparr> of
        None \<Rightarrow> None
      | Some po \<Rightarrow> Some (d\<lparr>da_cache_used_bytes := po_used po,
          da_cache_free_bytes := (case po_free po of None \<Rightarrow> 0 | Some f \<Rightarrow> f),
          da_cache_file_count := po_files po, da_cached_files := po_infos po\<rparr>))"

section \<open>Keys\<close>

datatype key_code = KUp | KDown | KLeft | KRight | KHome | KEnd | KEsc | KEnter | KChar char | KOther

record key_event =
  ke_code :: key_code
  ke_press :: bool
  ke_ctrl :: bool
  ke_shift :: bool

text \<open>\<open>ui_menu\<close>: the highlighted item of the open menu; \<open>ui_flash\<close>: the message shown and since when;
  \<open>ui_sent\<close>: the commands sent; \<open>ui_running\<close> is false once the loop is left.\<close>

record tui =
  ui_page :: page
  ui_log_scroll :: nat
  ui_cache_sel :: nat
  ui_cache_sort :: cache_sort
  ui_checked :: "path list"
  ui_menu :: "nat option"
  ui_flash :: "(string \<times> int) option"
  ui_sent :: "client_message list"
  ui_running :: bool

definition tui_start :: tui where
  "tui_start = \<lparr>ui_page = StatusPage, ui_log_scroll = 0, ui_cache_sel = 0, ui_cache_sort = Newest, ui_checked = [],
     ui_menu = None, ui_flash = None, ui_sent = [], ui_running = True\<rparr>"

fun decimal :: "nat \<Rightarrow> string" where
  "decimal n = (if n < 10 then [''0123456789'' ! n] else decimal (n div 10) @ [''0123456789'' ! (n mod 10)])"

declare decimal.simps [simp del]

definition flash_text :: "nat \<Rightarrow> nat \<Rightarrow> string" where
  "flash_text sel n =
     (if sel = 0 then ''Evicting '' else ''Refreshing lease for '') @ decimal n @ '' file'' @
     (if n = 1 then [] else ''s'') @ [CHR 0xE2, CHR 0x80, CHR 0xA6]"

definition menu_enter :: "int \<Rightarrow> dashboard \<Rightarrow> nat \<Rightarrow> tui \<Rightarrow> tui" where
  "menu_enter now d sel ui =
     (let targets = build_targets (da_cached_files d) (ui_checked ui) (ui_cache_sel ui) (ui_cache_sort ui)
      in if targets = [] then ui\<lparr>ui_menu := None\<rparr>
         else ui\<lparr>ui_sent := ui_sent ui @ [if sel = 0 then EvictFiles targets else RefreshLease targets],
                 ui_checked := [], ui_flash := Some (flash_text sel (length targets), now), ui_menu := None\<rparr>)"

definition menu_key :: "int \<Rightarrow> dashboard \<Rightarrow> nat \<Rightarrow> key_code \<Rightarrow> tui \<Rightarrow> tui" where
  "menu_key now d sel k ui =
     (case k of
        KUp \<Rightarrow> ui\<lparr>ui_menu := Some (sel - 1)\<rparr>
      | KDown \<Rightarrow> ui\<lparr>ui_menu := Some (min (sel + 1) 1)\<rparr>
      | KEsc \<Rightarrow> ui\<lparr>ui_menu := None\<rparr>
      | KEnter \<Rightarrow> menu_enter now d sel ui
      | _ \<Rightarrow> ui)"

definition show_page :: "page \<Rightarrow> tui \<Rightarrow> tui" where
  "show_page p ui = ui\<lparr>ui_page := p, ui_log_scroll := 0, ui_checked := [], ui_menu := None\<rparr>"

definition toggle_at :: "dashboard \<Rightarrow> tui \<Rightarrow> tui" where
  "toggle_at d ui = ui\<lparr>ui_checked := toggle_checked_at (da_cached_files d) (ui_cache_sel ui) (ui_cache_sort ui) (ui_checked ui)\<rparr>"

definition key_down :: "dashboard \<Rightarrow> bool \<Rightarrow> tui \<Rightarrow> tui" where
  "key_down d shift ui =
     (case ui_page ui of
        CachePage \<Rightarrow>
          if da_cached_files d = [] then ui
          else let ui' = ui\<lparr>ui_cache_sel := min (ui_cache_sel ui + 1) (length (da_cached_files d) - 1)\<rparr>
               in if shift then toggle_at d ui' else ui'
      | LogsPage \<Rightarrow>
          if da_recent_logs d = [] then ui
          else ui\<lparr>ui_log_scroll := min (ui_log_scroll ui + 1) (length (da_recent_logs d) - 1)\<rparr>
      | _ \<Rightarrow> ui)"

definition key_up :: "dashboard \<Rightarrow> bool \<Rightarrow> tui \<Rightarrow> tui" where
  "key_up d shift ui =
     (case ui_page ui of
        CachePage \<Rightarrow> let ui' = ui\<lparr>ui_cache_sel := ui_cache_sel ui - 1\<rparr> in if shift then toggle_at d ui' else ui'
      | LogsPage \<Rightarrow> ui\<lparr>ui_log_scroll := ui_log_scroll ui - 1\<rparr>
      | _ \<Rightarrow> ui)"

definition key_home :: "tui \<Rightarrow> tui" where
  "key_home ui =
     (case ui_page ui of CachePage \<Rightarrow> ui\<lparr>ui_cache_sel := 0\<rparr> | LogsPage \<Rightarrow> ui\<lparr>ui_log_scroll := 0\<rparr> | _ \<Rightarrow> ui)"

definition key_end :: "dashboard \<Rightarrow> tui \<Rightarrow> tui" where
  "key_end d ui =
     (case ui_page ui of
        CachePage \<Rightarrow> ui\<lparr>ui_cache_sel := length (da_cached_files d) - 1\<rparr>
      | LogsPage \<Rightarrow> ui\<lparr>ui_log_scroll := length (da_recent_logs d) - 1\<rparr>
      | _ \<Rightarrow> ui)"

definition key_char :: "dashboard \<Rightarrow> char \<Rightarrow> bool \<Rightarrow> tui \<Rightarrow> tui" where
  "key_char d c ctrl ui =
     (if c = CHR ''q'' \<or> c = CHR ''Q''
      then if ctrl then ui\<lparr>ui_sent := ui_sent ui @ [Shutdown], ui_running := False\<rparr> else ui\<lparr>ui_running := False\<rparr>
      else if c = CHR ''1'' then show_page StatusPage ui
      else if c = CHR ''2'' then ui\<lparr>ui_page := CachePage, ui_cache_sel := 0, ui_checked := [], ui_menu := None\<rparr>
      else if c = CHR ''3'' then show_page CacheIoPage ui
      else if c = CHR ''4'' then show_page LogsPage ui
      else if c = CHR ''s'' \<or> c = CHR ''S''
      then if ui_page ui = CachePage then ui\<lparr>ui_cache_sort := sort_next (ui_cache_sort ui), ui_checked := []\<rparr> else ui
      else if c = CHR '' '' then if ui_page ui = CachePage then toggle_at d ui else ui
      else ui)"

definition normal_key :: "dashboard \<Rightarrow> key_event \<Rightarrow> tui \<Rightarrow> tui" where
  "normal_key d k ui =
     (case ke_code k of
        KChar c \<Rightarrow> key_char d c (ke_ctrl k) ui
      | KRight \<Rightarrow> show_page (page_next (ui_page ui)) ui
      | KLeft \<Rightarrow> show_page (page_prev (ui_page ui)) ui
      | KDown \<Rightarrow> key_down d (ke_shift k) ui
      | KUp \<Rightarrow> key_up d (ke_shift k) ui
      | KHome \<Rightarrow> key_home ui
      | KEnd \<Rightarrow> key_end d ui
      | KEnter \<Rightarrow> if ui_page ui = CachePage \<and> ui_flash ui = None \<and> da_cached_files d \<noteq> [] then ui\<lparr>ui_menu := Some 0\<rparr> else ui
      | _ \<Rightarrow> ui)"

definition handle_key :: "int \<Rightarrow> dashboard \<Rightarrow> key_event \<Rightarrow> tui \<Rightarrow> tui" where
  "handle_key now d k ui =
     (if \<not> ke_press k then ui
      else (case ui_menu ui of Some sel \<Rightarrow> menu_key now d sel (ke_code k) ui | None \<Rightarrow> normal_key d k ui))"

definition render_tick :: "int \<Rightarrow> tui \<Rightarrow> tui" where
  "render_tick now ui =
     (case ui_flash ui of
        None \<Rightarrow> ui
      | Some (_, t) \<Rightarrow> if max 0 (now - t) \<ge> 2000000000 then ui\<lparr>ui_flash := None\<rparr> else ui)"

text \<open>The loop, between the arms of which the dashboard changes at will.\<close>

inductive tui_reachable :: "tui \<Rightarrow> bool" where
  opened: "tui_reachable tui_start"
| pressed: "tui_reachable ui \<Longrightarrow> ui_running ui \<Longrightarrow> tui_reachable (handle_key now d k ui)"
| ticked: "tui_reachable ui \<Longrightarrow> ui_running ui \<Longrightarrow> tui_reachable (render_tick now ui)"
| disconnected: "tui_reachable ui \<Longrightarrow> ui_running ui \<Longrightarrow> tui_reachable (ui\<lparr>ui_running := False\<rparr>)"

section \<open>Rendering\<close>

text \<open>The rows of the file list that are shown, for an area of the given height.\<close>

definition visible_rows :: "nat \<Rightarrow> nat" where
  "visible_rows area = max (area - 4) 1"

definition list_scroll :: "nat \<Rightarrow> nat \<Rightarrow> nat \<Rightarrow> nat" where
  "list_scroll n sel visible =
     (if n \<le> visible then 0
      else if sel + 3 \<ge> visible then min (sel + 4 - visible) (n - visible)
      else 0)"

definition shown_rows :: "nat \<Rightarrow> cached_file_info list \<Rightarrow> nat \<Rightarrow> (nat \<times> cached_file_info) list" where
  "shown_rows area files sel =
     take (visible_rows area) (drop (list_scroll (length files) sel (visible_rows area)) (enumerate 0 files))"

definition detail_mount :: "dashboard \<Rightarrow> path option" where
  "detail_mount d = (case da_mounts d of [] \<Rightarrow> None | m # _ \<Rightarrow> Some (mi_target m))"

definition shown_logs :: "dashboard \<Rightarrow> nat \<Rightarrow> log_line list" where
  "shown_logs d scroll = drop scroll (da_recent_logs d)"

definition latest_logs :: "dashboard \<Rightarrow> log_line list" where
  "latest_logs d = take 5 (rev (da_recent_logs d))"

definition fmt_relative :: "int \<Rightarrow> int \<Rightarrow> string" where
  "fmt_relative now t =
     (let s = nat (now - t)
      in if s < 60 then decimal s @ ''s ago''
         else if s < 3600 then decimal (s div 60) @ ''m ago''
         else if s < 86400 then decimal (s div 3600) @ ''h ago''
         else decimal (s div 86400) @ ''d ago'')"

definition fmt_duration_until :: "int \<Rightarrow> int \<Rightarrow> string" where
  "fmt_duration_until now t =
     (let s = nat (t - now)
      in if s = 0 then ''expired'' else decimal (s div 3600) @ ''h '' @ decimal (s mod 3600 div 60) @ ''m'')"

definition truncate_path_tail :: "path \<Rightarrow> nat \<Rightarrow> string" where
  "truncate_path_tail p n =
     (if length p \<le> n then join_with ''/'' p
      else [CHR 0xE2, CHR 0x80, CHR 0xA6] @ ''/'' @ join_with ''/'' (rev (take n (rev p))))"

section \<open>Properties\<close>

lemma sort_refs_mset: "mset (sort_refs srt fs) = mset fs"
  by (cases srt) simp_all

lemma sort_refs_set [simp]: "set (sort_refs srt fs) = set fs"
  using sort_refs_mset [of srt fs] by (metis mset_eq_setD)

lemma sort_refs_length [simp]: "length (sort_refs srt fs) = length fs"
  using sort_refs_mset [of srt fs] by (metis size_mset)

lemma get_at_set: "get_at xs i = Some x \<Longrightarrow> x \<in> set xs"
  by (auto simp: get_at_def split: if_splits)

text \<open>A command names files of the list and nothing else: with files checked, exactly those whose path
  is checked, each as often as it is listed and in the order shown; with none checked, the highlighted one.\<close>

theorem build_targets_spec:
  "set (build_targets files checked sel srt) \<subseteq> target_of ` set files \<and>
   (checked \<noteq> [] \<longrightarrow> mset (build_targets files checked sel srt) =
      image_mset target_of (filter_mset (\<lambda>f. ci_path f \<in> set checked) (mset files))) \<and>
   (checked = [] \<longrightarrow> build_targets files checked sel srt =
      (if sel < length files then [target_of (sort_refs srt files ! sel)] else []))"
proof (intro conjI impI)
  show "set (build_targets files checked sel srt) \<subseteq> target_of ` set files"
    using get_at_set [of "sort_refs srt files" sel] by (auto simp: build_targets_def split: option.splits)
  show "mset (build_targets files checked sel srt) =
      image_mset target_of (filter_mset (\<lambda>f. ci_path f \<in> set checked) (mset files))" if "checked \<noteq> []"
    using that by (simp add: build_targets_def sort_refs_mset)
  show "build_targets files checked sel srt = (if sel < length files then [target_of (sort_refs srt files ! sel)] else [])"
    if "checked = []" using that by (simp add: build_targets_def get_at_def)
qed

definition ui_ok :: "tui \<Rightarrow> bool" where
  "ui_ok ui =
     ((\<forall>i. ui_menu ui = Some i \<longrightarrow> i \<le> 1 \<and> ui_page ui = CachePage) \<and>
      (ui_page ui \<noteq> CachePage \<longrightarrow> ui_checked ui = []))"

lemma show_page_ok: "ui_ok (show_page p ui)"
  by (simp add: ui_ok_def show_page_def)

lemma toggle_at_ok: "ui_page ui = CachePage \<Longrightarrow> ui_menu ui = None \<Longrightarrow> ui_ok (toggle_at d ui)"
  by (simp add: ui_ok_def toggle_at_def)

lemma ui_ok_moves:
  "ui_ok (ui\<lparr>ui_cache_sel := n\<rparr>) = ui_ok ui" "ui_ok (ui\<lparr>ui_log_scroll := n\<rparr>) = ui_ok ui"
  by (simp_all add: ui_ok_def)

lemma key_moves_ok:
  assumes "ui_ok ui" and "ui_menu ui = None"
  shows "ui_ok (key_up d shift ui)" and "ui_ok (key_down d shift ui)" and "ui_ok (key_home ui)" and "ui_ok (key_end d ui)"
  using assms
  by (simp_all add: key_up_def key_down_def key_home_def key_end_def Let_def ui_ok_moves toggle_at_ok split: page.split)

lemma key_char_ok:
  assumes "ui_ok ui" and "ui_menu ui = None"
  shows "ui_ok (key_char d c ctrl ui)"
proof -
  have "ui_ok (ui\<lparr>ui_sent := x, ui_running := r\<rparr>)" "ui_ok (ui\<lparr>ui_running := r\<rparr>)" for x r
    using assms by (simp_all add: ui_ok_def)
  moreover have "ui_ok (ui\<lparr>ui_page := CachePage, ui_cache_sel := 0, ui_checked := [], ui_menu := None\<rparr>)"
    by (simp add: ui_ok_def)
  moreover have "ui_page ui = CachePage \<Longrightarrow> ui_ok (ui\<lparr>ui_cache_sort := srt, ui_checked := []\<rparr>)" for srt
    using assms by (simp add: ui_ok_def)
  ultimately show ?thesis using assms by (simp add: key_char_def show_page_ok toggle_at_ok)
qed

lemma normal_key_ok:
  assumes "ui_ok ui" and "ui_menu ui = None"
  shows "ui_ok (normal_key d k ui)"
proof -
  have "ui_page ui = CachePage \<Longrightarrow> ui_ok (ui\<lparr>ui_menu := Some 0\<rparr>)" using assms by (simp add: ui_ok_def)
  then show ?thesis using assms key_moves_ok [OF assms] key_char_ok [OF assms]
    by (simp add: normal_key_def show_page_ok split: key_code.split)
qed

lemma menu_key_ok: "ui_ok ui \<Longrightarrow> ui_menu ui = Some sel \<Longrightarrow> ui_ok (menu_key now d sel k ui)"
  by (cases k) (auto simp: menu_key_def menu_enter_def Let_def ui_ok_def)

lemma ui_ok_reachable: "tui_reachable ui \<Longrightarrow> ui_ok ui"
proof (induction rule: tui_reachable.induct)
  case opened
  show ?case by (simp add: tui_start_def ui_ok_def)
next
  case (pressed ui now d k)
  then show ?case
    by (cases "ui_menu ui") (auto simp: handle_key_def normal_key_ok menu_key_ok)
next
  case (ticked ui now)
  then show ?case by (auto simp: render_tick_def ui_ok_def split: option.splits)
next
  case (disconnected ui)
  then show ?case by (simp add: ui_ok_def)
qed

text \<open>What a command may be, given the state and the key that sent it.\<close>

definition command_ok :: "dashboard \<Rightarrow> key_event \<Rightarrow> tui \<Rightarrow> client_message \<Rightarrow> bool" where
  "command_ok d k ui m =
     (case m of
        Shutdown \<Rightarrow> ke_ctrl k \<and> ui_menu ui = None
      | EvictFiles ts \<Rightarrow> ui_menu ui = Some 0 \<and> ke_code k = KEnter \<and> ui_page ui = CachePage \<and> ts \<noteq> [] \<and>
          set ts \<subseteq> target_of ` set (da_cached_files d)
      | RefreshLease ts \<Rightarrow> ui_menu ui = Some 1 \<and> ke_code k = KEnter \<and> ui_page ui = CachePage \<and> ts \<noteq> [] \<and>
          set ts \<subseteq> target_of ` set (da_cached_files d)
      | _ \<Rightarrow> False)"

lemma build_targets_listed: "set (build_targets files checked sel srt) \<subseteq> target_of ` set files"
  using get_at_set [of "sort_refs srt files" sel] by (auto simp: build_targets_def split: option.splits)

lemma key_sends:
  "ui_sent (key_up d shift ui) = ui_sent ui" "ui_sent (key_down d shift ui) = ui_sent ui"
  "ui_sent (key_home ui) = ui_sent ui" "ui_sent (key_end d ui) = ui_sent ui" "ui_sent (show_page p ui) = ui_sent ui"
  "ui_sent (toggle_at d ui) = ui_sent ui"
  by (simp_all add: key_up_def key_down_def key_home_def key_end_def show_page_def toggle_at_def Let_def split: page.split)

lemma normal_key_sends:
  "ui_sent (normal_key d k ui) = ui_sent ui \<or> (ke_ctrl k \<and> ui_sent (normal_key d k ui) = ui_sent ui @ [Shutdown])"
  by (simp add: normal_key_def key_char_def key_sends split: key_code.split)

lemma key_commands:
  assumes "tui_reachable ui"
  shows "ui_sent (handle_key now d k ui) = ui_sent ui \<or>
    (\<exists>m. ui_sent (handle_key now d k ui) = ui_sent ui @ [m] \<and> command_ok d k ui m)"
proof (cases "ui_menu ui")
  case None
  then show ?thesis using normal_key_sends [of d k ui] by (auto simp: handle_key_def command_ok_def)
next
  case (Some sel)
  have ok: "sel \<le> 1" "ui_page ui = CachePage" using ui_ok_reachable [OF assms] Some by (auto simp: ui_ok_def)
  let ?ts = "build_targets (da_cached_files d) (ui_checked ui) (ui_cache_sel ui) (ui_cache_sort ui)"
  have "menu_enter now d sel ui = ui\<lparr>ui_menu := None\<rparr> \<or> (?ts \<noteq> [] \<and>
      ui_sent (menu_enter now d sel ui) = ui_sent ui @ [if sel = 0 then EvictFiles ?ts else RefreshLease ?ts])"
    by (simp add: menu_enter_def Let_def)
  moreover have "ke_code k = KEnter \<and> ?ts \<noteq> [] \<Longrightarrow> command_ok d k ui (if sel = 0 then EvictFiles ?ts else RefreshLease ?ts)"
    using ok Some build_targets_listed [of "da_cached_files d" "ui_checked ui" "ui_cache_sel ui" "ui_cache_sort ui"]
    by (cases "sel = 0") (simp_all add: command_ok_def)
  ultimately show ?thesis using Some
    by (cases "ke_code k") (auto simp: handle_key_def menu_key_def)
qed

text \<open>A key sends at most one command. Files are evicted or refreshed only with the action menu open on
  that item, on the cache page, and only files of the current list; the daemon is shut down only by a
  control key outside the menu.\<close>

theorem keys_send_intended_commands:
  assumes "tui_reachable ui"
  shows "ui_sent (handle_key now d k ui) = ui_sent ui \<or>
    (\<exists>m. ui_sent (handle_key now d k ui) = ui_sent ui @ [m] \<and> command_ok d k ui m)"
  by (rule key_commands [OF assms])

lemma list_scroll_visible:
  assumes "sel < n" and "4 \<le> v"
  shows "list_scroll n sel v \<le> sel" and "sel < list_scroll n sel v + v"
  using assms by (auto simp: list_scroll_def)

text \<open>The highlighted file is always among the rows shown, once the list has room for four.\<close>

theorem selection_shown:
  assumes "sel < length files" and "4 \<le> visible_rows area"
  shows "(sel, files ! sel) \<in> set (shown_rows area files sel)"
proof -
  let ?v = "visible_rows area" and ?s = "list_scroll (length files) sel (visible_rows area)"
  note vis = list_scroll_visible [OF assms]
  have "sel - ?s < length (shown_rows area files sel)" using assms vis by (simp add: shown_rows_def) arith
  moreover have "shown_rows area files sel ! (sel - ?s) = (sel, files ! sel)"
    using assms vis by (simp add: shown_rows_def nth_enumerate_eq)
  ultimately show ?thesis by (metis nth_mem)
qed

text \<open>With less room the list scrolls past the highlighted file.\<close>

theorem selection_scrolled_away:
  "visible_rows 5 = 1 \<and> list_scroll 8 0 1 = 3 \<and> map fst (shown_rows 5 (replicate 8 f) 0) = [3]"
  by (simp add: visible_rows_def list_scroll_def shown_rows_def enumerate_replicate_eq upt_conv_Cons numeral_eq_Suc)

definition listed_file :: "path \<Rightarrow> path \<Rightarrow> cached_file_info" where
  "listed_file mount p = \<lparr>ci_path = p, ci_size_bytes = 1, ci_cached_at = 0, ci_last_hit_at = 0, ci_evicts_at = 0, ci_mount_id = mount\<rparr>"

text \<open>The checked set holds paths without their mounts: checking the file of one mount also selects the file
  of the same path in another.\<close>

theorem checked_file_of_both_mounts:
  "build_targets [listed_file [''a''] [''f''], listed_file [''b''] [''f'']]
     (toggle_checked_at [listed_file [''a''] [''f''], listed_file [''b''] [''f'']] 0 Smallest []) 0 Smallest =
   [\<lparr>ft_rel_path = [''f''], ft_mount_id = [''a'']\<rparr>, \<lparr>ft_rel_path = [''f''], ft_mount_id = [''b'']\<rparr>]"
  by (simp add: build_targets_def toggle_checked_at_def get_at_def listed_file_def target_of_def)

theorem build_targets_spec_witness:
  "build_targets [listed_file [''a''] [''f'']] [] 0 Newest = [\<lparr>ft_rel_path = [''f''], ft_mount_id = [''a'']\<rparr>]"
  using build_targets_spec [of "[listed_file [''a''] [''f'']]" "[]" 0 Newest]
  by (simp add: target_of_def listed_file_def)

theorem selection_shown_witness:
  "(7, listed_file [''a''] [''f'']) \<in> set (shown_rows 8 (replicate 8 (listed_file [''a''] [''f''])) 7)"
  using selection_shown [of 7 "replicate 8 (listed_file [''a''] [''f''])" 8] by (simp add: visible_rows_def)

definition cache_page :: tui where
  "cache_page = handle_key 0 (dashboard_new minimal_config) \<lparr>ke_code = KChar CHR ''2'', ke_press = True, ke_ctrl = False, ke_shift = False\<rparr> tui_start"

definition enter_key :: key_event where
  "enter_key = \<lparr>ke_code = KEnter, ke_press = True, ke_ctrl = False, ke_shift = False\<rparr>"

definition one_file :: dashboard where
  "one_file = (dashboard_new minimal_config)\<lparr>da_cached_files := [listed_file [''a''] [''f'']]\<rparr>"

definition menu_open :: tui where
  "menu_open = handle_key 0 one_file enter_key cache_page"

lemma menu_open_reachable: "tui_reachable menu_open"
  unfolding menu_open_def cache_page_def
  by (intro tui_reachable.pressed tui_reachable.opened)
    (simp_all add: tui_start_def handle_key_def normal_key_def key_char_def)

theorem keys_send_intended_commands_witness:
  "ui_sent (handle_key 0 one_file enter_key menu_open) = [EvictFiles [\<lparr>ft_rel_path = [''f''], ft_mount_id = [''a'']\<rparr>]] \<and>
   command_ok one_file enter_key menu_open (EvictFiles [\<lparr>ft_rel_path = [''f''], ft_mount_id = [''a'']\<rparr>])"
proof -
  have o: "ui_sent menu_open = []"
    by (simp add: menu_open_def cache_page_def tui_start_def handle_key_def normal_key_def key_char_def enter_key_def one_file_def)
  have sent: "ui_sent (handle_key 0 one_file enter_key menu_open) = [EvictFiles [\<lparr>ft_rel_path = [''f''], ft_mount_id = [''a'']\<rparr>]]"
    by (simp add: menu_open_def cache_page_def tui_start_def handle_key_def normal_key_def key_char_def enter_key_def one_file_def
        menu_key_def menu_enter_def build_targets_def get_at_def target_of_def listed_file_def)
  with keys_send_intended_commands [OF menu_open_reachable, of 0 one_file enter_key] o show ?thesis by auto
qed

section \<open>The list of cached files\<close>

lemma file_infos_targets:
  "file_infos expiry m fs = Some xs \<Longrightarrow> map target_of xs = map (\<lambda>f. \<lparr>ft_rel_path = fst f, ft_mount_id = m\<rparr>) fs"
  by (induction fs arbitrary: xs) (auto simp: target_of_def split: option.splits)

definition listed_targets :: "cache_db \<Rightarrow> path \<Rightarrow> file_target list" where
  "listed_targets db m = map (\<lambda>r. \<lparr>ft_rel_path = r_rel_path r, ft_mount_id = m\<rparr>) (mount_rows m db)"

lemma client_files_targets:
  "db_usable db \<Longrightarrow> map (\<lambda>f. \<lparr>ft_rel_path = fst f, ft_mount_id = m\<rparr>) (snd (client_files_for_mount m db)) = listed_targets db m"
  by (simp add: client_files_for_mount_def listed_targets_def Let_def)

lemma poll_mounts_targets:
  assumes "db_usable db"
  shows "poll_mounts expiry free db ms po = Some po' \<Longrightarrow>
    map target_of (po_infos po') = map target_of (po_infos po) @ concat (map (listed_targets db) ms) \<and>
    (po_files po = length (po_infos po) \<longrightarrow> po_files po' = length (po_infos po'))"
proof (induction ms arbitrary: po)
  case Nil
  then show ?case by simp
next
  case (Cons m ms)
  obtain used files where files: "client_files_for_mount m db = (used, files)" by fastforce
  with Cons.prems obtain infos where infos: "file_infos expiry m files = Some infos"
    by (auto split: option.splits)
  have "map target_of infos = listed_targets db m"
    using file_infos_targets [OF infos] client_files_targets [OF assms, of m] files by simp
  moreover have "length infos = length files" using file_infos_targets [OF infos] by (metis length_map)
  ultimately show ?case using Cons files infos by fastforce
qed

lemma poll_targets:
  assumes "poll_cache_stats free db mount_dirs d = Some d'" and "db_usable db"
  shows "map target_of (da_cached_files d') = concat (map (listed_targets db) mount_dirs) \<and>
    da_cache_file_count d' = length (da_cached_files d')"
  using assms(1) poll_mounts_targets [OF assms(2)]
  by (fastforce simp: poll_cache_stats_def split: option.splits)

text \<open>The list of cached files is the database's: after a poll it names, mount by mount, every row of the
  mounts and nothing else, each under the key its row has, and the count shown is its length.\<close>

theorem poll_lists_rows:
  assumes "poll_cache_stats free db mount_dirs d = Some d'" and "db_usable db"
  shows "map target_of (da_cached_files d') = concat (map (listed_targets db) mount_dirs) \<and>
    da_cache_file_count d' = length (da_cached_files d')"
  by (rule poll_targets [OF assms])

lemma sample_rows: "cache_files sample_db =
  [\<lparr>r_rel_path = [''a''], r_mount_id = [''m''], r_size_bytes = 5, r_cached_at = 10, r_last_hit_at = 10, r_hit_count = 1,
     r_source = columns_of (test_file 5 1 0)\<rparr>,
   \<lparr>r_rel_path = [''b''], r_mount_id = [''m''], r_size_bytes = 7, r_cached_at = 20, r_last_hit_at = 20, r_hit_count = 1,
     r_source = columns_of (test_file 7 1 0)\<rparr>]"
  by (simp add: sample_db_def db_mark_cached_def execute_def db_empty_def row_replace_def row_key_def test_file_def as_i64_def)

lemma sample_db_usable [simp]: "db_usable sample_db"
  by (simp add: sample_db_def db_mark_cached_def execute_def db_empty_def)

theorem poll_lists_rows_witness:
  "map_option (\<lambda>d. map target_of (da_cached_files d)) (poll_cache_stats (\<lambda>m. Some 9) sample_db [[''m'']] (dashboard_new minimal_config)) =
   Some [\<lparr>ft_rel_path = [''a''], ft_mount_id = [''m'']\<rparr>, \<lparr>ft_rel_path = [''b''], ft_mount_id = [''m'']\<rparr>]"
proof -
  have "poll_cache_stats (\<lambda>m. Some 9) sample_db [[''m'']] (dashboard_new minimal_config) \<noteq> None"
    by (simp add: poll_cache_stats_def client_files_for_mount_def mount_rows_def sample_rows time_plus_def max0_u64_def
        dashboard_new_def minimal_config_def eviction_default_def default_expiry_hours_def mul64_def)
  then obtain d where d: "poll_cache_stats (\<lambda>m. Some 9) sample_db [[''m'']] (dashboard_new minimal_config) = Some d" by blast
  from poll_lists_rows [OF d] d show ?thesis by (simp add: listed_targets_def mount_rows_def sample_rows)
qed

end
