(* ===== verification/Lifecycle.thy ===== *)
theory Lifecycle
  imports Daemon Server DbSchema Tui
begin

text \<open>
  The life of a daemon (src/src/main.rs, run_daemon; src/src/ipc/server.rs, run_ipc_server) and the
  commands of the client (src/src/main.rs): the start with every point at which it can fail, the tasks
  it spawns, the server's socket, the shutdown. What the outside answers is a record; the disk, the
  locks of the host and the database are the states of the other theories. A start that fails drops
  what it holds: the sessions unmount, the locks are released, the tasks are aborted.
\<close>

section \<open>Starting\<close>

datatype start_error = ConfigUnreadable | ConfigInvalid config_error | StartupFailed startup_error
  | MkdirFailed path | BackingOpenFailed path | MountFailed path | SignalFailed

text \<open>Where the configuration is: the file that was named, or else one beside the binary, or else one in the
  working directory. A path that cannot be told is None.\<close>

definition find_file_near_binary :: "path option \<Rightarrow> path option \<Rightarrow> (path \<Rightarrow> bool) \<Rightarrow> string \<Rightarrow> path option" where
  "find_file_near_binary current_exe current_dir found filename =
     (case Option.bind current_exe parent of
        Some d \<Rightarrow>
          if found (d @ [filename]) then Some (d @ [filename])
          else (case current_dir of None \<Rightarrow> None | Some w \<Rightarrow> if found (w @ [filename]) then Some (w @ [filename]) else None)
      | None \<Rightarrow>
          (case current_dir of None \<Rightarrow> None | Some w \<Rightarrow> if found (w @ [filename]) then Some (w @ [filename]) else None))"

definition config_document ::
  "path option \<Rightarrow> path option \<Rightarrow> path option \<Rightarrow> (path \<Rightarrow> bool) \<Rightarrow> (path \<Rightarrow> table option) \<Rightarrow> table option" where
  "config_document config_path current_exe current_dir found parsed =
     Option.bind (case config_path of
         Some p \<Rightarrow> Some p
       | None \<Rightarrow> find_file_near_binary current_exe current_dir found ''config.toml'') parsed"

lemma found_near_binary:
  "find_file_near_binary exe w found name = Some p \<Longrightarrow> found p \<and> p \<noteq> [] \<and> last p = name \<and>
     ((\<exists>x. exe = Some x \<and> butlast p = butlast x) \<or> w = Some (butlast p))"
  by (auto simp: find_file_near_binary_def parent_eq bind_eq_Some_conv split: option.splits if_splits)

datatype task = IpcTask | PruneTask | DispatcherTask path | EvictionTask path | EngineTask path
  | MaintenanceTask path | WatchTask path

datatype command = Fusermount path | UmountLazy path

text \<open>
  \<open>en_document\<close>: the parsed configuration file, if there is one (\<open>config_document\<close>); \<open>en_mkdir\<close>: whether the process may
  create a directory; \<open>en_db_file\<close>: the database file, if it opens; \<open>en_mounts t\<close>: /proc/mounts when the
  target \<open>t\<close> has its turn; \<open>en_backing\<close>: whether the target opens; \<open>en_fuse\<close>: whether FUSE mounts over it.
\<close>

record ('r, 'l) start_env =
  en_document :: "table option"
  en_appender :: bool
  en_pid :: nat
  en_found :: "path \<Rightarrow> bool"
  en_canonicalize :: "path \<Rightarrow> path option"
  en_hash :: "path \<Rightarrow> nat"
  en_mkdir :: "path \<Rightarrow> bool"
  en_db_file :: "db_file option"
  en_memory :: bool
  en_mounts :: "path \<Rightarrow> string option"
  en_backing :: "path \<Rightarrow> bool"
  en_capacity :: "nat option"
  en_compile :: "string \<Rightarrow> 'r option"
  en_is_match :: "'r \<Rightarrow> string \<Rightarrow> bool"
  en_fuse :: "path \<Rightarrow> bool"
  en_sigterm :: bool
  en_now :: nat
  en_new_lru :: 'l

record 'l running =
  rn_locks :: flocks
  rn_server :: "'l server"
  rn_mounted :: "(path \<times> mount) list"
  rn_tasks :: "task list"
  rn_commands :: "command list"

definition path_from :: "string \<Rightarrow> path" where
  "path_from s = filter (\<lambda>c. c \<noteq> [] \<and> c \<noteq> ''.'') (split_at (\<lambda>c. c = CHR ''/'') s)"

definition targets_of :: "config \<Rightarrow> path list" where
  "targets_of c = map path_from (pc_target_directories (cf_paths c))"

definition base_cache_dir :: "config \<Rightarrow> path" where
  "base_cache_dir c = path_from (pc_cache_directory (cf_paths c))"

definition instance_of :: "config \<Rightarrow> string" where
  "instance_of c = pc_instance_name (cf_paths c)"

definition mount_dir :: "('r, 'l) start_env \<Rightarrow> config \<Rightarrow> path \<Rightarrow> path" where
  "mount_dir e c t = join (base_cache_dir c) [mount_cache_name (en_hash e) t]"

definition db_path :: "config \<Rightarrow> path" where
  "db_path c = [''var'', ''lib'', ''fscache'', ''db'', instance_of c @ ''.db'']"

definition hello_of :: "('r, 'l) start_env \<Rightarrow> string \<Rightarrow> config \<Rightarrow> hello_payload" where
  "hello_of e version c =
     (let ev = resolve_eviction (cf_eviction c) (cf_cache c)
      in \<lparr>hp_version = version, hp_instance_name = instance_of c,
          hp_mounts = map (\<lambda>t. \<lparr>mi_target = t, mi_cache_dir = mount_dir e c t, mi_active = True\<rparr>) (targets_of c),
          hp_db_path = db_path c,
          hp_config = c\<lparr>cf_eviction := (cf_eviction c)\<lparr>ec_max_size_gb := re_max_size_gb ev,
            ec_expiry_hours := re_expiry_hours ev, ec_min_free_space_gb := re_min_free_space_gb ev\<rparr>\<rparr>\<rparr>)"

definition on_disk :: "(disk \<Rightarrow> disk) \<Rightarrow> 'l running \<Rightarrow> 'l running" where
  "on_disk f r = r\<lparr>rn_server := (rn_server r)\<lparr>sv_disk := f (sv_disk (rn_server r))\<rparr>\<rparr>"

definition make_dir :: "('r, 'l) start_env \<Rightarrow> path \<Rightarrow> disk \<Rightarrow> bool \<times> disk" where
  "make_dir e p d = (if en_mkdir e p then create_dir_all p d else (False, d))"

text \<open>The tasks of a mount up to the FUSE mount, and the watcher, which needs the session.\<close>

definition mount_tasks :: "path \<Rightarrow> mount \<Rightarrow> task list" where
  "mount_tasks t m =
     [DispatcherTask t] @ (if mt_eviction_interval_secs m > 0 then [EvictionTask t] else []) @ [EngineTask t] @
     (if mt_maintenance m then [MaintenanceTask t] else [])"

definition watch_tasks :: "path \<Rightarrow> mount \<Rightarrow> task list" where
  "watch_tasks t m = (if fc_backing_watch (mt_fs m) then [WatchTask t] else [])"

definition clean_mount_point :: "('r, 'l) start_env \<Rightarrow> config \<Rightarrow> path \<Rightarrow> 'l running \<Rightarrow> 'l running" where
  "clean_mount_point e c t r =
     (if clean_stale_mount (en_mounts e t) (instance_of c) t
      then r\<lparr>rn_commands := rn_commands r @ [Fusermount t]\<rparr> else r)"

definition reconcile_mount :: "('r, 'l) start_env \<Rightarrow> config \<Rightarrow> path \<Rightarrow> 'l running \<Rightarrow> 'l running" where
  "reconcile_mount e c t r =
     (case reconcile_with_disk (en_now e) (mount_dir e c t) (mount_dir e c t) (sv_disk (rn_server r)) (sv_db (rn_server r)) of
        (d, db) \<Rightarrow> r\<lparr>rn_server := on_db (\<lambda>_. db) ((rn_server r)\<lparr>sv_disk := d\<rparr>)\<rparr>)"

text \<open>One turn of the loop over the targets.\<close>

definition start_target ::
  "('r, 'l) start_env \<Rightarrow> config \<Rightarrow> path \<Rightarrow> 'l running \<Rightarrow> start_error option \<times> 'l running" where
  "start_target e c t r0 =
     (let r1 = clean_mount_point e c t r0
      in case acquire_target_lock (en_hash e) (en_mounts e t) t (en_pid e) (rn_locks r1) of
           Inl err \<Rightarrow> (Some (StartupFailed err), r1)
         | Inr locks \<Rightarrow>
             (case make_dir e (mount_dir e c t) (sv_disk (rn_server r1)) of
                (ok, d) \<Rightarrow>
                  let r2 = on_disk (\<lambda>_. d) (r1\<lparr>rn_locks := locks\<rparr>)
                  in if \<not> ok then (Some (MkdirFailed (mount_dir e c t)), r2)
                     else if \<not> en_backing e t then (Some (BackingOpenFailed t), r2)
                     else (case choose_preset (en_compile e) (en_is_match e) c of
                             Inl err \<Rightarrow> (Some (StartupFailed err), r2)
                           | Inr _ \<Rightarrow>
                               let r3 = reconcile_mount e c t r2
                               in case assemble_mount (en_compile e) (en_is_match e) (en_hash e) (base_cache_dir c)
                                         (en_capacity e) c t of
                                    Inl err \<Rightarrow> (Some (StartupFailed err), r3)
                                  | Inr m \<Rightarrow>
                                      let r4 = r3\<lparr>rn_tasks := rn_tasks r3 @ mount_tasks t m\<rparr>
                                      in if \<not> en_fuse e t then (Some (MountFailed t), r4)
                                         else (None, r4\<lparr>rn_tasks := rn_tasks r4 @ watch_tasks t m,
                                                        rn_mounted := rn_mounted r4 @ [(t, m)]\<rparr>))))"

fun start_targets ::
  "('r, 'l) start_env \<Rightarrow> config \<Rightarrow> path list \<Rightarrow> 'l running \<Rightarrow> start_error option \<times> 'l running" where
  "start_targets e c [] r = (None, r)"
| "start_targets e c (t # ts) r =
     (case start_target e c t r of
        (Some err, r') \<Rightarrow> (Some err, r')
      | (None, r') \<Rightarrow> start_targets e c ts r')"

text \<open>A file that does not open is replaced by a database in memory.\<close>

definition open_db :: "('r, 'l) start_env \<Rightarrow> config \<Rightarrow> cache_db option" where
  "open_db e c =
     (case en_db_file e of
        Some f \<Rightarrow> Some (snd (snd (open_with_config (of_nat (cf_sqlite c)) f)))
      | None \<Rightarrow>
          if en_memory e
          then Some (snd (snd (open_with_config (of_nat (cf_sqlite c))
                 \<lparr>dbf_cache_files = None, dbf_deferred = [], dbf_access = []\<rparr>)))
          else None)"

definition release :: "nat \<Rightarrow> flocks \<Rightarrow> flocks" where
  "release pid locks = filter (\<lambda>l. snd l \<noteq> pid) locks"

datatype 'l outcome = Refused start_error | Panicked | Running "'l running"

text \<open>What a start ends with, the locks of the host and the disk after it.\<close>

definition fail_start :: "('r, 'l) start_env \<Rightarrow> start_error \<Rightarrow> flocks \<Rightarrow> disk \<Rightarrow> 'l outcome \<times> flocks \<times> disk" where
  "fail_start e err locks d = (Refused err, release (en_pid e) locks, d)"

definition first_state :: "('r, 'l) start_env \<Rightarrow> config \<Rightarrow> cache_db \<Rightarrow> flocks \<Rightarrow> disk \<Rightarrow> 'l running" where
  "first_state e c db locks d =
     (let dc = discovery_new db
      in \<lparr>rn_locks = locks,
          rn_server = \<lparr>sv_disk = d,
            sv_discovery = (if dv_enabled (cf_discovery c) then start (en_new_lru e) (en_now e) dc else dc),
            sv_shutdown = False, sv_evicted = []\<rparr>,
          rn_mounted = [], rn_tasks = [IpcTask, PruneTask], rn_commands = []\<rparr>)"

definition start_mounts :: "('r, 'l) start_env \<Rightarrow> config \<Rightarrow> 'l running \<Rightarrow> 'l outcome \<times> flocks \<times> disk" where
  "start_mounts e c r0 =
     (case start_targets e c (targets_of c) r0 of
        (Some err, r) \<Rightarrow> fail_start e err (rn_locks r) (sv_disk (rn_server r))
      | (None, r) \<Rightarrow>
          if en_sigterm e then (Running r, rn_locks r, sv_disk (rn_server r))
          else fail_start e SignalFailed (rn_locks r) (sv_disk (rn_server r)))"

definition start_locked :: "('r, 'l) start_env \<Rightarrow> config \<Rightarrow> flocks \<Rightarrow> disk \<Rightarrow> 'l outcome \<times> flocks \<times> disk" where
  "start_locked e c locks d =
     (case validate_targets (en_found e) (en_canonicalize e) (targets_of c) of
        Inl err \<Rightarrow> fail_start e (StartupFailed err) locks d
      | Inr _ \<Rightarrow>
          (case make_dir e (base_cache_dir c) d of
             (False, d1) \<Rightarrow> fail_start e (MkdirFailed (base_cache_dir c)) locks d1
           | (True, d1) \<Rightarrow>
               (case make_dir e (butlast (db_path c)) d1 of
                  (False, d2) \<Rightarrow> fail_start e (MkdirFailed (butlast (db_path c))) locks d2
                | (True, d2) \<Rightarrow>
                    (case open_db e c of
                       None \<Rightarrow> (Panicked, release (en_pid e) locks, d2)
                     | Some db \<Rightarrow> start_mounts e c (first_state e c db locks d2)))))"

definition run_daemon :: "('r, 'l) start_env \<Rightarrow> flocks \<Rightarrow> disk \<Rightarrow> 'l outcome \<times> flocks \<times> disk" where
  "run_daemon e locks d =
     (case en_document e of
        None \<Rightarrow> (Refused ConfigUnreadable, locks, d)
      | Some doc \<Rightarrow>
          (case load_from doc of
             Inl err \<Rightarrow> (Refused (ConfigInvalid err), locks, d)
           | Inr c \<Rightarrow>
               let d0 = snd (make_dir e (path_from (lc_log_directory (cf_logging c))) d)
               in if \<not> en_appender e then (Panicked, locks, d0)
                  else (case acquire_instance_lock (instance_of c) (en_pid e) locks of
                          Inl err \<Rightarrow> (Refused (StartupFailed err), locks, d0)
                        | Inr locks' \<Rightarrow> start_locked e c locks' d0)))"

section \<open>Shutting down\<close>

text \<open>
  A signal or the IPC command ends the wait. \<open>fusermount t\<close> is what the command for \<open>t\<close> gives: None if it
  cannot be run, else whether it succeeded; only the first falls back to umount.
\<close>

definition unmount_commands :: "(path \<Rightarrow> bool option) \<Rightarrow> path \<Rightarrow> command list" where
  "unmount_commands fusermount t = Fusermount t # (if fusermount t = None then [UmountLazy t] else [])"

definition DRAIN_MS :: nat where "DRAIN_MS = 15000"

text \<open>\<open>ends k\<close>: how long after the token is cancelled the task \<open>k\<close> ends, None for never. The drain waits for
  all, up to the limit; what is left is aborted.\<close>

definition still_pending :: "(task \<Rightarrow> nat option) \<Rightarrow> task list \<Rightarrow> task list" where
  "still_pending ends tasks = filter (\<lambda>k. case ends k of None \<Rightarrow> True | Some ms \<Rightarrow> DRAIN_MS \<le> ms) tasks"

fun last_end :: "(task \<Rightarrow> nat option) \<Rightarrow> task list \<Rightarrow> nat" where
  "last_end ends [] = 0"
| "last_end ends (k # ks) = max (case ends k of None \<Rightarrow> 0 | Some ms \<Rightarrow> ms) (last_end ends ks)"

definition drain_time :: "(task \<Rightarrow> nat option) \<Rightarrow> task list \<Rightarrow> nat" where
  "drain_time ends tasks = (if still_pending ends tasks = [] then last_end ends tasks else DRAIN_MS)"

record ended =
  ed_commands :: "command list"
  ed_waited :: nat
  ed_aborted :: "task list"
  ed_dropped :: "path list"
  ed_locks :: flocks

definition shutdown_daemon :: "(path \<Rightarrow> bool option) \<Rightarrow> (task \<Rightarrow> nat option) \<Rightarrow> nat \<Rightarrow> 'l running \<Rightarrow> ended" where
  "shutdown_daemon fusermount ends pid r =
     \<lparr>ed_commands = rn_commands r @ concat (map (unmount_commands fusermount \<circ> fst) (rn_mounted r)),
      ed_waited = drain_time ends (rn_tasks r), ed_aborted = still_pending ends (rn_tasks r),
      ed_dropped = map fst (rn_mounted r), ed_locks = release pid (rn_locks r)\<rparr>"

section \<open>The server's socket\<close>

datatype socket = NoSocket | StaleSocket | LiveSocket

datatype ipc_error = SocketInUse | BindFailed

text \<open>\<open>answers\<close>: whether a live peer takes the connection within 200 ms; \<open>removes\<close>: whether the old socket file
  can be removed.\<close>

definition ipc_bind :: "bool \<Rightarrow> bool \<Rightarrow> bool \<Rightarrow> socket \<Rightarrow> (ipc_error + unit) \<times> socket" where
  "ipc_bind answers removes binds s =
     (if s = LiveSocket \<and> answers then (Inl SocketInUse, s)
      else let s' = (if removes then NoSocket else s)
           in if binds \<and> s' = NoSocket then (Inr (), LiveSocket) else (Inl BindFailed, s'))"

text \<open>
  What happens while the server runs. A client subscribes to the broadcast when it is accepted; the log lines
  and the status it is greeted with are taken after that. The broadcast keeps the last messages a client has
  not taken yet; what it loses, it is told as one lag. \<open>ClientTook i\<close>: the client \<open>i\<close>, in the order
  of the accepts, is given its next message; \<open>ClientGone i\<close>: it closed the connection, or writing to
  it failed; \<open>ClientShutdown i\<close>: it sent the command, which ends it and cancels the token.
\<close>

datatype ipc_event = ClientAccepted "log_line list" "bool \<times> int option" | AcceptFailed
  | Broadcast daemon_message | ClientTook nat | ClientGone nat | ClientShutdown nat | ShutdownRequested

record ipc_client =
  ic_recent :: "log_line list"
  ic_status :: "bool \<times> int option"
  ic_taken :: "daemon_message received list"
  ic_missed :: nat
  ic_queue :: "daemon_message list"
  ic_open :: bool

definition IPC_CAPACITY :: nat where "IPC_CAPACITY = 1024"

definition accept_client :: "log_line list \<Rightarrow> bool \<times> int option \<Rightarrow> ipc_client" where
  "accept_client recent st =
     \<lparr>ic_recent = recent, ic_status = st, ic_taken = [], ic_missed = 0, ic_queue = [], ic_open = True\<rparr>"

definition queue_message :: "daemon_message \<Rightarrow> ipc_client \<Rightarrow> ipc_client" where
  "queue_message m c =
     c\<lparr>ic_missed := (if length (ic_queue c) \<ge> IPC_CAPACITY then Suc (ic_missed c) else ic_missed c),
       ic_queue := push_bounded IPC_CAPACITY (ic_queue c) m\<rparr>"

definition take_message :: "ipc_client \<Rightarrow> ipc_client" where
  "take_message c =
     (if \<not> ic_open c then c
      else if ic_missed c > 0 then c\<lparr>ic_taken := ic_taken c @ [RxLagged (ic_missed c)], ic_missed := 0\<rparr>
      else (case ic_queue c of
              [] \<Rightarrow> c
            | m # ms \<Rightarrow> c\<lparr>ic_taken := ic_taken c @ [Rx m], ic_queue := ms\<rparr>))"

definition close_client :: "ipc_client \<Rightarrow> ipc_client" where
  "close_client c = c\<lparr>ic_open := False\<rparr>"

definition at_client :: "nat \<Rightarrow> (ipc_client \<Rightarrow> ipc_client) \<Rightarrow> ipc_client list \<Rightarrow> ipc_client list" where
  "at_client i f cs = (if i < length cs then cs[i := f (cs ! i)] else cs)"

text \<open>None: the server still runs.\<close>

fun ipc_loop :: "ipc_event list \<Rightarrow> ipc_client list \<Rightarrow> ipc_client list option" where
  "ipc_loop [] cs = None"
| "ipc_loop (ClientAccepted recent st # es) cs = ipc_loop es (cs @ [accept_client recent st])"
| "ipc_loop (AcceptFailed # es) cs = ipc_loop es cs"
| "ipc_loop (Broadcast m # es) cs = ipc_loop es (map (queue_message m) cs)"
| "ipc_loop (ClientTook i # es) cs = ipc_loop es (at_client i take_message cs)"
| "ipc_loop (ClientGone i # es) cs = ipc_loop es (at_client i close_client cs)"
| "ipc_loop (ClientShutdown i # es) cs = Some (map (queue_message Goodbye) (at_client i close_client cs))"
| "ipc_loop (ShutdownRequested # es) cs = Some (map (queue_message Goodbye) cs)"

text \<open>What a client is sent: one that is still there takes what is left for it.\<close>

definition left_for :: "ipc_client \<Rightarrow> daemon_message received list" where
  "left_for c = (if ic_missed c > 0 then [RxLagged (ic_missed c)] else []) @ map Rx (ic_queue c)"

definition sent_to :: "hello_payload \<Rightarrow> ipc_client \<Rightarrow> daemon_message list" where
  "sent_to hello c =
     client_stream hello (ic_recent c) (ic_status c) (ic_taken c @ (if ic_open c then left_for c else []))"

definition run_ipc_server ::
  "bool \<Rightarrow> bool \<Rightarrow> bool \<Rightarrow> hello_payload \<Rightarrow> ipc_event list \<Rightarrow> socket \<Rightarrow> (ipc_error + daemon_message list list option) \<times> socket" where
  "run_ipc_server answers removes binds hello es s =
     (case ipc_bind answers removes binds s of
        (Inl err, s') \<Rightarrow> (Inl err, s')
      | (Inr _, s') \<Rightarrow>
          (case ipc_loop es [] of
             None \<Rightarrow> (Inr None, s')
           | Some cs \<Rightarrow> (Inr (Some (map (sent_to hello) cs)), if removes then NoSocket else StaleSocket)))"

section \<open>Commands of the client\<close>

text \<open>What connecting to a socket gives: an error, or the waits that follow the greeting.\<close>

type_synonym connection = "client_error + wait_result list"

definition fetch_recording_line ::
  "(nat \<Rightarrow> string) \<Rightarrow> nat \<Rightarrow> client_error + path \<Rightarrow> connection \<Rightarrow> string option" where
  "fetch_recording_line format_duration now socket conn =
     (case (socket, conn) of
        (Inr _, Inr ws) \<Rightarrow>
          (case recv_discovery_status ws of
             None \<Rightarrow> None
           | Some (Inr (enabled, started_at)) \<Rightarrow> Some (format_recording format_duration now enabled started_at)
           | Some (Inl _) \<Rightarrow> Some ''Recording: unknown'')
      | _ \<Rightarrow> Some ''Recording: unknown (daemon not running)'')"

text \<open>Widths count characters, not bytes.\<close>

definition char_count :: "string \<Rightarrow> nat" where
  "char_count s = length (filter (\<lambda>c. \<not> (128 \<le> code_of c \<and> code_of c < 192)) s)"

definition pad_right :: "nat \<Rightarrow> string \<Rightarrow> string" where
  "pad_right n s = s @ replicate (n - char_count s) (CHR '' '')"

definition pad_left :: "nat \<Rightarrow> string \<Rightarrow> string" where
  "pad_left n s = replicate (n - char_count s) (CHR '' '') @ s"

definition stat_line :: "string \<Rightarrow> string list \<Rightarrow> string" where
  "stat_line name cols = pad_right 32 name @ concat (map (\<lambda>c. ''  '' @ pad_left 8 c) cols)"

datatype stat_error = DbUnavailable | InvalidWindow string | QueryFailed

definition stat_table :: "string \<Rightarrow> string option \<Rightarrow> process_summary list \<Rightarrow> string list" where
  "stat_table recording window rows =
     (let win = (case window of None \<Rightarrow> ''24h'' | Some w \<Rightarrow> w)
      in [recording, ''Window: last '' @ win, [], stat_line ''PROCESS'' [''HIT'', ''MISS'', ''META'', ''TOTAL''],
          replicate 72 (CHR ''-'')] @
         (if rows = [] then [''(no data in the last '' @ win @ '')''] else []) @
         map (\<lambda>r. stat_line (ps_process_name r)
                    [decimal (ps_hit r), decimal (ps_miss r), decimal (ps_meta r), decimal (ps_total r)]) rows)"

text \<open>\<open>open_readonly name\<close>: the database of the instance, if it opens; \<open>parse_duration\<close> is of humantime.\<close>

definition run_stat ::
  "string \<Rightarrow> client_error + string \<Rightarrow> (string \<Rightarrow> cache_db option) \<Rightarrow> (string \<Rightarrow> nat option) \<Rightarrow> nat \<Rightarrow>
   string option \<Rightarrow> string option \<Rightarrow> nat \<Rightarrow> stat_error + string list" where
  "run_stat recording name open_readonly parse_duration now window kind limit =
     (case name of
        Inl _ \<Rightarrow> Inr [recording]
      | Inr n \<Rightarrow>
          (case open_readonly n of
             None \<Rightarrow> Inl DbUnavailable
           | Some db \<Rightarrow>
               (case window of
                  Some w \<Rightarrow>
                    (case parse_duration w of
                       None \<Rightarrow> Inl (InvalidWindow w)
                     | Some s \<Rightarrow>
                         (case stat_rows now (Some s) kind limit db of
                            None \<Rightarrow> Inl QueryFailed
                          | Some rows \<Rightarrow> Inr (stat_table recording window rows)))
                | None \<Rightarrow>
                    (case stat_rows now None kind limit db of
                       None \<Rightarrow> Inl QueryFailed
                     | Some rows \<Rightarrow> Inr (stat_table recording window rows)))))"

text \<open>\<open>conn\<close>: the waits for the status sent on connect; \<open>sends\<close>: whether the command can be written;
  \<open>next_waits\<close>: the waits after it. None is to wait on.\<close>

definition run_toggle ::
  "(nat \<Rightarrow> string) \<Rightarrow> nat \<Rightarrow> client_error + path \<Rightarrow> connection \<Rightarrow> bool \<Rightarrow> wait_result list \<Rightarrow> (client_error + string) option" where
  "run_toggle format_duration now socket conn sends next_waits =
     (case socket of
        Inl err \<Rightarrow> Some (Inl err)
      | Inr _ \<Rightarrow>
          (case conn of
             Inl err \<Rightarrow> Some (Inl err)
           | Inr first_waits \<Rightarrow>
               (case recv_discovery_status first_waits of
                  None \<Rightarrow> None
                | Some (Inl err) \<Rightarrow> Some (Inl err)
                | Some (Inr _) \<Rightarrow>
                    if \<not> sends then Some (Inl Disconnected)
                    else (case recv_discovery_status next_waits of
                            None \<Rightarrow> None
                          | Some (Inl err) \<Rightarrow> Some (Inl err)
                          | Some (Inr (enabled, started_at)) \<Rightarrow>
                              Some (Inr (format_recording format_duration now enabled started_at))))))"

text \<open>With several instances running and none named, the line about the recording asks which one; the name for
  the table cannot be resolved whatever is answered, so the table is not printed, and nothing says so.\<close>

lemma stat_ignores_choice:
  "run_stat recording (resolve_instance_name None (i # j # found) stems) open_readonly parse_duration now window kind limit =
     Inr [recording]"
  by (cases i) (simp add: resolve_instance_name_def run_stat_def)

section \<open>A daemon that runs\<close>

abbreviation lock_of :: "('r, 'l) start_env \<Rightarrow> path \<Rightarrow> string" where
  "lock_of e \<equiv> target_lock_name (en_hash e)"

lemma on_disk_fields [simp]:
  "rn_locks (on_disk f r) = rn_locks r" "rn_mounted (on_disk f r) = rn_mounted r" "rn_tasks (on_disk f r) = rn_tasks r"
  "rn_commands (on_disk f r) = rn_commands r"
  by (simp_all add: on_disk_def)

lemma reconcile_mount_fields [simp]:
  "rn_locks (reconcile_mount e c t r) = rn_locks r" "rn_mounted (reconcile_mount e c t r) = rn_mounted r"
  "rn_tasks (reconcile_mount e c t r) = rn_tasks r"
  by (simp_all add: reconcile_mount_def split: prod.split)

lemma clean_mount_point_fields [simp]:
  "rn_locks (clean_mount_point e c t r) = rn_locks r" "rn_mounted (clean_mount_point e c t r) = rn_mounted r"
  "rn_tasks (clean_mount_point e c t r) = rn_tasks r"
  by (simp_all add: clean_mount_point_def)

text \<open>A turn of the loop takes at most the lock of its target; a turn that succeeds has mounted it.\<close>

lemma start_target_locks:
  "start_target e c t r = (x, r') \<Longrightarrow> rn_locks r' = rn_locks r \<or> rn_locks r' = (lock_of e t, en_pid e) # rn_locks r"
  by (auto simp: start_target_def Let_def acquire_target_Inr split: sum.splits prod.splits if_splits)

lemma start_target_ok:
  assumes "start_target e c t r = (None, r')"
  shows "\<exists>m. assemble_mount (en_compile e) (en_is_match e) (en_hash e) (base_cache_dir c) (en_capacity e) c t = Inr m \<and>
    rn_mounted r' = rn_mounted r @ [(t, m)] \<and> lock_of e t \<notin> fst ` set (rn_locks r) \<and>
    rn_locks r' = (lock_of e t, en_pid e) # rn_locks r \<and> rn_tasks r' = rn_tasks r @ mount_tasks t m @ watch_tasks t m"
  using assms by (auto simp: start_target_def Let_def acquire_target_Inr split: sum.splits prod.splits if_splits)

lemma choose_preset_error: "choose_preset compile is_match c = Inl err \<Longrightarrow> \<exists>x. err = PresetError x"
  by (auto simp: choose_preset_def split: if_splits sum.splits)

lemma assemble_mount_error:
  "assemble_mount compile is_match hash base cap c t = Inl err \<Longrightarrow> (\<exists>x. err = PresetError x) \<or> (\<exists>x. err = WindowError x)"
  by (auto simp: assemble_mount_def Let_def split: sum.splits dest: choose_preset_error)

lemma start_target_refused:
  assumes "start_target e c t r = (Some (StartupFailed (TargetMounted t' h)), r')"
  shows "lock_of e t \<in> fst ` set (rn_locks r)"
proof (rule ccontr)
  assume "\<not> ?thesis"
  then have "acquire_target_lock (en_hash e) (en_mounts e t) t (en_pid e) (rn_locks r) =
      Inr ((lock_of e t, en_pid e) # rn_locks r)"
    by (simp add: acquire_target_Inr)
  with assms show False
    by (auto simp: start_target_def Let_def split: sum.splits prod.splits if_splits
        dest: choose_preset_error assemble_mount_error)
qed

lemma release_own: "release pid ((n, pid) # locks) = release pid locks"
  by (simp add: release_def)

lemma release_none: "pid \<notin> snd ` set locks \<Longrightarrow> release pid locks = locks"
  by (auto simp: release_def filter_id_conv)

lemma start_targets_release:
  "start_targets e c ts r = (x, r') \<Longrightarrow> release (en_pid e) (rn_locks r') = release (en_pid e) (rn_locks r)"
proof (induction ts arbitrary: r)
  case (Cons t ts)
  obtain y r1 where s: "start_target e c t r = (y, r1)" by (metis prod.collapse)
  have "release (en_pid e) (rn_locks r1) = release (en_pid e) (rn_locks r)"
    using start_target_locks [OF s] by (auto simp: release_own)
  with Cons s show ?case by (cases y) auto
qed simp

text \<open>The loop over the targets.\<close>

lemma start_targets_ok:
  assumes "start_targets e c ts r = (None, r')"
  shows "\<exists>ms. length ms = length ts \<and> rn_mounted r' = rn_mounted r @ zip ts ms \<and>
    (\<forall>(t, m) \<in> set (zip ts ms). assemble_mount (en_compile e) (en_is_match e) (en_hash e) (base_cache_dir c) (en_capacity e) c t = Inr m) \<and>
    rn_tasks r' = rn_tasks r @ concat (map (\<lambda>(t, m). mount_tasks t m @ watch_tasks t m) (zip ts ms)) \<and>
    rn_locks r' = map (\<lambda>t. (lock_of e t, en_pid e)) (rev ts) @ rn_locks r \<and>
    distinct (map (lock_of e) ts) \<and> lock_of e ` set ts \<inter> fst ` set (rn_locks r) = {}"
  using assms
proof (induction ts arbitrary: r)
  case (Cons t ts)
  then obtain r1 where s: "start_target e c t r = (None, r1)" and rest: "start_targets e c ts r1 = (None, r')"
    by (auto split: prod.splits option.splits)
  from start_target_ok [OF s] obtain m where m:
    "assemble_mount (en_compile e) (en_is_match e) (en_hash e) (base_cache_dir c) (en_capacity e) c t = Inr m"
    "rn_mounted r1 = rn_mounted r @ [(t, m)]" "lock_of e t \<notin> fst ` set (rn_locks r)"
    "rn_locks r1 = (lock_of e t, en_pid e) # rn_locks r" "rn_tasks r1 = rn_tasks r @ mount_tasks t m @ watch_tasks t m" by blast
  from Cons.IH [OF rest] obtain ms where
    "length ms = length ts" "rn_mounted r' = rn_mounted r1 @ zip ts ms"
    "\<forall>(t, m) \<in> set (zip ts ms). assemble_mount (en_compile e) (en_is_match e) (en_hash e) (base_cache_dir c) (en_capacity e) c t = Inr m"
    "rn_tasks r' = rn_tasks r1 @ concat (map (\<lambda>(t, m). mount_tasks t m @ watch_tasks t m) (zip ts ms))"
    "rn_locks r' = map (\<lambda>t. (lock_of e t, en_pid e)) (rev ts) @ rn_locks r1"
    "distinct (map (lock_of e) ts)" "lock_of e ` set ts \<inter> fst ` set (rn_locks r1) = {}" by blast
  with m show ?case by (intro exI [of _ "m # ms"]) auto
qed simp

lemma start_targets_refused:
  "start_targets e c ts r = (Some (StartupFailed (TargetMounted t h)), r') \<Longrightarrow>
   \<not> (distinct (map (lock_of e) ts) \<and> lock_of e ` set ts \<inter> fst ` set (rn_locks r) = {})"
proof (induction ts arbitrary: r)
  case (Cons u ts)
  obtain y r1 where s: "start_target e c u r = (y, r1)" by (metis prod.collapse)
  show ?case
  proof (cases y)
    case None
    with Cons s have "\<not> (distinct (map (lock_of e) ts) \<and> lock_of e ` set ts \<inter> fst ` set (rn_locks r1) = {})" by simp
    moreover have "lock_of e u \<notin> fst ` set (rn_locks r)" "rn_locks r1 = (lock_of e u, en_pid e) # rn_locks r"
      using start_target_ok [OF s [unfolded None]] by blast+
    moreover have "lock_of e u \<notin> lock_of e ` set ts" if "distinct (map (lock_of e) (u # ts))" using that by simp
    ultimately show ?thesis by force
  next
    case (Some err)
    with Cons.prems s show ?thesis using start_target_refused [of e c u r t h r1] by auto
  qed
qed simp

lemma start_targets_instance: "start_targets e c ts r = (Some err, r') \<Longrightarrow> err \<noteq> StartupFailed (AlreadyRunning n)"
proof (induction ts arbitrary: r)
  case (Cons t ts)
  have "start_target e c t r = (Some (StartupFailed (AlreadyRunning n)), r1) \<Longrightarrow> False" for r1
    by (auto simp: start_target_def Let_def acquire_target_lock_def split: sum.splits prod.splits if_splits option.splits
        dest: choose_preset_error assemble_mount_error)
  with Cons show ?case by (auto split: prod.splits option.splits)
qed simp

lemma validate_targets_error:
  "validate_targets found canonicalize ts = Inl err \<Longrightarrow> err \<noteq> AlreadyRunning n \<and> err \<noteq> TargetMounted t h"
proof -
  have "validate_loop found canonicalize seen ts = Inl err \<Longrightarrow> err \<noteq> AlreadyRunning n \<and> err \<noteq> TargetMounted t h" for seen
    by (induction ts arbitrary: seen) (auto simp: Let_def split: if_splits)
  then show "validate_targets found canonicalize ts = Inl err \<Longrightarrow> ?thesis"
    by (auto simp: validate_targets_def split: if_splits)
qed

lemma first_state_fields [simp]:
  "rn_locks (first_state e c db locks d) = locks" "rn_mounted (first_state e c db locks d) = []"
  "rn_tasks (first_state e c db locks d) = [IpcTask, PruneTask]"
  by (simp_all add: first_state_def Let_def)

text \<open>How a start that got its instance lock ends.\<close>

lemma start_locked_Running:
  assumes "start_locked e c locks d = (Running r, locks', d')"
  shows "\<exists>db d0. start_targets e c (targets_of c) (first_state e c db locks d0) = (None, r) \<and> locks' = rn_locks r \<and>
    targets_of c \<noteq> []"
  using assms
  by (auto simp: start_locked_def start_mounts_def fail_start_def validate_targets_def
      split: sum.splits prod.splits bool.splits option.splits if_splits)

lemma start_locked_release:
  assumes "start_locked e c locks d = (out, locks', d')"
  shows "release (en_pid e) locks' = release (en_pid e) locks \<and> (case out of Running r \<Rightarrow> locks' = rn_locks r | _ \<Rightarrow> locks' = release (en_pid e) locks)"
proof -
  have rr: "release p (release p l) = release p l" for p l by (simp add: release_def)
  have "release (en_pid e) (rn_locks r) = release (en_pid e) locks"
    if "start_targets e c (targets_of c) (first_state e c db locks d0) = (x, r)" for x r db d0
    using start_targets_release [OF that] by simp
  then show ?thesis using assms rr
    by (auto simp: start_locked_def start_mounts_def fail_start_def
        split: sum.splits prod.splits bool.splits option.splits if_splits)
qed

lemma start_locked_refused:
  assumes "start_locked e c locks d = (Refused (StartupFailed err), locks', d')"
    and "distinct (map (lock_of e) (targets_of c))" and "lock_of e ` set (targets_of c) \<inter> fst ` set locks = {}"
  shows "err \<noteq> AlreadyRunning n \<and> err \<noteq> TargetMounted t h"
proof -
  have "start_targets e c (targets_of c) (first_state e c db locks d0) \<noteq> (Some (StartupFailed (TargetMounted t h)), r)" for db d0 r
    using start_targets_refused [of e c "targets_of c" "first_state e c db locks d0" t h r] assms(2,3) by auto
  moreover have "start_targets e c (targets_of c) (first_state e c db locks d0) \<noteq> (Some (StartupFailed (AlreadyRunning n)), r)" for db d0 r
    using start_targets_instance by blast
  ultimately show ?thesis using assms(1)
    by (auto simp: start_locked_def start_mounts_def fail_start_def
        split: sum.splits prod.splits bool.splits option.splits if_splits dest: validate_targets_error)
qed

text \<open>A run that got to the end holds the instance lock and one lock per target.\<close>

lemma run_daemon_Running:
  assumes "run_daemon e locks d = (Running r, locks', d')"
  shows "\<exists>doc c db d0. en_document e = Some doc \<and> load_from doc = Inr c \<and>
    instance_lock_name (instance_of c) \<notin> fst ` set locks \<and> locks' = rn_locks r \<and> targets_of c \<noteq> [] \<and>
    start_targets e c (targets_of c) (first_state e c db ((instance_lock_name (instance_of c), en_pid e) # locks) d0) = (None, r)"
  using assms
  by (auto simp: run_daemon_def Let_def acquire_instance_Inr split: option.splits sum.splits if_splits dest!: start_locked_Running)

text \<open>C23. A daemon that comes up is complete: every target of its configuration is mounted, in order, with the
  components assembled from the configuration; it holds the lock of its instance and of each target, no two
  of which share a lock; and exactly the tasks these mounts call for are running.\<close>

theorem running_daemon_complete:
  assumes "run_daemon e locks d = (Running r, locks', d')"
  shows "\<exists>doc c. en_document e = Some doc \<and> load_from doc = Inr c \<and> targets_of c \<noteq> [] \<and>
    map fst (rn_mounted r) = targets_of c \<and> distinct (map (lock_of e) (targets_of c)) \<and>
    (\<forall>(t, m) \<in> set (rn_mounted r). (lock_of e t, en_pid e) \<in> set locks' \<and>
       assemble_mount (en_compile e) (en_is_match e) (en_hash e) (base_cache_dir c) (en_capacity e) c t = Inr m) \<and>
    (instance_lock_name (instance_of c), en_pid e) \<in> set locks' \<and>
    rn_tasks r = [IpcTask, PruneTask] @ concat (map (\<lambda>(t, m). mount_tasks t m @ watch_tasks t m) (rn_mounted r))"
proof -
  obtain doc c db d0 where c: "en_document e = Some doc" "load_from doc = Inr c" "locks' = rn_locks r" "targets_of c \<noteq> []"
    and run: "start_targets e c (targets_of c) (first_state e c db ((instance_lock_name (instance_of c), en_pid e) # locks) d0) = (None, r)"
    using run_daemon_Running [OF assms] by blast
  from start_targets_ok [OF run] obtain ms where ms: "length ms = length (targets_of c)"
    "rn_mounted r = zip (targets_of c) ms"
    "\<forall>(t, m) \<in> set (zip (targets_of c) ms).
       assemble_mount (en_compile e) (en_is_match e) (en_hash e) (base_cache_dir c) (en_capacity e) c t = Inr m"
    "rn_tasks r = [IpcTask, PruneTask] @ concat (map (\<lambda>(t, m). mount_tasks t m @ watch_tasks t m) (zip (targets_of c) ms))"
    "rn_locks r = map (\<lambda>t. (lock_of e t, en_pid e)) (rev (targets_of c)) @ (instance_lock_name (instance_of c), en_pid e) # locks"
    "distinct (map (lock_of e) (targets_of c))" by auto
  have "t \<in> set (targets_of c)" if "(t, m) \<in> set (rn_mounted r)" for t m
    using that ms(2) by (auto dest: set_zip_leftD)
  then have "\<forall>(t, m) \<in> set (rn_mounted r). (lock_of e t, en_pid e) \<in> set locks'" using ms(5) c(3) by auto
  with c ms show ?thesis by (intro exI [of _ doc] exI [of _ c]) auto
qed


text \<open>C25. A daemon that was shut down can be started again: with the same configuration, whatever else has changed
  on the host except its locks, no start is refused because the instance seems to run or a target to be mounted.\<close>

theorem restart_is_not_locked_out:
  assumes "run_daemon e locks d = (Running r, locks', d')" and "en_pid e \<notin> snd ` set locks"
    and "en_document e2 = en_document e" and "en_hash e2 = en_hash e"
    and "run_daemon e2 (ed_locks (shutdown_daemon fusermount ends (en_pid e) r)) d2 = (Refused (StartupFailed err), l2, d3)"
  shows "err \<noteq> AlreadyRunning n \<and> err \<noteq> TargetMounted t h"
proof -
  obtain doc c db d0 where c: "en_document e = Some doc" "load_from doc = Inr c" "locks' = rn_locks r"
    "instance_lock_name (instance_of c) \<notin> fst ` set locks"
    and run: "start_targets e c (targets_of c) (first_state e c db ((instance_lock_name (instance_of c), en_pid e) # locks) d0) = (None, r)"
    using run_daemon_Running [OF assms(1)] by blast
  from start_targets_ok [OF run] have free: "distinct (map (lock_of e) (targets_of c))"
    "lock_of e ` set (targets_of c) \<inter> fst ` set ((instance_lock_name (instance_of c), en_pid e) # locks) = {}" by auto
  have "release (en_pid e) (rn_locks r) = locks"
    using start_targets_release [OF run] release_none [OF assms(2)] by (simp add: release_own)
  then have again: "run_daemon e2 locks d2 = (Refused (StartupFailed err), l2, d3)"
    using assms(5) by (simp add: shutdown_daemon_def)
  have "acquire_instance_lock (instance_of c) (en_pid e2) locks = Inr ((instance_lock_name (instance_of c), en_pid e2) # locks)"
    using c(4) by (simp add: acquire_instance_Inr)
  with again c(1,2) assms(3) have
    "start_locked e2 c ((instance_lock_name (instance_of c), en_pid e2) # locks)
      (snd (make_dir e2 (path_from (lc_log_directory (cf_logging c))) d2)) = (Refused (StartupFailed err), l2, d3)"
    by (auto simp: run_daemon_def Let_def split: if_splits)
  from start_locked_refused [OF this] show ?thesis using free assms(4) by simp
qed


section \<open>The clients of the server\<close>

text \<open>What is broadcast before the server ends.\<close>

fun broadcasts :: "ipc_event list \<Rightarrow> daemon_message list" where
  "broadcasts [] = []"
| "broadcasts (Broadcast m # es) = m # broadcasts es"
| "broadcasts (ShutdownRequested # es) = []"
| "broadcasts (ClientShutdown i # es) = []"
| "broadcasts (_ # es) = broadcasts es"

definition accepted :: "ipc_event list \<Rightarrow> nat" where
  "accepted es = length (filter (\<lambda>x. case x of ClientAccepted _ _ \<Rightarrow> True | _ \<Rightarrow> False) es)"

text \<open>The messages a client has been and will be given.\<close>

definition given :: "ipc_client \<Rightarrow> daemon_message list" where
  "given c = concat (map (\<lambda>x. case x of Rx m \<Rightarrow> [m] | _ \<Rightarrow> []) (ic_taken c)) @ ic_queue c"

text \<open>Client \<open>c\<close> was accepted with this greeting and is still there; \<open>bs\<close> has been broadcast since.\<close>

definition client_follows :: "log_line list \<Rightarrow> bool \<times> int option \<Rightarrow> daemon_message list \<Rightarrow> ipc_client \<Rightarrow> bool" where
  "client_follows recent st bs c =
     (ic_recent c = recent \<and> ic_status c = st \<and> ic_open c \<and> RxClosed \<notin> set (ic_taken c) \<and>
      subseq (given c) bs \<and> length (ic_queue c) \<le> length bs \<and> (length bs \<le> IPC_CAPACITY \<longrightarrow> given c = bs))"

lemma follows_accept: "client_follows recent st [] (accept_client recent st)"
  by (simp add: client_follows_def accept_client_def given_def)

lemma queue_message_fields [simp]:
  "ic_recent (queue_message m c) = ic_recent c" "ic_status (queue_message m c) = ic_status c"
  "ic_open (queue_message m c) = ic_open c" "ic_taken (queue_message m c) = ic_taken c"
  by (simp_all add: queue_message_def)

lemma subseq_drop_oldest: "subseq (xs @ q) bs \<Longrightarrow> subseq (xs @ tl q @ [m]) (bs @ [m])"
proof -
  assume "subseq (xs @ q) bs"
  moreover have "subseq (xs @ tl q) (xs @ q)" by (intro list_emb_append_mono) (cases q, auto)
  ultimately have "subseq (xs @ tl q) bs" by (rule subseq_order.trans [rotated])
  then have "subseq ((xs @ tl q) @ [m]) (bs @ [m])" by (rule list_emb_append_mono) simp
  then show ?thesis by simp
qed

lemma follows_broadcast:
  assumes "client_follows recent st bs c"
  shows "client_follows recent st (bs @ [m]) (queue_message m c)"
proof -
  let ?xs = "concat (map (\<lambda>x. case x of Rx m \<Rightarrow> [m] | _ \<Rightarrow> []) (ic_taken c))"
  have "subseq ((?xs @ ic_queue c) @ [m]) (bs @ [m])"
    using assms by (intro list_emb_append_mono) (simp_all add: client_follows_def given_def)
  then have "subseq (given (queue_message m c)) (bs @ [m])"
    using assms subseq_drop_oldest [of ?xs "ic_queue c" bs m]
    by (auto simp: client_follows_def given_def queue_message_def push_bounded_def)
  with assms show ?thesis
    by (auto simp: client_follows_def queue_message_def push_bounded_def given_def)
qed

lemma follows_take: "client_follows recent st bs c \<Longrightarrow> client_follows recent st bs (take_message c)"
  by (auto simp: client_follows_def take_message_def given_def split: list.splits)

lemma at_client_other [simp]: "i \<noteq> k \<Longrightarrow> at_client k f cs ! i = cs ! i"
  by (simp add: at_client_def)

lemma at_client_length [simp]: "length (at_client k f cs) = length cs"
  by (simp add: at_client_def)

lemma at_client_here: "i < length cs \<Longrightarrow> at_client i f cs ! i = f (cs ! i)"
  by (simp add: at_client_def)

lemma accepted_simps [simp]:
  "accepted [] = 0" "accepted (ClientAccepted l s # es) = Suc (accepted es)" "accepted (AcceptFailed # es) = accepted es"
  "accepted (Broadcast m # es) = accepted es" "accepted (ClientTook i # es) = accepted es"
  "accepted (ClientGone i # es) = accepted es" "accepted (ClientShutdown i # es) = accepted es"
  "accepted (ShutdownRequested # es) = accepted es"
  by (simp_all add: accepted_def)

definition stays :: "nat \<Rightarrow> ipc_event list \<Rightarrow> bool" where
  "stays i es = (ClientGone i \<notin> set es \<and> ClientShutdown i \<notin> set es)"

lemma follows_to_the_end:
  assumes "ipc_loop es cs = Some ds" and "i < length cs" and "client_follows recent st bs (cs ! i)" and "stays i es"
  shows "\<exists>c. client_follows recent st (bs @ broadcasts es) c \<and> ds ! i = queue_message Goodbye c"
  using assms
proof (induction es cs arbitrary: bs rule: ipc_loop.induct)
  case (2 l s es cs)
  then show ?case by (simp add: nth_append stays_def)
next
  case (4 m es cs)
  from 4(3-) have "client_follows recent st (bs @ [m]) (map (queue_message m) cs ! i)" by (simp add: follows_broadcast)
  with 4(1) [of "bs @ [m]"] 4(2,3,5) show ?case by (simp add: stays_def)
next
  case (5 k es cs)
  then have "client_follows recent st bs (at_client k take_message cs ! i)"
    by (cases "k = i") (simp_all add: at_client_here follows_take)
  with 5 show ?case by (simp add: stays_def)
next
  case (7 k es cs)
  then have "ds ! i = queue_message Goodbye (cs ! i)" by (auto simp: stays_def)
  with 7 show ?case by auto
next
  case (8 es cs)
  then show ?case by auto
qed (auto simp: stays_def)

lemma ipc_loop_running:
  "ipc_loop es cs = None \<Longrightarrow> \<exists>cs1. length cs1 = length cs + accepted es \<and> (\<forall>fs. ipc_loop (es @ fs) cs = ipc_loop fs cs1)"
  by (induction es cs rule: ipc_loop.induct) (force+)

lemma forward_all:
  "RxClosed \<notin> set rs \<Longrightarrow> Rx Goodbye \<notin> set rs \<Longrightarrow>
   forward (rs @ qs) = concat (map (\<lambda>x. case x of Rx m \<Rightarrow> [m] | _ \<Rightarrow> []) rs) @ forward qs"
  by (induction rs rule: forward.induct) auto

lemma forward_queue: "Goodbye \<notin> set ms \<Longrightarrow> forward (map Rx (ms @ [Goodbye])) = ms @ [Goodbye]"
  by (induction ms) auto

lemma subseq_members: "subseq xs ys \<Longrightarrow> x \<in> set xs \<Longrightarrow> x \<in> set ys"
  by (induction rule: list_emb.induct) auto

lemma forward_left: "Rx Goodbye \<notin> set rs \<Longrightarrow> RxClosed \<notin> set rs \<Longrightarrow> Goodbye \<notin> set ms \<Longrightarrow>
   forward (rs @ (if k > 0 then [RxLagged k] else []) @ map Rx (ms @ [Goodbye])) =
     concat (map (\<lambda>x. case x of Rx m \<Rightarrow> [m] | _ \<Rightarrow> []) rs) @ ms @ [Goodbye]"
  using forward_queue [of ms] by (simp add: forward_all)



section \<open>A sample start\<close>

definition sample_start :: "(unit, unit) start_env" where
  "sample_start =
     \<lparr>en_document = Some minimal_doc, en_appender = True, en_pid = 7, en_found = (\<lambda>p. True), en_canonicalize = (\<lambda>p. None),
      en_hash = length, en_mkdir = (\<lambda>p. True), en_db_file = None, en_memory = True, en_mounts = (\<lambda>t. None),
      en_backing = (\<lambda>t. True), en_capacity = None, en_compile = (\<lambda>s. None), en_is_match = (\<lambda>r s. False),
      en_fuse = (\<lambda>t. True), en_sigterm = True, en_now = 0, en_new_lru = ()\<rparr>"

abbreviation empty_disk :: disk where "empty_disk \<equiv> \<lparr>ents = [], stuck = []\<rparr>"

definition no_files :: "disk \<Rightarrow> bool" where
  "no_files d = (\<forall>e \<in> set (ents d). snd e = DDir)"

lemma update_members: "x \<in> set (AList.update k v xs) \<Longrightarrow> x = (k, v) \<or> x \<in> set xs"
  by (induction xs) (auto split: if_splits)

lemma make_dirs_no_files: "no_files d \<Longrightarrow> \<exists>d'. make_dirs ps d = (True, d') \<and> no_files d'"
proof (induction ps arbitrary: d)
  case (Cons p ps)
  have "n = DDir" if "node_at d p = Some n" for n
    using that Cons.prems by (auto simp: node_at_def no_files_def split: if_splits dest!: map_of_SomeD)
  moreover have "no_files (put_node p DDir d)"
    using Cons.prems by (auto simp: no_files_def put_node_def dest!: update_members)
  ultimately show ?case using Cons by (auto split: option.splits node.splits)
qed simp

lemma sample_makes_dirs: "no_files d \<Longrightarrow> \<exists>d'. make_dir sample_start p d = (True, d') \<and> no_files d'"
  using make_dirs_no_files by (simp add: make_dir_def create_dir_all_def sample_start_def del: upt_Suc)

lemma default_window: "scheduler_new ''08:00'' ''02:00'' \<noteq> Inl e"
  by (simp add: scheduler_new_def parse_hhmm_def split_once.simps parse_u8_def parse_unsigned_def is_digit_def
      code_of_def digits_val_def digit_val_def)

lemma minimal_mount: "\<exists>m. assemble_mount (\<lambda>s. None :: unit option) (\<lambda>r s. False) length base None minimal_config t = Inr m"
  using default_window
  by (cases "scheduler_new ''08:00'' ''02:00''")
    (auto simp: assemble_mount_def choose_preset_def minimal_config_def default_preset_name_def schedule_default_def
      default_window_start_def default_window_end_def Let_def)

lemma sample_parts:
  "en_hash sample_start = length" "en_pid sample_start = 7" "en_mounts sample_start t = None" "en_backing sample_start t"
  "en_fuse sample_start t" "en_sigterm sample_start" "en_compile sample_start = (\<lambda>s. None)" "en_capacity sample_start = None"
  "en_is_match sample_start = (\<lambda>r s. False)" "en_document sample_start = Some minimal_doc" "en_appender sample_start"
  "en_canonicalize sample_start = (\<lambda>p. None)" "en_found sample_start = (\<lambda>p. True)"
  by (simp_all add: sample_start_def)

lemma sample_target:
  assumes "no_files (sv_disk (rn_server r))" and "target_lock_name length t \<notin> fst ` set (rn_locks r)"
  shows "\<exists>r'. start_target sample_start minimal_config t r = (None, r')"
proof -
  obtain d where d: "make_dir sample_start (mount_dir sample_start minimal_config t) (sv_disk (rn_server r)) = (True, d)"
    using sample_makes_dirs [OF assms(1)] by blast
  obtain m where m: "assemble_mount (\<lambda>s. None :: unit option) (\<lambda>r s. False) length (base_cache_dir minimal_config) None
      minimal_config t = Inr m"
    using minimal_mount by blast
  have "clean_mount_point sample_start minimal_config t r = r"
    by (simp add: clean_mount_point_def sample_parts clean_stale_mount_def find_fscache_mount_holder_def)
  moreover have "acquire_target_lock length None t 7 (rn_locks r) = Inr ((target_lock_name length t, 7) # rn_locks r)"
    using assms(2) by (simp add: acquire_target_Inr)
  moreover have "choose_preset (\<lambda>s. None :: unit option) (\<lambda>r s. False) minimal_config \<noteq> Inl err" for err
    by (simp add: choose_preset_def minimal_config_def default_preset_name_def)
  ultimately show ?thesis using d m
    by (auto simp: start_target_def Let_def sample_parts split: sum.splits)
qed

lemma minimal_targets: "targets_of minimal_config = [[''media'']]"
  by (simp add: targets_of_def minimal_config_def path_from_def split_at.simps)

lemma sample_runs:
  "\<exists>r l d. run_daemon sample_start [] empty_disk = (Running r, l, d) \<and> map fst (rn_mounted r) = [[''media'']] \<and>
     IpcTask \<in> set (rn_tasks r) \<and> release 7 (rn_locks r) = []"
proof -
  have "no_files empty_disk" by (simp add: no_files_def)
  then obtain d0 where d0: "make_dir sample_start (path_from (lc_log_directory (cf_logging minimal_config))) empty_disk = (True, d0)" "no_files d0"
    using sample_makes_dirs by blast
  obtain d1 where d1: "make_dir sample_start (base_cache_dir minimal_config) d0 = (True, d1)" "no_files d1"
    using sample_makes_dirs [OF d0(2)] by blast
  obtain d2 where d2: "make_dir sample_start (butlast (db_path minimal_config)) d1 = (True, d2)" "no_files d2"
    using sample_makes_dirs [OF d1(2)] by blast
  obtain db where db: "open_db sample_start minimal_config = Some db"
    by (simp add: open_db_def sample_start_def)
  let ?l = "[(instance_lock_name (instance_of minimal_config), 7)]"
  have l: "acquire_instance_lock (instance_of minimal_config) 7 [] = Inr ?l" by (simp add: acquire_instance_Inr)
  have "target_lock_name length [''media''] \<notin> fst ` set ?l"
    by (simp add: target_lock_name_def instance_lock_name_def instance_of_def minimal_config_def)
  then obtain r where r: "start_target sample_start minimal_config [''media''] (first_state sample_start minimal_config db ?l d2) = (None, r)"
    using sample_target [of "first_state sample_start minimal_config db ?l d2" "[''media'']"] d2(2)
    by (auto simp: first_state_def Let_def)
  have "map fst (rn_mounted r) = [[''media'']]" "IpcTask \<in> set (rn_tasks r)" "release 7 (rn_locks r) = []"
    using start_target_ok [OF r] by (auto simp: sample_parts release_def)
  with r show ?thesis using d0 d1 d2 db l
    by (simp add: run_daemon_def Let_def sample_parts load_minimal start_locked_def validate_targets_def start_mounts_def minimal_targets)
qed

theorem running_daemon_complete_witness:
  "\<exists>r l d. run_daemon sample_start [] empty_disk = (Running r, l, d) \<and> map fst (rn_mounted r) = [[''media'']] \<and>
     (instance_lock_name ''test'', 7) \<in> set l"
proof -
  obtain r l d where run: "run_daemon sample_start [] empty_disk = (Running r, l, d)" using sample_runs by blast
  from running_daemon_complete [OF run] show ?thesis
    using run by (auto simp: sample_parts load_minimal minimal_targets) (simp add: instance_of_def minimal_config_def)
qed


theorem restart_is_not_locked_out_witness:
  "\<exists>r l d d3. run_daemon sample_start [] empty_disk = (Running r, l, d) \<and>
     run_daemon (sample_start\<lparr>en_found := \<lambda>p. False\<rparr>) (ed_locks (shutdown_daemon (\<lambda>t. None) (\<lambda>k. None) 7 r)) d =
       (Refused (StartupFailed (NotFound [''media''])), [], d3) \<and> NotFound [''media''] \<noteq> AlreadyRunning ''test''"
proof -
  let ?e2 = "sample_start\<lparr>en_found := \<lambda>p. False\<rparr>"
  obtain r l d where run: "run_daemon sample_start [] empty_disk = (Running r, l, d)" and released: "release 7 (rn_locks r) = []"
    using sample_runs by blast
  have "ed_locks (shutdown_daemon (\<lambda>t. None) (\<lambda>k. None) 7 r) = []"
    using released by (simp add: shutdown_daemon_def)
  moreover have again: "\<exists>d3. run_daemon ?e2 [] d = (Refused (StartupFailed (NotFound [''media''])), [], d3)"
    by (simp add: run_daemon_def Let_def load_minimal sample_start_def acquire_instance_lock_def flock_exclusive_def
        start_locked_def minimal_targets validate_targets_def fail_start_def release_def)
  ultimately obtain d3 where refused: "run_daemon ?e2 (ed_locks (shutdown_daemon (\<lambda>t. None) (\<lambda>k. None) (en_pid sample_start) r)) d =
      (Refused (StartupFailed (NotFound [''media''])), [], d3)" by (auto simp: sample_parts)
  have "NotFound [''media''] \<noteq> AlreadyRunning ''test''"
    using restart_is_not_locked_out [OF run _ _ _ refused, of "''test''"] by (simp add: sample_start_def)
  with run refused show ?thesis by (auto simp: sample_parts)
qed


end
