(* ===== verification/Screen.thy ===== *)
theory Screen
  imports Lifecycle
begin

text \<open>
  What the dashboard draws (src/src/tui/ui.rs): every page as the list of the widgets drawn on the
  terminal, in order, each with its area, its text and its colours. The arithmetic of f64 behind the
  figures is that of IEEE 754: to the nearest number of 53 bits, ties to even. The drawing library is an
  argument: how it splits an area by constraints, and how it takes a margin off.
\<close>

section \<open>Figures\<close>

definition round_half_even :: "rat \<Rightarrow> int" where
  "round_half_even q =
     (let f = \<lfloor>q\<rfloor>; r = q - of_int f
      in if r < 1 / 2 \<or> (r = 1 / 2 \<and> even f) then f else f + 1)"

fun bit_count :: "nat \<Rightarrow> nat" where
  "bit_count n = (if n = 0 then 0 else Suc (bit_count (n div 2)))"

declare bit_count.simps [simp del]

text \<open>The exponent of the highest bit of a positive number.\<close>

definition top_bit :: "rat \<Rightarrow> int" where
  "top_bit q =
     (if 1 \<le> q then int (bit_count (nat \<lfloor>q\<rfloor>)) - 1 else - int (bit_count (nat \<lceil>1 / q\<rceil> - 1)))"

definition two_to :: "int \<Rightarrow> rat" where
  "two_to e = (if 0 \<le> e then 2 ^ nat e else 1 / 2 ^ nat (- e))"

text \<open>The nearest f64 of a number that is not negative; the range is that of u64 and its quotients, in which
  neither overflow nor the subnormal numbers occur.\<close>

definition nearest :: "rat \<Rightarrow> rat" where
  "nearest q =
     (if q \<le> 0 then 0
      else let ulp = two_to (top_bit q - 52) in of_int (round_half_even (q / ulp)) * ulp)"

definition as_f64 :: "nat \<Rightarrow> rat" where "as_f64 n = nearest (of_nat n)"

definition f64_div :: "rat \<Rightarrow> rat \<Rightarrow> rat" where "f64_div x y = nearest (x / y)"

text \<open>\<open>{:.1}\<close>: one decimal, exact ties to even.\<close>

definition fixed1 :: "rat \<Rightarrow> string" where
  "fixed1 q =
     (let n = nat (round_half_even (q * 10)) in decimal (n div 10) @ ''.'' @ decimal (n mod 10))"

definition gb :: "nat \<Rightarrow> rat" where "gb n = f64_div (as_f64 n) 1073741824"

definition fmt_bytes :: "nat \<Rightarrow> string" where
  "fmt_bytes n =
     (if n \<ge> 1073741824 then fixed1 (gb n) @ '' GB''
      else if n \<ge> 1048576 then fixed1 (f64_div (as_f64 n) 1048576) @ '' MB''
      else decimal (n div 1024) @ '' KB'')"

definition ratio_of :: "nat \<Rightarrow> nat \<Rightarrow> rat" where
  "ratio_of part whole = (if whole > 0 then min (max (f64_div (as_f64 part) (as_f64 whole)) 0) 1 else 0)"

definition percent_of :: "rat \<Rightarrow> nat" where "percent_of ratio = nat \<lfloor>nearest (ratio * 100)\<rfloor>"

definition hit_rate :: "nat \<Rightarrow> nat \<Rightarrow> string" where
  "hit_rate hits misses =
     (if add64 hits misses > 0
      then fixed1 (nearest (f64_div (as_f64 hits) (as_f64 (add64 hits misses)) * 100)) @ ''%''
      else [CHR 0xE2, CHR 0x80, CHR 0x94])"

section \<open>Times\<close>

record local_time =
  tm_year :: nat
  tm_mon :: nat
  tm_mday :: nat
  tm_hour :: nat
  tm_min :: nat
  tm_sec :: nat

definition zero_pad :: "nat \<Rightarrow> nat \<Rightarrow> string" where
  "zero_pad width n = replicate (width - length (decimal n)) (CHR ''0'') @ decimal n"

definition fmt_time :: "(nat \<Rightarrow> local_time) \<Rightarrow> nat \<Rightarrow> string" where
  "fmt_time localtime t =
     (let tm = localtime t
      in zero_pad 2 (tm_hour tm) @ '':'' @ zero_pad 2 (tm_min tm) @ '':'' @ zero_pad 2 (tm_sec tm))"

definition fmt_datetime :: "(nat \<Rightarrow> local_time) \<Rightarrow> nat \<Rightarrow> string" where
  "fmt_datetime localtime t =
     (let tm = localtime t
      in zero_pad 4 (tm_year tm + 1900) @ ''-'' @ zero_pad 2 (tm_mon tm + 1) @ ''-'' @ zero_pad 2 (tm_mday tm) @ '' '' @
         zero_pad 2 (tm_hour tm) @ '':'' @ zero_pad 2 (tm_min tm) @ '':'' @ zero_pad 2 (tm_sec tm))"

section \<open>Widgets\<close>

datatype color = Black | Red | Green | Yellow | Cyan | White | DarkGray

datatype modifier = Bold | Underlined

record style =
  st_fg :: "color option"
  st_bg :: "color option"
  st_mods :: "modifier list"

definition plain :: style where "plain = \<lparr>st_fg = None, st_bg = None, st_mods = []\<rparr>"

definition fg :: "color \<Rightarrow> style" where "fg c = plain\<lparr>st_fg := Some c\<rparr>"

type_synonym span = "style \<times> string"

definition raw :: "string \<Rightarrow> span list" where "raw s = [(plain, s)]"

record rect =
  re_x :: nat
  re_y :: nat
  re_width :: nat
  re_height :: nat

datatype limit = CLength nat | CMin nat | CPercentage nat

text \<open>A block is its title; all have borders on every side.\<close>

datatype widget =
    Paragraph style "span list list" "string option"
  | Gauge color rat string
  | ListOf "span list list" string
  | Table "style \<times> string list" "(style \<times> string list) list" "limit list" string
  | Block string
  | Clear

type_synonym drawing = "(rect \<times> widget) list"

text \<open>\<open>vertical\<close> and \<open>horizontal\<close> split an area; \<open>inner\<close> takes a margin of one off each side.\<close>

record library =
  lb_vertical :: "limit list \<Rightarrow> rect \<Rightarrow> rect list"
  lb_horizontal :: "limit list \<Rightarrow> rect \<Rightarrow> rect list"
  lb_inner :: "rect \<Rightarrow> rect"

text \<open>\<open>cl_now\<close> is the time of day in seconds, \<open>cl_instant\<close> the monotonic clock in nanoseconds.\<close>

record clock =
  cl_now :: int
  cl_instant :: int
  cl_local :: "nat \<Rightarrow> local_time"

definition dot :: "bool \<Rightarrow> string" where
  "dot filled = [CHR 0xE2, CHR 0x97, if filled then CHR 0x8F else CHR 0x8B]"

definition dash :: string where "dash = [CHR 0xE2, CHR 0x80, CHR 0x94]"

definition bar :: string where "bar = [CHR 0xE2, CHR 0x94, CHR 0x82]"

definition up_down :: string where "up_down = [CHR 0xE2, CHR 0x86, CHR 0x91, CHR 0xE2, CHR 0x86, CHR 0x93]"

definition log_level_color :: "string \<Rightarrow> color" where
  "log_level_color level =
     (let l = trim level
      in if l = ''ERROR'' then Red else if l = ''WARN'' then Yellow else if l = ''INFO'' then Cyan
         else if l = ''DEBUG'' \<or> l = ''TRACE'' then DarkGray else White)"

section \<open>Tabs\<close>

definition tabs :: "(page \<times> string) list" where
  "tabs = [(StatusPage, ''1 Status''), (CachePage, ''2 Cache''), (CacheIoPage, ''3 Cache I/O''), (LogsPage, ''4 Logs'')]"

definition tab_span :: "page \<Rightarrow> page \<times> string \<Rightarrow> span" where
  "tab_span active t =
     (if fst t = active
      then (\<lparr>st_fg = Some Black, st_bg = Some Cyan, st_mods = [Bold]\<rparr>, ''['' @ snd t @ '']'')
      else (fg DarkGray, '' '' @ snd t @ '' ''))"

fun spaced :: "span list \<Rightarrow> span list" where
  "spaced [] = []"
| "spaced [s] = [s]"
| "spaced (s # t # ss) = s # (plain, ''  '') # spaced (t # ss)"

definition render_tab_bar :: "rect \<Rightarrow> page \<Rightarrow> drawing" where
  "render_tab_bar area active =
     [(area, Paragraph plain [spaced (map (tab_span active) tabs) @
        [(fg DarkGray, ''  '' @ [CHR 0xE2, CHR 0x86, CHR 0x90, CHR 0xE2, CHR 0x86, CHR 0x92] @ ''/1-4: pages  q: quit'')]] None)]"

section \<open>The status page\<close>

definition max_bytes :: "dashboard \<Rightarrow> nat" where
  "max_bytes d = gb_bytes (ec_max_size_gb (cf_eviction (da_config d)))"

definition min_free_bytes :: "dashboard \<Rightarrow> nat" where
  "min_free_bytes d = gb_bytes (ec_min_free_space_gb (cf_eviction (da_config d)))"

definition cache_gauge :: "dashboard \<Rightarrow> widget" where
  "cache_gauge d =
     (let ratio = ratio_of (da_cache_used_bytes d) (max_bytes d)
      in Gauge (if ratio > nearest (9 / 10) then Red else if ratio > 3 / 4 then Yellow else Green) ratio
           (fixed1 (gb (da_cache_used_bytes d)) @ '' / '' @ fixed1 (gb (max_bytes d)) @ '' GB''))"

definition render_scheduler_and_cache :: "library \<Rightarrow> rect \<Rightarrow> dashboard \<Rightarrow> drawing" where
  "render_scheduler_and_cache lib area d =
     (let cols = lb_horizontal lib [CLength 30, CMin 0] area;
          opened = da_caching_allowed d;
          s = cf_schedule (da_config d);
          window = (if sc_cache_window_start s = [] then ''not configured''
                    else sc_cache_window_start s @ '' '' @ [CHR 0xE2, CHR 0x80, CHR 0x93] @ '' '' @ sc_cache_window_end s);
          sub = lb_vertical lib [CLength 1, CLength 1, CLength 1] (lb_inner lib (cols ! 1))
      in [(cols ! 0, Paragraph plain [raw ('' Window: '' @ window),
             [(plain, '' Status: ''), (fg (if opened then Green else Red), dot opened @ (if opened then '' OPEN'' else '' CLOSED''))]]
             (Some '' Scheduler '')),
          (cols ! 1, Block '' Cache Budget ''),
          (sub ! 0, cache_gauge d),
          (sub ! 1, Paragraph plain [raw ('' Free: '' @ fixed1 (gb (da_cache_free_bytes d)) @ '' GB  (min '' @
             fixed1 (gb (min_free_bytes d)) @ '' GB)'')] None),
          (sub ! 2, Paragraph plain [raw ('' Files: '' @ decimal (da_cache_file_count d))] None)])"

definition render_predictor :: "rect \<Rightarrow> dashboard \<Rightarrow> drawing" where
  "render_predictor area d =
     (let budget = (if da_budget_max_bytes d > 0
                    then ''Budget: '' @ fixed1 (gb (da_budget_used_bytes d)) @ '' / '' @ fixed1 (gb (da_budget_max_bytes d)) @ '' GB''
                    else ''Budget: unlimited'');
          preset = cf_preset (da_config d)
      in [(area, Paragraph plain [raw ('' In-flight: '' @ decimal (da_in_flight_count d) @ ''   Deferred: '' @
             decimal (da_deferred_count d) @ ''   '' @ budget @ ''   Preset: '' @ (if preset = [] then dash else preset))]
             (Some '' Action Engine ''))])"

definition render_mounts :: "rect \<Rightarrow> dashboard \<Rightarrow> drawing" where
  "render_mounts area d =
     [(area, ListOf (map (\<lambda>m. [(fg (if mi_active m then Green else Red), '' '' @ dot (mi_active m) @ '' ''), (plain, path_text (mi_target m))])
          (da_mounts d)) ('' Mounts ('' @ decimal (length (da_mounts d)) @ '') ''))]"

definition render_activity :: "rect \<Rightarrow> dashboard \<Rightarrow> drawing" where
  "render_activity area d =
     [(area, Paragraph plain
        [raw '' FUSE'',
         raw (''   Opens: '' @ decimal (da_fuse_opens d) @ ''   Hits: '' @ decimal (da_cache_hits d) @ '' ('' @
           hit_rate (da_cache_hits d) (da_cache_misses d) @ '')   Misses: '' @ decimal (da_cache_misses d)),
         raw (''   Bytes read: '' @ fmt_bytes (da_bytes_read d) @ ''   Open handles: '' @ decimal (da_open_handles d)),
         raw [], raw '' Copies'',
         raw (''   Completed: '' @ decimal (da_completed_copies d) @ ''   Failed: '' @ decimal (da_failed_copies d)),
         raw [], raw '' Evictions'',
         raw (''   Expired: '' @ decimal (da_evictions_expired d) @ ''   Size-limit: '' @ decimal (da_evictions_size d))]
        (Some '' Activity ''))]"

definition log_item :: "log_line \<Rightarrow> span list" where
  "log_item l = [(fg DarkGray, ll_timestamp l @ '' ''), (fg (log_level_color (ll_level l)), ll_level l @ '' ''), (plain, ll_message l)]"

definition render_recent_logs :: "rect \<Rightarrow> dashboard \<Rightarrow> drawing" where
  "render_recent_logs area d =
     [(area, ListOf (map log_item (latest_logs d))
        ('' Recent Logs ('' @ decimal (length (da_recent_logs d)) @ '' total '' @ dash @ '' see page 4) ''))]"

definition render_status :: "library \<Rightarrow> rect \<Rightarrow> dashboard \<Rightarrow> drawing" where
  "render_status lib area d =
     (let rows = lb_vertical lib [CLength 5, CLength 3, CLength 4, CMin 5, CLength 7] area
      in render_scheduler_and_cache lib (rows ! 0) d @ render_predictor (rows ! 1) d @ render_mounts (rows ! 2) d @
         render_activity (rows ! 3) d @ render_recent_logs (rows ! 4) d)"

section \<open>The cache page\<close>

definition sorted_files :: "dashboard \<Rightarrow> cache_sort \<Rightarrow> cached_file_info list" where
  "sorted_files d srt = sort_refs srt (da_cached_files d)"

definition pointer :: "bool \<Rightarrow> string" where
  "pointer sel = (if sel then [CHR 0xE2, CHR 0x96, CHR 0xB8] else '' '')"

definition file_row :: "clock \<Rightarrow> path list \<Rightarrow> nat \<Rightarrow> nat \<times> cached_file_info \<Rightarrow> style \<times> string list" where
  "file_row cl checked sel i_f =
     (case i_f of (i, f) \<Rightarrow>
        (if i = sel then plain\<lparr>st_bg := Some DarkGray\<rparr> else plain,
         [if ci_path f \<in> set checked then ''[x]'' else ''[ ]'', pointer (i = sel) @ '' '' @ join_with ''/'' (ci_path f),
          fmt_bytes (ci_size_bytes f), fmt_time (cl_local cl) (ci_cached_at f),
          fmt_duration_until (cl_now cl) (int (ci_evicts_at f))]))"

definition list_title :: "cached_file_info list \<Rightarrow> cache_sort \<Rightarrow> nat \<Rightarrow> path list \<Rightarrow> string" where
  "list_title files srt bytes checked =
     '' Cached Files   sort: ['' @ sort_label srt @ '']   '' @ decimal (length files) @ '' files   '' @ fixed1 (gb bytes) @
     (if checked \<noteq> []
      then '' GB   '' @ decimal (length checked) @ '' selected   '' @ bar @ ''  Space: toggle  Shift+'' @ up_down @
           '': range  Enter: actions ''
      else '' GB   '' @ bar @ ''  Space: select  Enter: actions  s: sort '')"

definition render_cache_list ::
  "clock \<Rightarrow> rect \<Rightarrow> cached_file_info list \<Rightarrow> nat \<Rightarrow> cache_sort \<Rightarrow> nat \<Rightarrow> path list \<Rightarrow> drawing" where
  "render_cache_list cl area files sel srt bytes checked =
     [(area, Table (plain\<lparr>st_mods := [Bold, Underlined]\<rparr>, [''  '', ''File'', ''Size'', ''Cached At'', ''Evicts In''])
        (map (file_row cl checked sel) (shown_rows (re_height area) files sel))
        [CLength 5, CMin 20, CLength 10, CLength 10, CLength 10] (list_title files srt bytes checked))]"

definition detail_lines :: "clock \<Rightarrow> dashboard \<Rightarrow> cached_file_info \<Rightarrow> span list list" where
  "detail_lines cl d f =
     (let ago = (\<lambda>t. fmt_datetime (cl_local cl) t @ ''  ('' @ fmt_relative (cl_now cl) (int t) @ '')'')
      in [raw ('' File:       '' @ join_with ''/'' (ci_path f)),
          raw ('' Mount:      '' @ (case detail_mount d of None \<Rightarrow> dash | Some t \<Rightarrow> path_text t)),
          raw ('' Size:       '' @ fmt_bytes (ci_size_bytes f)),
          raw ('' Cached at:  '' @ ago (ci_cached_at f)),
          raw ('' Last read:  '' @ ago (ci_last_hit_at f)),
          raw ('' Evicts in:  '' @ fmt_duration_until (cl_now cl) (int (ci_evicts_at f)) @ ''  ('' @
            fmt_datetime (cl_local cl) (ci_evicts_at f) @ '')'')])"

definition render_cache_detail ::
  "clock \<Rightarrow> rect \<Rightarrow> cached_file_info list \<Rightarrow> nat \<Rightarrow> dashboard \<Rightarrow> string option \<Rightarrow> drawing" where
  "render_cache_detail cl area files sel d status_msg =
     [(area, Paragraph plain
        ((case get_at files sel of Some f \<Rightarrow> detail_lines cl d f | None \<Rightarrow> [raw '' No files cached.'']) @
         (case status_msg of
            None \<Rightarrow> []
          | Some msg \<Rightarrow> [raw [], [((fg Yellow)\<lparr>st_mods := [Bold]\<rparr>, '' '' @ [CHR 0xE2, CHR 0x8F, CHR 0xB3] @ '' '' @ msg)]]))
        (Some '' Details ''))]"

definition render_cache ::
  "library \<Rightarrow> clock \<Rightarrow> rect \<Rightarrow> dashboard \<Rightarrow> nat \<Rightarrow> cache_sort \<Rightarrow> path list \<Rightarrow> string option \<Rightarrow> drawing" where
  "render_cache lib cl area d sel srt checked status_msg =
     (let chunks = lb_vertical lib [CPercentage 60, CPercentage 40] area;
          files = sorted_files d srt
      in render_cache_list cl (chunks ! 0) files sel srt (da_cache_used_bytes d) checked @
         render_cache_detail cl (chunks ! 1) files sel d status_msg)"

definition MENU_W :: nat where "MENU_W = 30"
definition MENU_H :: nat where "MENU_H = 6"

definition popup :: "rect \<Rightarrow> rect" where
  "popup area =
     \<lparr>re_x = re_x area + (re_width area - MENU_W) div 2, re_y = re_y area + (re_height area - MENU_H) div 2,
      re_width = min MENU_W (re_width area), re_height = min MENU_H (re_height area)\<rparr>"

definition menu_item :: "nat \<Rightarrow> nat \<times> string \<Rightarrow> span list" where
  "menu_item sel i_s =
     [(if fst i_s = sel then \<lparr>st_fg = Some Black, st_bg = Some Cyan, st_mods = [Bold]\<rparr> else plain, ''  '' @ snd i_s @ ''  '')]"

definition render_action_menu :: "rect \<Rightarrow> nat \<Rightarrow> drawing" where
  "render_action_menu area sel =
     [(popup area, Clear),
      (popup area, ListOf (map (menu_item sel) (enumerate 0 [''Evict files'', ''Refresh lease'']))
         ('' Action  ('' @ up_down @ '' Enter Esc) ''))]"

section \<open>The pipeline page\<close>

definition render_cacheio_usage :: "library \<Rightarrow> rect \<Rightarrow> dashboard \<Rightarrow> drawing" where
  "render_cacheio_usage lib area d =
     (let sub = lb_vertical lib [CLength 1, CLength 1, CLength 1] (lb_inner lib area)
      in [(area, Block '' Cache Usage ''), (sub ! 0, cache_gauge d),
          (sub ! 1, Paragraph plain [raw ('' Free: '' @ fixed1 (gb (da_cache_free_bytes d)) @ '' GB'')] None),
          (sub ! 2, Paragraph plain [raw ('' Files: '' @ decimal (da_cache_file_count d))] None)])"

definition render_cacheio_pipeline :: "library \<Rightarrow> rect \<Rightarrow> dashboard \<Rightarrow> drawing" where
  "render_cacheio_pipeline lib area d =
     (let sub = lb_vertical lib [CLength 1, CLength 1] (lb_inner lib area);
          opened = da_caching_allowed d
      in [(area, Block '' Pipeline ''),
          (sub ! 0, Paragraph plain [raw ('' In-flight: '' @ decimal (da_in_flight_count d) @ ''   Deferred: '' @
             decimal (da_deferred_count d) @ ''   Completed: '' @ decimal (da_completed_copies d) @ ''   Failed: '' @
             decimal (da_failed_copies d))] None),
          (sub ! 1, Paragraph plain [[(plain, '' Window: ''),
             (fg (if opened then Green else Red), if opened then ''OPEN'' else ''CLOSED''),
             (plain, ''   Evictions '' @ dash @ '' expired: '' @ decimal (da_evictions_expired d) @ ''  size-limit: '' @
                decimal (da_evictions_size d))]] None)])"

definition elapsed_secs :: "clock \<Rightarrow> copy_progress \<Rightarrow> nat" where
  "elapsed_secs cl cp = nat (cl_instant cl - cp_started_at cp) div 1000000000"

definition copy_title :: "clock \<Rightarrow> nat \<Rightarrow> string \<times> copy_progress \<Rightarrow> string" where
  "copy_title cl width c =
     (let p = truncate_path_tail (path_from (fst c)) 3; e = decimal (elapsed_secs cl (snd c)) @ ''s''
      in p @ replicate (width - (length p + length e + 1)) (CHR '' '') @ e)"

definition copy_gauge :: "copy_progress \<Rightarrow> widget" where
  "copy_gauge cp =
     (let ratio = ratio_of (cp_bytes_copied cp) (cp_size_bytes cp)
      in Gauge Cyan ratio
           (if cp_size_bytes cp > 0
            then fmt_bytes (cp_bytes_copied cp) @ '' / '' @ fmt_bytes (cp_size_bytes cp) @ ''  ('' @ decimal (percent_of ratio) @ ''%)''
            else fmt_bytes (cp_bytes_copied cp) @ '' / ?''))"

text \<open>Each copy has two rows and one to spare.\<close>

fun draw_copies :: "clock \<Rightarrow> rect \<Rightarrow> nat \<Rightarrow> (string \<times> copy_progress) list \<Rightarrow> drawing" where
  "draw_copies cl inner y [] = []"
| "draw_copies cl inner y (c # cs) =
     (if y + 2 > re_y inner + re_height inner then []
      else (\<lparr>re_x = re_x inner, re_y = y, re_width = re_width inner, re_height = 1\<rparr>,
             Paragraph plain [raw (copy_title cl (re_width inner) c)] None) #
           (\<lparr>re_x = re_x inner, re_y = y + 1, re_width = re_width inner, re_height = 1\<rparr>, copy_gauge (snd c)) #
           draw_copies cl inner (y + 3) cs)"

definition render_cacheio_inflight :: "library \<Rightarrow> clock \<Rightarrow> rect \<Rightarrow> dashboard \<Rightarrow> drawing" where
  "render_cacheio_inflight lib cl area d =
     (let inner = lb_inner lib area; sorted = sort_key (\<lambda>c. cp_started_at (snd c)) (da_active_copies d)
      in (area, Block '' In-flight Transfers '') #
         (if sorted = [] then [(inner, Paragraph (fg DarkGray) [raw '' No active copies.''] None)]
          else draw_copies cl inner (re_y inner) (take (max (re_height inner div 3) 1) sorted)))"

definition render_cache_io :: "library \<Rightarrow> clock \<Rightarrow> rect \<Rightarrow> dashboard \<Rightarrow> drawing" where
  "render_cache_io lib cl area d =
     (let rows = lb_vertical lib [CLength 5, CLength 5, CMin 10] area
      in render_cacheio_usage lib (rows ! 0) d @ render_cacheio_pipeline lib (rows ! 1) d @
         render_cacheio_inflight lib cl (rows ! 2) d)"

section \<open>The log page and the screen\<close>

definition render_logs :: "rect \<Rightarrow> dashboard \<Rightarrow> nat \<Rightarrow> drawing" where
  "render_logs area d scroll =
     [(area, ListOf (map log_item (shown_logs d scroll))
        ('' Logs ('' @ decimal (length (da_recent_logs d)) @ '' entries  '' @ up_down @ '': scroll  Home/End: jump) ''))]"

definition render :: "library \<Rightarrow> clock \<Rightarrow> rect \<Rightarrow> dashboard \<Rightarrow> tui \<Rightarrow> drawing" where
  "render lib cl area d ui =
     (let chunks = lb_vertical lib [CLength 1, CMin 0] area; body = chunks ! 1
      in render_tab_bar (chunks ! 0) (ui_page ui) @
         (case ui_page ui of
            StatusPage \<Rightarrow> render_status lib body d
          | CachePage \<Rightarrow>
              render_cache lib cl body d (ui_cache_sel ui) (ui_cache_sort ui) (ui_checked ui) (map_option fst (ui_flash ui)) @
              (case ui_menu ui of None \<Rightarrow> [] | Some sel \<Rightarrow> render_action_menu body sel)
          | CacheIoPage \<Rightarrow> render_cache_io lib cl body d
          | LogsPage \<Rightarrow> render_logs body d (ui_log_scroll ui)))"

section \<open>The figures are right\<close>

lemma round_half_even_near: "\<bar>of_int (round_half_even q) - q\<bar> \<le> 1 / 2"
proof -
  have "of_int \<lfloor>q\<rfloor> \<le> q" "q < of_int \<lfloor>q\<rfloor> + 1" by linarith+
  then show ?thesis by (auto simp: round_half_even_def Let_def abs_le_iff)
qed

lemma round_half_even_of_int [simp]: "round_half_even (of_int n) = n"
  by (simp add: round_half_even_def)

lemma round_half_even_le: "q \<le> of_int n \<Longrightarrow> round_half_even q \<le> n"
proof -
  assume "q \<le> of_int n"
  moreover have "\<lfloor>q\<rfloor> = n \<Longrightarrow> q = of_int n" using calculation by linarith
  ultimately show ?thesis by (auto simp: round_half_even_def Let_def) linarith+
qed

lemma round_half_even_nonneg: "0 \<le> q \<Longrightarrow> 0 \<le> round_half_even q"
  by (auto simp: round_half_even_def Let_def)

lemma bit_count_upper: "n < 2 ^ bit_count n"
proof (induction n rule: bit_count.induct)
  case (1 n)
  then show ?case by (cases "n = 0") (auto simp: bit_count.simps [of n])
qed

lemma bit_count_lower: "0 < n \<Longrightarrow> 2 ^ bit_count n \<le> 2 * n"
proof (induction n rule: bit_count.induct)
  case (1 n)
  then show ?case by (cases "n div 2 = 0") (auto simp: bit_count.simps [of n] bit_count.simps [of "n div 2"] bit_count.simps [of 0])
qed

lemma bit_count_pos: "0 < n \<Longrightarrow> 0 < bit_count n"
  by (simp add: bit_count.simps [of n])

lemma two_to_add: "two_to (a + b) = two_to a * two_to b"
  by (cases "0 \<le> a"; cases "0 \<le> b"; cases "0 \<le> a + b")
    (auto simp: two_to_def field_simps simp flip: power_add intro!: arg_cong [of _ _ "power 2"])

lemma two_to_pos [simp]: "0 < two_to e"
  by (simp add: two_to_def)

lemma two_to_neg: "two_to (- int k) = 1 / 2 ^ k"
  by (simp add: two_to_def)

lemma two_to_less: "a < b \<Longrightarrow> 2 * two_to a \<le> two_to b"
proof -
  assume "a < b"
  then obtain k where k: "nat (b - a) = Suc k" by (metis Suc_pred zero_less_nat_eq diff_gt_0_iff_gt)
  have "two_to b = two_to (b - a) * two_to a" using two_to_add [of "b - a" a] by simp
  moreover have "2 \<le> two_to (b - a)" using k \<open>a < b\<close> by (simp add: two_to_def)
  ultimately show ?thesis using two_to_pos [of a] by simp
qed

lemma pow_le: "2 ^ b \<le> n \<Longrightarrow> (2 ^ b :: rat) \<le> of_nat n"
  using of_nat_mono [of "2 ^ b" n, where 'a = rat] by simp

lemma le_pow: "n + 1 \<le> 2 ^ b \<Longrightarrow> of_nat n + 1 \<le> (2 ^ b :: rat)"
  using of_nat_mono [of "n + 1" "2 ^ b", where 'a = rat] by simp

lemma top_bit:
  assumes "0 < q"
  shows "two_to (top_bit q) \<le> q" and "q < two_to (top_bit q + 1)"
proof -
  have *: "two_to (top_bit q) \<le> q \<and> q < two_to (top_bit q + 1)"
  proof (cases "1 \<le> q")
    case True
    let ?n = "nat \<lfloor>q\<rfloor>"
    have n: "0 < ?n" "of_nat ?n \<le> q" "q < of_nat ?n + 1" using True by (simp_all add: floor_less_iff) linarith+
    obtain b where b: "bit_count ?n = Suc b" using bit_count_pos [OF n(1)] by (cases "bit_count ?n") auto
    have "2 ^ b \<le> ?n" "?n + 1 \<le> 2 ^ Suc b" using bit_count_lower [OF n(1)] bit_count_upper [of ?n] b by auto
    then have "(2 ^ b :: rat) \<le> of_nat ?n" "of_nat ?n + 1 \<le> (2 ^ Suc b :: rat)" by (simp_all only: pow_le le_pow)
    then have "2 ^ b \<le> q" "q < 2 ^ Suc b" using n by linarith+
    then show ?thesis using True b by (simp add: top_bit_def two_to_def nat_add_distrib)
  next
    case False
    let ?m = "nat \<lceil>1 / q\<rceil> - 1"
    have inv: "1 < 1 / q" using False assms by simp
    then have m: "0 < ?m" "of_nat ?m < 1 / q" "1 / q \<le> of_nat ?m + 1" by linarith+
    obtain b where b: "bit_count ?m = Suc b" using bit_count_pos [OF m(1)] by (cases "bit_count ?m") auto
    have "2 ^ b \<le> ?m" "?m + 1 \<le> 2 ^ Suc b" using bit_count_lower [OF m(1)] bit_count_upper [of ?m] b by auto
    then have "(2 ^ b :: rat) \<le> of_nat ?m" "of_nat ?m + 1 \<le> (2 ^ Suc b :: rat)" by (simp_all only: pow_le le_pow)
    then have "2 ^ b < 1 / q" "1 / q \<le> 2 ^ Suc b" using m by linarith+
    then have "q < 1 / 2 ^ b" "1 / 2 ^ Suc b \<le> q" using assms by (simp_all add: field_simps)
    moreover have "top_bit q = - int (Suc b)" "top_bit q + 1 = - int b" using False b by (simp_all add: top_bit_def)
    ultimately show ?thesis by (simp only: two_to_neg)
  qed
  then show "two_to (top_bit q) \<le> q" and "q < two_to (top_bit q + 1)" by blast+
qed

lemma nearest_error: "0 \<le> q \<Longrightarrow> \<bar>nearest q - q\<bar> \<le> q / 2 ^ 53"
proof (cases "q = 0")
  case False
  assume "0 \<le> q"
  with False have pos: "0 < q" by simp
  let ?u = "two_to (top_bit q - 52)"
  have "\<bar>of_int (round_half_even (q / ?u)) - q / ?u\<bar> * ?u \<le> 1 / 2 * ?u"
    by (intro mult_right_mono round_half_even_near) (simp add: less_imp_le)
  moreover have "\<bar>of_int (round_half_even (q / ?u)) - q / ?u\<bar> * ?u = \<bar>nearest q - q\<bar>"
  proof -
    have "\<bar>of_int (round_half_even (q / ?u)) - q / ?u\<bar> * ?u = \<bar>(of_int (round_half_even (q / ?u)) - q / ?u) * ?u\<bar>"
      by (simp add: abs_mult abs_of_pos)
    then show ?thesis using pos two_to_pos [of "top_bit q - 52"]
      by (simp add: nearest_def Let_def left_diff_distrib less_imp_neq [symmetric])
  qed
  moreover have "?u * 2 ^ 52 \<le> q"
    using top_bit(1) [OF pos] two_to_add [of "top_bit q - 52" 52] by (simp add: two_to_def [of 52])
  ultimately show ?thesis by simp
qed (simp add: nearest_def)

lemma scaled: "x * two_to e / two_to k = x * two_to (e - k)"
  using two_to_add [of "e - k" k] less_imp_neq [OF two_to_pos [of k]] by simp

lemma nearest_exact:
  assumes "m < 2 ^ 53"
  shows "nearest (of_nat m * two_to e) = of_nat m * two_to e"
proof (cases "m = 0")
  case False
  let ?q = "of_nat m * two_to e" let ?t = "top_bit ?q"
  have pos: "0 < ?q" using False by simp
  have "of_nat m < (2 ^ 53 :: rat)" using of_nat_less_iff [of m "2 ^ 53", where 'a = rat] assms by simp
  then have "?q < 2 ^ 53 * two_to e" by (rule mult_strict_right_mono) simp
  moreover have "two_to (53 + e) = 2 ^ 53 * two_to e" by (simp add: two_to_add two_to_def [of 53])
  ultimately have "two_to ?t < two_to (53 + e)" using top_bit(1) [OF pos] by linarith
  then have "\<not> 53 + e \<le> ?t" using two_to_less [of "53 + e" ?t] two_to_pos [of "53 + e"] by (cases "?t = 53 + e") auto
  then have "0 \<le> e - (?t - 52)" by simp
  moreover have "?q / two_to (?t - 52) = of_nat m * two_to (e - (?t - 52))"
    using scaled [of "of_nat m" e "?t - 52"] by simp
  ultimately have "?q / two_to (?t - 52) = of_int (int m * 2 ^ nat (e - (?t - 52)))" by (simp add: two_to_def)
  then have "nearest ?q = of_int (int m * 2 ^ nat (e - (?t - 52))) * two_to (?t - 52)"
    using pos by (simp only: nearest_def Let_def round_half_even_of_int) simp
  then show ?thesis
    using \<open>?q / two_to (?t - 52) = of_int _\<close> two_to_pos [of "?t - 52"] by (metis less_imp_neq nonzero_eq_divide_eq)
qed (simp add: nearest_def)

lemma nearest_exact_top: "m \<le> 2 ^ 53 \<Longrightarrow> nearest (of_nat m * two_to e) = of_nat m * two_to e"
proof (cases "m = 2 ^ 53")
  case True
  have "of_nat m * two_to e = of_nat 1 * two_to (53 + e)" using True by (simp add: two_to_add two_to_def [of 53])
  then show ?thesis using nearest_exact [of 1 "53 + e"] by simp
qed (simp add: nearest_exact)

lemma nearest_form:
  assumes "0 \<le> q"
  obtains m e where "m \<le> 2 ^ 53" "nearest q = of_nat m * two_to e"
proof (cases "q = 0")
  case True
  then show ?thesis using that [of 0 0] by (simp add: nearest_def)
next
  case False
  with assms have pos: "0 < q" by simp
  let ?e = "top_bit q - 52" let ?r = "round_half_even (q / two_to ?e)"
  have "two_to (top_bit q + 1) = 2 ^ 53 * two_to ?e" using two_to_add [of 53 ?e] by (simp add: two_to_def [of 53] add.commute)
  then have "q < 2 ^ 53 * two_to ?e" using top_bit(2) [OF pos] by simp
  then have "q / two_to ?e \<le> of_int (2 ^ 53)" by (simp add: field_simps)
  then have "?r \<le> 2 ^ 53" by (rule round_half_even_le)
  moreover have "0 \<le> ?r" using pos by (intro round_half_even_nonneg) (simp add: less_imp_le)
  ultimately show ?thesis using that [of "nat ?r" ?e] pos by (simp add: nearest_def Let_def)
qed

lemma gb_eq: "gb n = as_f64 n / 2 ^ 30"
proof -
  obtain m e where m: "m \<le> 2 ^ 53" "as_f64 n = of_nat m * two_to e" using nearest_form [of "of_nat n"] by (auto simp: as_f64_def)
  have "as_f64 n / 1073741824 = of_nat m * two_to (e + - 30)" using m(2) by (simp add: two_to_add two_to_def [of "- 30"] del: add_uminus_conv_diff)
  then show ?thesis using nearest_exact_top [OF m(1), of "e + - 30"] by (simp add: gb_def f64_div_def)
qed

lemma as_f64_exact: "n \<le> 2 ^ 53 \<Longrightarrow> as_f64 n = of_nat n"
  using nearest_exact_top [of n 0] by (simp add: as_f64_def two_to_def)

lemma nearest_le_nat:
  assumes "0 \<le> q" and "q \<le> of_nat k" and "k < 2 ^ 53"
  shows "nearest q \<le> of_nat k"
proof (cases "q = 0")
  case False
  with assms(1) have pos: "0 < q" by simp
  let ?t = "top_bit q" let ?u = "two_to (?t - 52)"
  have "of_nat k < (2 ^ 53 :: rat)" using of_nat_less_iff [of k "2 ^ 53", where 'a = rat] assms(3) by simp
  then have "two_to ?t < two_to 53" using top_bit(1) [OF pos] assms(2) by (simp add: two_to_def [of 53])
  then have "?t \<noteq> 53" "\<not> 53 < ?t" using two_to_less [of 53 ?t] two_to_pos [of 53] by auto
  then have t: "0 \<le> 52 - ?t" by linarith
  have "two_to (52 - ?t) * ?u = 1" using two_to_add [of "52 - ?t" "?t - 52"] by (simp add: two_to_def [of 0])
  then have k: "of_nat k = of_int (int k * 2 ^ nat (52 - ?t)) * ?u" using t by (simp add: two_to_def [of "52 - ?t"])
  then have "q / ?u \<le> of_int (int k * 2 ^ nat (52 - ?t))" using assms(2) two_to_pos [of "?t - 52"] by (simp only: pos_divide_le_eq)
  then have "of_int (round_half_even (q / ?u)) \<le> (of_int (int k * 2 ^ nat (52 - ?t)) :: rat)"
    by (simp only: of_int_le_iff round_half_even_le)
  then have "of_int (round_half_even (q / ?u)) * ?u \<le> of_int (int k * 2 ^ nat (52 - ?t)) * ?u"
    by (rule mult_right_mono) (rule less_imp_le [OF two_to_pos])
  then have "nearest q \<le> of_int (int k * 2 ^ nat (52 - ?t)) * ?u" using pos unfolding nearest_def Let_def by (simp only: not_le [symmetric] if_False)
  then show ?thesis by (simp only: k [symmetric])
qed (simp add: nearest_def)

lemma scaled_error: "\<bar>a - x\<bar> \<le> x / 2 ^ 53 \<Longrightarrow> x < 2 ^ 64 \<Longrightarrow> \<bar>a / 2 ^ 30 - x / 2 ^ 30\<bar> \<le> 1 / 2 ^ 19" for a x :: rat
  unfolding abs_le_iff by (simp; linarith)

text \<open>C35. The figures on the screen are right: a size shown in gigabytes is off by no more than the rounding of its
  one decimal, below eight petabytes, and by half a hundred-thousandth more for any number of 64 bits; the
  part of a gauge that is filled is between nothing and all of it, and a percentage is at most a hundred.\<close>

theorem figures_accurate:
  "\<exists>t. fixed1 (gb (n mod 2 ^ 64)) = decimal (t div 10) @ ''.'' @ decimal (t mod 10) \<and>
     \<bar>of_nat t / 10 - of_nat (n mod 2 ^ 64) / 2 ^ 30\<bar> \<le> 1 / 20 + (if n mod 2 ^ 64 \<le> 2 ^ 53 then 0 else 1 / 2 ^ 19 :: rat) \<and>
     0 \<le> ratio_of part whole \<and> ratio_of part whole \<le> 1 \<and> percent_of (ratio_of part whole) \<le> 100"
proof -
  let ?n = "n mod 2 ^ 64" let ?t = "nat (round_half_even (gb ?n * 10))"
  have n: "of_nat ?n < (2 ^ 64 :: rat)" using of_nat_less_iff [of ?n "2 ^ 64", where 'a = rat] by simp
  have f: "\<bar>as_f64 ?n - of_nat ?n\<bar> \<le> of_nat ?n / 2 ^ 53" using nearest_error [of "of_nat ?n"] by (simp add: as_f64_def)
  have g: "0 \<le> gb ?n" using nearest_form [of "of_nat ?n"] by (metis as_f64_def gb_eq less_imp_le mult_nonneg_nonneg of_nat_0_le_iff two_to_pos zero_le_divide_iff zero_le_numeral zero_le_power)
  have "of_nat ?t = (of_int (round_half_even (gb ?n * 10)) :: rat)"
    using round_half_even_nonneg [of "gb ?n * 10"] g by simp
  then have t: "\<bar>of_nat ?t / 10 - gb ?n\<bar> \<le> 1 / 20"
    using round_half_even_near [of "gb ?n * 10"] unfolding abs_le_iff by linarith
  have "\<bar>gb ?n - of_nat ?n / 2 ^ 30\<bar> \<le> (if ?n \<le> 2 ^ 53 then 0 else 1 / 2 ^ 19)"
  proof (cases "?n \<le> 2 ^ 53")
    case True
    then show ?thesis by (simp add: gb_eq as_f64_exact)
  next
    case False
    have "\<bar>gb ?n - of_nat ?n / 2 ^ 30\<bar> \<le> 1 / 2 ^ 19" using scaled_error [OF f n] by (simp only: gb_eq)
    with False show ?thesis by simp
  qed
  with t have shown: "\<bar>of_nat ?t / 10 - of_nat ?n / 2 ^ 30\<bar> \<le> 1 / 20 + (if ?n \<le> 2 ^ 53 then 0 else 1 / 2 ^ 19 :: rat)"
    by linarith
  have r: "0 \<le> ratio_of part whole" "ratio_of part whole \<le> 1" by (simp_all add: ratio_of_def)
  then have "nearest (ratio_of part whole * 100) \<le> of_nat 100" by (intro nearest_le_nat) simp_all
  then have "percent_of (ratio_of part whole) \<le> 100" by (simp add: percent_of_def nat_le_iff floor_le_iff)
  with shown r show ?thesis by (intro exI [of _ ?t]) (simp add: fixed1_def Let_def)
qed

section \<open>What is drawn stays on the screen\<close>

text \<open>An area that is not empty lies within another.\<close>

definition inside :: "rect \<Rightarrow> rect \<Rightarrow> bool" where
  "inside r a =
     (re_width r = 0 \<or> re_height r = 0 \<or>
      (re_x a \<le> re_x r \<and> re_x r + re_width r \<le> re_x a + re_width a \<and>
       re_y a \<le> re_y r \<and> re_y r + re_height r \<le> re_y a + re_height a))"

text \<open>What ratatui documents of its layout: as many areas as constraints, each within the one that is split, and
  a margin gives an area within, or an empty one.\<close>

definition library_ok :: "library \<Rightarrow> bool" where
  "library_ok lib =
     (\<forall>ls a. length (lb_vertical lib ls a) = length ls \<and> (\<forall>r \<in> set (lb_vertical lib ls a). inside r a) \<and>
       length (lb_horizontal lib ls a) = length ls \<and> (\<forall>r \<in> set (lb_horizontal lib ls a). inside r a) \<and>
       inside (lb_inner lib a) a)"

text \<open>What the drawing library insists on, or it panics.\<close>

definition legal :: "rect \<Rightarrow> drawing \<Rightarrow> bool" where
  "legal a dr =
     list_all (\<lambda>(r, w). inside r a \<and> (case w of Gauge _ ratio _ \<Rightarrow> 0 \<le> ratio \<and> ratio \<le> 1 | _ \<Rightarrow> True)) dr"

lemma inside_refl [simp]: "inside a a" by (simp add: inside_def)

lemma inside_trans: "inside r b \<Longrightarrow> inside b a \<Longrightarrow> inside r a"
  by (auto simp: inside_def)

lemma legal_simps [simp]:
  "legal a []" "legal a (xs @ ys) = (legal a xs \<and> legal a ys)"
  by (simp_all add: legal_def)

lemma legal_Cons [simp]:
  "legal a ((r, w) # dr) =
     (inside r a \<and> (case w of Gauge _ ratio _ \<Rightarrow> 0 \<le> ratio \<and> ratio \<le> 1 | _ \<Rightarrow> True) \<and> legal a dr)"
  by (simp add: legal_def)

lemma legal_within: "legal b dr \<Longrightarrow> inside b a \<Longrightarrow> legal a dr"
  by (auto simp: legal_def list_all_iff intro: inside_trans)

lemma vertical_inside: "library_ok lib \<Longrightarrow> i < length ls \<Longrightarrow> inside b a \<Longrightarrow> inside (lb_vertical lib ls b ! i) a"
  unfolding library_ok_def by (metis inside_trans nth_mem)

lemma horizontal_inside: "library_ok lib \<Longrightarrow> i < length ls \<Longrightarrow> inside b a \<Longrightarrow> inside (lb_horizontal lib ls b ! i) a"
  unfolding library_ok_def by (metis inside_trans nth_mem)

lemma inner_inside: "library_ok lib \<Longrightarrow> inside b a \<Longrightarrow> inside (lb_inner lib b) a"
  unfolding library_ok_def by (metis inside_trans)

lemmas within = vertical_inside horizontal_inside inner_inside

lemma ratio_of_range: "0 \<le> ratio_of part whole" "ratio_of part whole \<le> 1"
  by (simp_all add: ratio_of_def)

lemma cache_gauge_legal: "(case cache_gauge d of Gauge c ratio l \<Rightarrow> 0 \<le> ratio \<and> ratio \<le> 1 | _ \<Rightarrow> True)"
  by (simp add: cache_gauge_def Let_def ratio_of_range)

lemma copy_gauge_legal: "(case copy_gauge cp of Gauge c ratio l \<Rightarrow> 0 \<le> ratio \<and> ratio \<le> 1 | _ \<Rightarrow> True)"
  by (simp add: copy_gauge_def Let_def ratio_of_range)

lemma status_legal: "library_ok lib \<Longrightarrow> inside b a \<Longrightarrow> legal a (render_status lib b d)"
  by (simp add: render_status_def render_scheduler_and_cache_def render_predictor_def render_mounts_def render_activity_def
      render_recent_logs_def Let_def within cache_gauge_legal)

lemma cache_legal: "library_ok lib \<Longrightarrow> inside b a \<Longrightarrow> legal a (render_cache lib cl b d sel srt checked msg)"
  by (simp add: render_cache_def render_cache_list_def render_cache_detail_def Let_def within)

lemma popup_inside: "inside (popup b) b"
  by (auto simp: inside_def popup_def min_def)

lemma menu_legal: "inside b a \<Longrightarrow> legal a (render_action_menu b sel)"
  using inside_trans [OF popup_inside] by (simp add: render_action_menu_def)

lemma draw_copies_legal: "re_y inner \<le> y \<Longrightarrow> legal inner (draw_copies cl inner y cs)"
  by (induction cs arbitrary: y) (auto simp: inside_def copy_gauge_legal)

lemma inflight_legal: "library_ok lib \<Longrightarrow> inside b a \<Longrightarrow> legal a (render_cacheio_inflight lib cl b d)"
  using legal_within [OF draw_copies_legal inner_inside]
  by (simp add: render_cacheio_inflight_def Let_def inner_inside)

lemma cache_io_legal: "library_ok lib \<Longrightarrow> inside b a \<Longrightarrow> legal a (render_cache_io lib cl b d)"
  by (simp add: render_cache_io_def render_cacheio_usage_def render_cacheio_pipeline_def Let_def within cache_gauge_legal
      inflight_legal)

text \<open>C34. No page can make the drawing library panic, whatever the numbers and however small the terminal: every
  widget lies within the terminal, and every gauge is filled to a part between nothing and all of it.\<close>

theorem frame_is_legal:
  assumes "library_ok lib"
  shows "legal area (render lib cl area d ui)"
proof -
  let ?chunks = "lb_vertical lib [CLength 1, CMin 0] area"
  have "inside (?chunks ! 0) area" "inside (?chunks ! 1) area" using vertical_inside [OF assms] by simp_all
  then show ?thesis
    by (simp add: render_def Let_def render_tab_bar_def render_logs_def status_legal cache_legal cache_io_legal menu_legal assms
        split: page.split option.split)
qed

text \<open>The rows of the running transfers, for a panel whose inside is \<open>inner\<close>.\<close>

definition transfer_rows :: "clock \<Rightarrow> rect \<Rightarrow> nat \<Rightarrow> string \<times> copy_progress \<Rightarrow> drawing" where
  "transfer_rows cl inner y c =
     [(\<lparr>re_x = re_x inner, re_y = y, re_width = re_width inner, re_height = 1\<rparr>,
       Paragraph plain [raw (copy_title cl (re_width inner) c)] None),
      (\<lparr>re_x = re_x inner, re_y = y + 1, re_width = re_width inner, re_height = 1\<rparr>, copy_gauge (snd c))]"

lemma add_3_div: "(3 + k) div 3 = Suc (k div 3)" for k :: nat
  by simp

lemma draw_copies_rows:
  "draw_copies cl inner y cs =
     concat (map (\<lambda>i. transfer_rows cl inner (y + 3 * i) (cs ! i))
       [0..<min (length cs) ((re_y inner + re_height inner + 1 - y) div 3)])"
proof (induction cs arbitrary: y)
  case (Cons c cs)
  let ?bottom = "re_y inner + re_height inner"
  show ?case
  proof (cases "y + 2 > ?bottom")
    case True
    then have "(?bottom + 1 - y) div 3 = 0" by simp
    with True show ?thesis by simp
  next
    case False
    have "?bottom + 1 - y = 3 + (?bottom + 1 - (y + 3))" using False by simp
    then have n: "(?bottom + 1 - y) div 3 = Suc ((?bottom + 1 - (y + 3)) div 3)" by (simp only: add_3_div)
    define m where "m = min (length cs) ((?bottom + 1 - (y + 3)) div 3)"
    have "min (length (c # cs)) ((?bottom + 1 - y) div 3) = Suc m" by (simp only: n m_def length_Cons min_Suc_Suc)
    moreover have "[0..<Suc m] = 0 # map Suc [0..<m]" by (simp only: map_Suc_upt upt_conv_Cons zero_less_Suc)
    moreover have "draw_copies cl inner y (c # cs) = transfer_rows cl inner y c @ draw_copies cl inner (y + 3) cs"
      using False by (simp add: transfer_rows_def)
    moreover have "transfer_rows cl inner (y + 3 * Suc i) ((c # cs) ! Suc i) = transfer_rows cl inner (y + 3 + 3 * i) (cs ! i)" for i
      by (simp add: add.assoc)
    ultimately show ?thesis using Cons.IH [of "y + 3", folded m_def] by (simp only: list.map map_map concat.simps comp_def nth_Cons_0 mult_0_right add_0_right)
  qed
qed simp

lemma rows_for: "min (max (h div 3) 1) ((h + 1) div 3) = (if h = 2 then 1 else h div 3)" for h :: nat
proof (cases "h < 3")
  case True
  then have "h = 0 \<or> h = 1 \<or> h = 2" by linarith
  then show ?thesis by auto
next
  case False
  then have "1 \<le> h div 3" "h div 3 \<le> (h + 1) div 3" by (simp_all add: div_le_mono less_eq_div_iff_mult_less_eq)
  then show ?thesis using False by simp
qed

text \<open>The transfers that are running are shown oldest first, each in two rows of its own with one row between
  two of them, as many as the panel has room for at three rows each, and one if it has just two rows.\<close>

theorem transfers_shown:
  assumes "da_active_copies d \<noteq> []"
  shows "\<exists>cs. mset cs = mset (da_active_copies d) \<and> sorted (map (\<lambda>c. cp_started_at (snd c)) cs) \<and>
    render_cacheio_inflight lib cl area d = (area, Block '' In-flight Transfers '') #
      concat (map (\<lambda>i. transfer_rows cl (lb_inner lib area) (re_y (lb_inner lib area) + 3 * i) (cs ! i))
        [0..<min (length cs) (if re_height (lb_inner lib area) = 2 then 1 else re_height (lb_inner lib area) div 3)])"
proof -
  let ?cs = "sort_key (\<lambda>c. cp_started_at (snd c)) (da_active_copies d)" and ?inner = "lb_inner lib area"
  let ?h = "re_height ?inner" let ?v = "max (?h div 3) 1" and ?n = "if ?h = 2 then 1 else ?h div 3"
  have n: "min (length (take ?v ?cs)) ((re_y ?inner + ?h + 1 - re_y ?inner) div 3) = min (length ?cs) ?n"
    using rows_for [of ?h] by (simp add: min.assoc)
  have "draw_copies cl ?inner (re_y ?inner) (take ?v ?cs) =
      concat (map (\<lambda>i. transfer_rows cl ?inner (re_y ?inner + 3 * i) (take ?v ?cs ! i)) [0..<min (length ?cs) ?n])"
    by (simp only: draw_copies_rows n)
  also have "\<dots> = concat (map (\<lambda>i. transfer_rows cl ?inner (re_y ?inner + 3 * i) (?cs ! i)) [0..<min (length ?cs) ?n])"
    by (intro arg_cong [of _ _ concat] map_cong) (auto split: if_splits)
  moreover have "?cs \<noteq> []" using assms by (metis length_0_conv length_sort)
  ultimately show ?thesis by (intro exI [of _ ?cs]) (simp add: render_cacheio_inflight_def Let_def)
qed

section \<open>The screen and the keys\<close>

definition table_rows :: "drawing \<Rightarrow> (style \<times> string list) list" where
  "table_rows dr = concat (map (\<lambda>(r, w). case w of Table h rows ls t \<Rightarrow> rows | _ \<Rightarrow> []) dr)"

text \<open>The texts of the list items that are highlighted.\<close>

definition menu_highlight :: "drawing \<Rightarrow> string list" where
  "menu_highlight dr =
     concat (map (\<lambda>(r, w). case w of
         ListOf items t \<Rightarrow> map (concat \<circ> map snd) (filter (list_ex (\<lambda>s. st_bg (fst s) = Some Cyan)) items)
       | _ \<Rightarrow> []) dr)"

definition list_area :: "library \<Rightarrow> rect \<Rightarrow> rect" where
  "list_area lib area =
     lb_vertical lib [CPercentage 60, CPercentage 40] (lb_vertical lib [CLength 1, CMin 0] area ! 1) ! 0"

lemma cache_page_rows:
  "ui_page ui = CachePage \<Longrightarrow> table_rows (render lib cl area d ui) =
     map (file_row cl (ui_checked ui) (ui_cache_sel ui))
       (shown_rows (re_height (list_area lib area)) (sorted_files d (ui_cache_sort ui)) (ui_cache_sel ui))"
  by (cases "ui_menu ui")
    (simp_all add: render_def Let_def render_tab_bar_def render_cache_def render_cache_list_def render_cache_detail_def
      render_action_menu_def table_rows_def list_area_def)

lemma cache_page_menu:
  "ui_page ui = CachePage \<Longrightarrow> ui_menu ui = Some sel \<Longrightarrow> sel \<le> 1 \<Longrightarrow>
   menu_highlight (render lib cl area d ui) = [if sel = 0 then ''  Evict files  '' else ''  Refresh lease  '']"
  by (cases "sel = 0")
    (auto simp: render_def Let_def render_tab_bar_def render_cache_def render_cache_list_def render_cache_detail_def
      render_action_menu_def menu_highlight_def menu_item_def plain_def le_Suc_eq)

text \<open>What a key that sends a list of files has found.\<close>

lemma sent_targets:
  assumes "tui_reachable ui" and "ui_sent (handle_key now d k ui) = ui_sent ui @ [m]"
    and "m = EvictFiles ts \<or> m = RefreshLease ts"
  obtains sel where "ui_menu ui = Some sel" "sel \<le> 1" "ui_page ui = CachePage" "ts \<noteq> []"
    "m = (if sel = 0 then EvictFiles ts else RefreshLease ts)"
    "ts = build_targets (da_cached_files d) (ui_checked ui) (ui_cache_sel ui) (ui_cache_sort ui)"
proof (cases "ui_menu ui")
  case None
  then show ?thesis using assms(2,3) normal_key_sends [of d k ui] by (auto simp: handle_key_def split: if_splits)
next
  case (Some sel)
  have "sel \<le> 1" "ui_page ui = CachePage" using ui_ok_reachable [OF assms(1)] Some by (auto simp: ui_ok_def)
  then show ?thesis using assms(2,3) Some that [of sel]
    by (cases "ke_code k") (auto simp: handle_key_def menu_key_def menu_enter_def Let_def split: if_splits)
qed

lemma filter_key: "distinct (map fst xs) \<Longrightarrow> (k, v) \<in> set xs \<Longrightarrow> filter (\<lambda>x. fst x = k) xs = [(k, v)]"
proof (induction xs)
  case (Cons x xs)
  then show ?case by (cases "x = (k, v)") (auto simp: filter_empty_conv image_iff)
qed simp

lemma shown_rows_distinct: "distinct (map fst (shown_rows h files sel))"
  by (simp add: shown_rows_def enumerate_eq_zip take_map [symmetric] drop_map [symmetric] flip: take_map drop_map)

lemma shown_rows_files: "(i, f) \<in> set (shown_rows h files sel) \<Longrightarrow> f \<in> set files"
  by (auto simp: shown_rows_def in_set_enumerate_eq dest!: in_set_takeD in_set_dropD)

lemma file_row_marks:
  "(fst (file_row cl checked sel x) \<noteq> plain) = (fst x = sel)"
  "hd (snd (file_row cl checked sel x)) = (if ci_path (snd x) \<in> set checked then ''[x]'' else ''[ ]'')"
  by (cases x, simp add: file_row_def plain_def)+

lemma target_checked:
  assumes "checked \<noteq> []" and "f \<in> set files"
  shows "target_of f \<in> set (build_targets files checked sel srt) \<longleftrightarrow> ci_path f \<in> set checked"
  using assms by (auto simp: build_targets_def target_of_def)


text \<open>When the list has become shorter than the selection, the page says that nothing is cached.\<close>

lemma stale_selection_says_empty:
  "length (da_cached_files d) \<le> sel \<Longrightarrow>
   render_cache_detail cl area (sorted_files d srt) sel d None =
     [(area, Paragraph plain [raw '' No files cached.''] (Some '' Details ''))]"
  by (simp add: render_cache_detail_def get_at_def sorted_files_def)

section \<open>A sample screen\<close>

text \<open>A layout that gives each constraint what is left for it.\<close>

fun stacked :: "limit list \<Rightarrow> nat \<Rightarrow> nat \<Rightarrow> nat \<Rightarrow> (nat \<times> nat) list" where
  "stacked [] off left whole = []"
| "stacked (l # ls) off left whole =
     (let n = min left (case l of CLength n \<Rightarrow> n | CMin n \<Rightarrow> left | CPercentage p \<Rightarrow> whole * p div 100)
      in (off, n) # stacked ls (off + n) (left - n) whole)"

definition sample_library :: library where
  "sample_library =
     \<lparr>lb_vertical = (\<lambda>ls a. map (\<lambda>(y, n). a\<lparr>re_y := y, re_height := n\<rparr>) (stacked ls (re_y a) (re_height a) (re_height a))),
      lb_horizontal = (\<lambda>ls a. map (\<lambda>(x, n). a\<lparr>re_x := x, re_width := n\<rparr>) (stacked ls (re_x a) (re_width a) (re_width a))),
      lb_inner = (\<lambda>a. if re_width a < 2 \<or> re_height a < 2 then \<lparr>re_x = 0, re_y = 0, re_width = 0, re_height = 0\<rparr>
                     else \<lparr>re_x = re_x a + 1, re_y = re_y a + 1, re_width = re_width a - 2, re_height = re_height a - 2\<rparr>)\<rparr>"

definition sample_clock :: clock where
  "sample_clock = \<lparr>cl_now = 100, cl_instant = 0,
     cl_local = (\<lambda>t. \<lparr>tm_year = 70, tm_mon = 0, tm_mday = 1, tm_hour = 0, tm_min = 0, tm_sec = t mod 60\<rparr>)\<rparr>"

definition terminal :: rect where "terminal = \<lparr>re_x = 0, re_y = 0, re_width = 80, re_height = 24\<rparr>"

lemma stacked_length [simp]: "length (stacked ls off left whole) = length ls"
  by (induction ls arbitrary: off left) (simp_all add: Let_def)

lemma stacked_within: "(p, n) \<in> set (stacked ls off left whole) \<Longrightarrow> off \<le> p \<and> p + n \<le> off + left"
  by (induction ls arbitrary: off left) (fastforce simp: Let_def)+

lemma sample_library_ok: "library_ok sample_library"
  by (auto simp: library_ok_def sample_library_def inside_def dest!: stacked_within)

theorem frame_is_legal_witness:
  "legal terminal (render sample_library sample_clock terminal (dashboard_new minimal_config) tui_start)"
  by (rule frame_is_legal [OF sample_library_ok])

theorem transfers_shown_witness:
  "length (render_cacheio_inflight sample_library sample_clock terminal ((dashboard_new minimal_config)\<lparr>da_active_copies :=
     [(''a'', \<lparr>cp_size_bytes = 2, cp_bytes_copied = 1, cp_started_at = 0\<rparr>)]\<rparr>)) = 3"
proof -
  let ?d = "(dashboard_new minimal_config)\<lparr>da_active_copies := [(''a'', \<lparr>cp_size_bytes = 2, cp_bytes_copied = 1, cp_started_at = 0\<rparr>)]\<rparr>"
  have "da_active_copies ?d \<noteq> []" by simp
  from transfers_shown [OF this, of sample_library sample_clock terminal]
  show ?thesis by (auto simp: sample_library_def terminal_def transfer_rows_def)
qed


end
