(* ===== verification/DiscoveryLog.thy ===== *)
theory DiscoveryLog
  imports Discovery Screen
begin

text \<open>
  The log of the process discovery (the second half of src/src/discovery.rs): the NEW line of a process
  that is first seen, the SNAP lines of a flush, and the formatter that writes them to their own file.
\<close>

section \<open>Lines\<close>

text \<open>The time of day in UTC.\<close>

definition utc_time_hms :: "nat \<Rightarrow> string" where
  "utc_time_hms now = zero_pad 2 ((now div 3600) mod 24) @ '':'' @ zero_pad 2 ((now div 60) mod 60) @ '':'' @ zero_pad 2 (now mod 60)"

text \<open>The Debug text of a string. A character outside ASCII stays as it is; which of those the standard
  library takes for unprintable is left out.\<close>

definition debug_char :: "char \<Rightarrow> string" where
  "debug_char c =
     (if code_of c = 0 then [CHR 92, CHR ''0'']
      else if code_of c = 9 then [CHR 92, CHR ''t'']
      else if code_of c = 10 then [CHR 92, CHR ''n'']
      else if code_of c = 13 then [CHR 92, CHR ''r'']
      else if code_of c = 34 then [CHR 92, CHR 34]
      else if code_of c = 92 then [CHR 92, CHR 92]
      else if code_of c < 32 \<or> code_of c = 127
        then [CHR 92, CHR ''u'', CHR ''{''] @ (if code_of c < 16 then [] else [''0123456789abcdef'' ! (code_of c div 16)]) @
          [''0123456789abcdef'' ! (code_of c mod 16), CHR ''}'']
      else [c])"

definition debug_str :: "string \<Rightarrow> string" where
  "debug_str s = CHR 34 # concat (map debug_char s) @ [CHR 34]"

definition filter_marker :: "bool \<Rightarrow> string" where
  "filter_marker filtered = (if filtered then ''*'' else ''-'')"

definition emit_new :: "nat \<Rightarrow> string \<Rightarrow> string \<Rightarrow> string \<Rightarrow> bool \<Rightarrow> string" where
  "emit_new now name ancestors cmdline filtered =
     utc_time_hms now @ ''  NEW     '' @ pad_right 32 name @ ''  '' @ filter_marker filtered @
     ''     -      -      -       -  pid=?'' @
     (if ancestors = [] then [] else '' anc='' @ ancestors) @ (if cmdline = [] then [] else '' cmd='' @ debug_str cmdline)"

section \<open>The lines of a flush\<close>

text \<open>Hits, misses and metadata accesses of a process.\<close>

type_synonym figures = "nat \<times> nat \<times> nat"

definition add_row :: "(string \<times> figures) list \<Rightarrow> process_access_row \<Rightarrow> (string \<times> figures) list" where
  "add_row acc r =
     (case (case map_of acc (pr_process_name r) of None \<Rightarrow> (0, 0, 0) | Some f \<Rightarrow> f) of
        (hit, miss, meta) \<Rightarrow>
          AList.update (pr_process_name r)
            (if pr_op_kind r = ''hit'' then (add64 hit (pr_count r), miss, meta)
             else if pr_op_kind r = ''miss'' then (hit, add64 miss (pr_count r), meta)
             else if pr_op_kind r = ''meta'' then (hit, miss, add64 meta (pr_count r))
             else (hit, miss, meta)) acc)"

definition by_process :: "process_access_row list \<Rightarrow> (string \<times> figures) list" where
  "by_process rows = foldl add_row [] rows"

definition figures_total :: "figures \<Rightarrow> nat" where
  "figures_total f = (case f of (hit, miss, meta) \<Rightarrow> add64 (add64 hit miss) meta)"

text \<open>The decision made when the process was first seen, or else one by its name alone.\<close>

definition snap_filtered :: "process_filter_policy \<Rightarrow> (string \<times> bool) list \<Rightarrow> string \<Rightarrow> bool" where
  "snap_filtered policy filtered name =
     (case map_of filtered name of
        Some b \<Rightarrow> b
      | None \<Rightarrow> policy_should_filter policy \<lparr>p_pid = 0, p_name = Some name, p_cmdline = None, p_ancestors = []\<rparr>)"

definition snap_line :: "nat \<Rightarrow> string \<Rightarrow> bool \<Rightarrow> figures \<Rightarrow> string" where
  "snap_line now name filtered f =
     (case f of (hit, miss, meta) \<Rightarrow>
        utc_time_hms now @ ''  SNAP    '' @ pad_right 32 name @ ''  '' @ filter_marker filtered @
        ''  '' @ pad_left 6 (decimal hit) @ ''  '' @ pad_left 6 (decimal miss) @ ''  '' @ pad_left 6 (decimal meta) @
        ''  '' @ pad_left 8 (decimal (figures_total f)))"

text \<open>
  The busiest process first. The order in which the hash map is read is \<open>order\<close>; the sort of the code is
  not stable, so that processes with equal totals come in any order, as they do here with \<open>order\<close> free.
\<close>

definition emit_snap ::
  "((string \<times> figures) list \<Rightarrow> (string \<times> figures) list) \<Rightarrow> nat \<Rightarrow> process_filter_policy \<Rightarrow> (string \<times> bool) list \<Rightarrow>
   (string \<times> figures) list \<Rightarrow> string list" where
  "emit_snap order now policy filtered entries =
     map (\<lambda>(name, f). snap_line now name (snap_filtered policy filtered name) f)
       (sort_key (\<lambda>(name, f). - int (figures_total f)) (order entries))"

definition flush_lines ::
  "((string \<times> figures) list \<Rightarrow> (string \<times> figures) list) \<Rightarrow> nat \<Rightarrow> process_filter_policy \<Rightarrow> 'l session \<Rightarrow>
   process_access_row list \<Rightarrow> string list" where
  "flush_lines order now policy se rows =
     (if rows = [] then [] else emit_snap order now policy (se_filtered se) (by_process rows))"

section \<open>The formatter\<close>

text \<open>\<open>str::replace\<close> of a pair of characters by one, from the left.\<close>

fun replace_pair :: "char \<Rightarrow> char \<Rightarrow> char \<Rightarrow> string \<Rightarrow> string" where
  "replace_pair a b c (x # y # s) =
     (if x = a \<and> y = b then c # replace_pair a b c s else x # replace_pair a b c (y # s))"
| "replace_pair a b c s = s"

definition unquote :: "string \<Rightarrow> string" where
  "unquote str =
     (if 2 \<le> length str \<and> code_of (hd str) = 34 \<and> code_of (last str) = 34
      then replace_pair (CHR 92) (CHR ''t'') (CHR 9) (replace_pair (CHR 92) (CHR ''n'') (CHR 10)
        (replace_pair (CHR 92) (CHR 92) (CHR 92) (replace_pair (CHR 92) (CHR 34) (CHR 34) (butlast (tl str)))))
      else str)"

text \<open>The visitor keeps the first message that is not empty; numbers and flags come as their Debug text.\<close>

definition value_text :: "field_value \<Rightarrow> string" where
  "value_text v =
     (case v of VStr s \<Rightarrow> s | VDebug s \<Rightarrow> unquote s | VU64 n \<Rightarrow> decimal n | VBool b \<Rightarrow> if b then ''true'' else ''false'')"

definition capture_field :: "string \<Rightarrow> string \<times> field_value \<Rightarrow> string" where
  "capture_field msg f = (if fst f = ''message'' \<and> msg = [] then value_text (snd f) else msg)"

definition format_event :: "(string \<times> field_value) list \<Rightarrow> string" where
  "format_event fs = foldl capture_field [] fs @ [CHR 10]"

text \<open>What reaches the file: each line as the message of an event, whose Debug text is the line.\<close>

definition log_text :: "string list \<Rightarrow> string" where
  "log_text ls = concat (map (\<lambda>l. format_event [(''message'', VDebug l)]) ls)"

section \<open>The figures\<close>

definition kind_count :: "string \<Rightarrow> string \<Rightarrow> process_access_row list \<Rightarrow> nat" where
  "kind_count name k rows = sum_list (map pr_count (filter (\<lambda>r. pr_process_name r = name \<and> pr_op_kind r = k) rows))"

lemma kind_count_simps [simp]:
  "kind_count name k [] = 0"
  "kind_count name k (rows @ [r]) = kind_count name k rows + (if pr_process_name r = name \<and> pr_op_kind r = k then pr_count r else 0)"
  by (simp_all add: kind_count_def)

lemma kind_counts_bound:
  "kind_count name ''hit'' rows + kind_count name ''miss'' rows + kind_count name ''meta'' rows \<le> sum_list (map pr_count rows)"
  by (induction rows rule: rev_induct) auto

lemma rows_total_kind_count: "rows_total (name, op) rows = int (kind_count name (op_as_str op) rows)"
  by (induction rows) (auto simp: rows_total_def kind_count_def)

definition counts_of :: "string \<Rightarrow> process_access_row list \<Rightarrow> figures" where
  "counts_of name rows = (kind_count name ''hit'' rows, kind_count name ''miss'' rows, kind_count name ''meta'' rows)"

lemma by_process_snoc: "by_process (rows @ [r]) = add_row (by_process rows) r"
  by (simp add: by_process_def)

lemma by_process_lookup:
  "sum_list (map pr_count rows) < 2 ^ 64 \<Longrightarrow>
   map_of (by_process rows) name = (if name \<in> pr_process_name ` set rows then Some (counts_of name rows) else None)"
proof (induction rows rule: rev_induct)
  case Nil
  then show ?case by (simp add: by_process_def)
next
  case (snoc r rows)
  then have IH: "map_of (by_process rows) name = (if name \<in> pr_process_name ` set rows then Some (counts_of name rows) else None)"
    by simp
  show ?case
  proof (cases "pr_process_name r = name")
    case False
    then show ?thesis using IH
      by (auto simp: by_process_snoc add_row_def alist_map_of counts_of_def split: prod.splits)
  next
    case True
    have none: "kind_count name k rows = 0" if "name \<notin> pr_process_name ` set rows" for k
      using that by (auto simp: kind_count_def)
    have "(case map_of (by_process rows) name of None \<Rightarrow> (0, 0, 0) | Some f \<Rightarrow> f) = counts_of name rows"
      using IH none by (simp add: counts_of_def)
    then show ?thesis using True snoc.prems kind_counts_bound [of name rows]
      by (auto simp: by_process_snoc add_row_def alist_map_of counts_of_def add64_def)
  qed
qed

lemma by_process_distinct: "distinct (map fst (by_process rows))"
  by (induction rows rule: rev_induct)
    (auto simp: by_process_snoc add_row_def by_process_def [of "[]"] intro: distinct_update split: prod.splits)

lemma figures_total_counts:
  "sum_list (map pr_count rows) < 2 ^ 64 \<Longrightarrow>
   figures_total (counts_of name rows) = kind_count name ''hit'' rows + kind_count name ''miss'' rows + kind_count name ''meta'' rows"
  using kind_counts_bound [of name rows] by (simp add: figures_total_def counts_of_def add64_def)

section \<open>Columns\<close>

lemma space_is_space [simp]: "is_space (CHR '' '')"
  by (simp add: is_space_def code_of_def)

lemma columns_space [simp]: "split_whitespace (CHR '' '' # s) = split_whitespace s"
  by (simp add: split_whitespace_def)

lemma columns_spaces [simp]: "split_whitespace (replicate n (CHR '' '') @ s) = split_whitespace s"
  by (induction n) simp_all

definition column :: "string \<Rightarrow> bool" where
  "column w = (w \<noteq> [] \<and> (\<forall>c \<in> set w. \<not> is_space c))"

lemma columns_Cons: "column w \<Longrightarrow> split_whitespace (w @ CHR '' '' # s) = w # split_whitespace s"
  by (simp add: split_whitespace_def split_at_append_sep split_at_none column_def)

lemma columns_last: "column w \<Longrightarrow> split_whitespace w = [w]"
  by (simp add: split_whitespace_def split_at_none column_def)

lemma columns_pad_right: "column w \<Longrightarrow> split_whitespace (pad_right n w @ CHR '' '' # s) = w # split_whitespace s"
proof (cases "n - char_count w")
  case 0
  then show "column w \<Longrightarrow> ?thesis" by (simp add: pad_right_def columns_Cons)
next
  case (Suc k)
  then show "column w \<Longrightarrow> ?thesis" by (simp add: pad_right_def columns_Cons)
qed

lemma columns_pad_left [simp]: "split_whitespace (pad_left n w @ s) = split_whitespace (w @ s)"
  by (simp add: pad_left_def)

lemma digit_column: "m < 10 \<Longrightarrow> \<not> is_space (''0123456789'' ! m)"
proof -
  assume "m < 10"
  then have "m \<in> {0, 1, 2, 3, 4, 5, 6, 7, 8, 9}" by auto
  then show ?thesis by (auto simp: is_space_def code_of_def)
qed

lemma decimal_column: "column (decimal n)"
proof (induction n rule: decimal.induct)
  case (1 n)
  then show ?case
  proof (cases "n < 10")
    case True
    then show ?thesis using digit_column [of n] by (subst decimal.simps) (simp add: column_def)
  next
    case False
    with 1 have "column (decimal (n div 10))" by simp
    with False show ?thesis using digit_column [of "n mod 10"]
      by (subst decimal.simps) (auto simp: column_def)
  qed
qed

lemma zero_pad_chars: "c \<in> set (zero_pad k n) \<Longrightarrow> \<not> is_space c"
  using decimal_column [of n] by (auto simp: zero_pad_def column_def is_space_def code_of_def split: if_splits)

lemma time_column: "column (utc_time_hms now)"
  by (auto simp: column_def utc_time_hms_def is_space_def code_of_def dest: zero_pad_chars [unfolded is_space_def code_of_def])

lemma marker_column: "column (filter_marker b)"
  by (simp add: column_def filter_marker_def is_space_def code_of_def)

lemma snap_columns:
  assumes "column name"
  shows "split_whitespace (snap_line now name b (hit, miss, meta)) =
    [utc_time_hms now, ''SNAP'', name, filter_marker b, decimal hit, decimal miss, decimal meta, decimal (figures_total (hit, miss, meta))]"
proof -
  have "column ''SNAP''" by (simp add: column_def is_space_def code_of_def)
  then show ?thesis using columns_Cons [of "''SNAP''"] columns_last [OF decimal_column]
    by (simp add: snap_line_def columns_Cons [OF time_column] columns_pad_right [OF assms] columns_Cons [OF marker_column]
        columns_Cons [OF decimal_column] pad_left_def [of 8])
qed

section \<open>The file\<close>

lemma decimal_digits: "c \<in> set (decimal n) \<Longrightarrow> is_digit c"
proof (induction n rule: decimal.induct)
  case (1 n)
  have digit: "m < 10 \<Longrightarrow> is_digit (''0123456789'' ! m)" for m
  proof -
    assume "m < 10"
    then have "m \<in> {0, 1, 2, 3, 4, 5, 6, 7, 8, 9}" by auto
    then show ?thesis by (auto simp: is_digit_def code_of_def)
  qed
  show ?case
  proof (cases "n < 10")
    case True
    then show ?thesis using 1(2) digit [of n] by (subst (asm) decimal.simps) simp
  next
    case False
    then show ?thesis using 1 digit [of "n mod 10"] by (subst (asm) (2) decimal.simps) auto
  qed
qed

lemma line_starts_with_digit: "\<exists>c l. utc_time_hms now @ rest = c # l \<and> is_digit c"
proof -
  have ne: "zero_pad 2 n \<noteq> []" for n using decimal_column [of n] by (simp add: zero_pad_def column_def)
  then obtain c l where cl: "zero_pad 2 ((now div 3600) mod 24) = c # l" by (meson neq_Nil_conv)
  then have "c \<in> set (zero_pad 2 ((now div 3600) mod 24))" by simp
  moreover have "is_digit (CHR ''0'')" by (simp add: is_digit_def code_of_def)
  ultimately have "is_digit c" unfolding zero_pad_def by (auto dest: decimal_digits split: if_splits)
  then show ?thesis using cl by (simp add: utc_time_hms_def)
qed

lemma format_line:
  assumes "is_digit c"
  shows "format_event [(''message'', VDebug (c # l))] = c # l @ [CHR 10]"
  using assms by (auto simp: format_event_def capture_field_def value_text_def unquote_def is_digit_def)

text \<open>The text of a line reaches the file as it is, because no line begins with a quotation mark.\<close>

lemma new_line_verbatim:
  "log_text [emit_new now name ancestors cmdline b] = emit_new now name ancestors cmdline b @ [CHR 10]"
proof -
  obtain rest where "emit_new now name ancestors cmdline b = utc_time_hms now @ rest" by (simp add: emit_new_def)
  then show ?thesis using line_starts_with_digit [of now rest] format_line by (fastforce simp: log_text_def)
qed

lemma snap_line_verbatim: "format_event [(''message'', VDebug (snap_line now name b f))] = snap_line now name b f @ [CHR 10]"
proof (cases f)
  case (fields hit miss meta)
  obtain rest where "snap_line now name b f = utc_time_hms now @ rest" by (simp add: snap_line_def fields)
  then show ?thesis using line_starts_with_digit [of now rest] format_line by fastforce
qed

section \<open>Every row has a known kind\<close>

definition kinds_known :: "'l session \<Rightarrow> bool" where
  "kinds_known se = (\<forall>r \<in> set (in_flight se). pr_op_kind r \<in> range op_as_str)"

definition rows_known :: "'l discovery \<Rightarrow> bool" where
  "rows_known dc = (\<forall>se \<in> set (dc_sessions dc). kinds_known se)"

lemma kinds_known_frame [simp]:
  "kinds_known (se\<lparr>se_cancelled := c\<rparr>) = kinds_known se" "kinds_known (se\<lparr>se_pid_lru := l\<rparr>) = kinds_known se"
  "kinds_known (se\<lparr>se_seen := a, se_samples := x, se_filtered := d\<rparr>) = kinds_known se"
  "kinds_known (se\<lparr>se_counts := k\<rparr>) = kinds_known se"
  by (simp_all add: kinds_known_def in_flight_def)

lemma rows_known_upd:
  assumes "rows_known dc" and "i < length (dc_sessions dc) \<Longrightarrow> kinds_known (f (dc_sessions dc ! i))"
  shows "rows_known (upd_session i f dc)"
proof (cases "i < length (dc_sessions dc)")
  case True
  with assms show ?thesis using set_update_subset_insert [of "dc_sessions dc" i "f (dc_sessions dc ! i)"]
    by (auto simp: rows_known_def upd_session_def)
next
  case False
  with assms(1) show ?thesis by (simp add: rows_known_def upd_session_def list_update_beyond)
qed

lemma rows_known_nth:
  "rows_known dc \<Longrightarrow> i < length (dc_sessions dc) \<Longrightarrow> r \<in> set (in_flight (dc_sessions dc ! i)) \<Longrightarrow> pr_op_kind r \<in> range op_as_str"
  unfolding rows_known_def kinds_known_def by (meson nth_mem)

lemma rows_known_keep:
  "rows_known dc \<Longrightarrow> (\<And>se. kinds_known (f se) = kinds_known se) \<Longrightarrow> rows_known (upd_session i f dc)"
  by (rule rows_known_upd) (simp_all add: rows_known_def)

lemma rows_known_cong: "dc_sessions dc' = dc_sessions dc \<Longrightarrow> rows_known dc' = rows_known dc"
  by (simp add: rows_known_def)

lemma rows_known_fields [simp]:
  "rows_known (dc\<lparr>dc_touches := a\<rparr>) = rows_known dc" "rows_known (dc\<lparr>dc_news := b\<rparr>) = rows_known dc"
  "rows_known (dc\<lparr>dc_last_seen := c\<rparr>) = rows_known dc" "rows_known (broadcast_status dc) = rows_known dc"
  "rows_known (dc\<lparr>dc_enabled := e, dc_session := s\<rparr>) = rows_known dc" "rows_known (dc\<lparr>dc_upserts := u\<rparr>) = rows_known dc"
  by (simp_all add: rows_known_def)

lemma rows_known_first_sight: "rows_known dc \<Longrightarrow> rows_known (first_sight policy i info dc)"
  by (auto simp: first_sight_def Let_def rows_known_keep split: prod.splits)

lemma rows_known_resolve_pid:
  "resolve_pid ops policy pf i pid dc = (info, dc') \<Longrightarrow> rows_known dc \<Longrightarrow> rows_known dc'"
  by (auto simp: resolve_pid_def Let_def split: prod.splits option.splits intro!: rows_known_first_sight rows_known_keep)

lemma rows_known_last_seen:
  "last_seen_info ops policy pf thread i pid dc = (info, dc') \<Longrightarrow> rows_known dc \<Longrightarrow> rows_known dc'"
  by (auto simp: last_seen_info_def dest: rows_known_resolve_pid split: prod.splits option.splits if_splits)

lemma rows_known_step: "discovery_step ops policy dc dc' \<Longrightarrow> rows_known dc \<Longrightarrow> rows_known dc'"
proof (induction rule: discovery_step.induct)
  case (touched dc pf thread pid op)
  then show ?case by (auto simp: log_touch_def split: option.splits prod.splits dest: rows_known_last_seen)
next
  case (opened dc info outcome)
  then show ?case by (auto simp: log_open_def Let_def rows_known_first_sight split: option.splits)
next
  case (armed dc new_lru now)
  then show ?case by (simp add: start_def) (simp add: rows_known_def kinds_known_def in_flight_def)
next
  case (flushed i dc bucket key keys rows final)
  have "kinds_known (dc_sessions dc ! i)" using flushed by (simp add: rows_known_def)
  then have "\<forall>r \<in> set rows. pr_op_kind r \<in> range op_as_str" using flushed(2) by (simp add: kinds_known_def in_flight_def)
  then show ?case unfolding flush_entry_def
    by (intro rows_known_upd [OF flushed(3)]) (auto simp: kinds_known_def in_flight_def op_row_def split: prod.splits)
next
  case (stored dc)
  then show ?case by (simp add: upsert_rows_def split: list.splits) (simp add: rows_known_def)
next
  case (ticked i dc keys final now)
  then show ?case by (intro rows_known_upd) (simp_all add: kinds_known_def in_flight_def)
next
  case (disarmed dc)
  then show ?case by (auto simp: stop_def split: option.splits intro!: rows_known_keep)
next
  case (bumped dc ts i key us)
  then show ?case by (simp add: bump_def rows_known_keep)
next
  case (cancelled i dc)
  then show ?case by (simp add: rows_known_keep)
next
  case (ended i dc bucket rows final)
  then show ?case by (simp add: flush_end_def rows_known_upd kinds_known_def in_flight_def)
next
  case (exited i dc)
  then show ?case by (simp add: drain_exit_def rows_known_upd kinds_known_def in_flight_def)
qed

lemma rows_known_reachable: "discovery_reachable ops policy dc \<Longrightarrow> rows_known dc"
proof (induction rule: discovery_reachable.induct)
  case (created db)
  show ?case by (simp add: discovery_new_def rows_known_def)
next
  case (stepped dc dc')
  then show ?case by (blast intro: rows_known_step)
qed

lemma kind_counts_all:
  "\<forall>r \<in> set rows. pr_op_kind r \<in> range op_as_str \<Longrightarrow>
   kind_count name ''hit'' rows + kind_count name ''miss'' rows + kind_count name ''meta'' rows =
     sum_list (map pr_count (filter (\<lambda>r. pr_process_name r = name) rows))"
proof (induction rows rule: rev_induct)
  case (snoc r rows)
  then obtain op where "pr_op_kind r = op_as_str op" by auto
  with snoc show ?case by (cases op) auto
qed simp


text \<open>One hit of a player, counted and taken by a flush.\<close>

definition no_policy :: process_filter_policy where
  "no_policy = \<lparr>pol_allowlist = [], pol_blocklist = []\<rparr>"

definition hit_row :: process_access_row where
  "hit_row = \<lparr>pr_bucket_epoch = 160, pr_process_name = ''mpv'', pr_op_kind = ''hit'', pr_count = 1,
     pr_sample_cmdline = Some [], pr_sample_ancestors = Some []\<rparr>"

definition touched_once :: "(nat \<times> process_info) list discovery" where
  "touched_once = log_open no_policy player_info HitOutcome armed_discovery"

definition counted_once :: "(nat \<times> process_info) list discovery" where
  "counted_once = bump 0 (''mpv'', OpHit) (touched_once\<lparr>dc_touches := []\<rparr>)"

definition flushed_once :: "(nat \<times> process_info) list discovery" where
  "flushed_once = flush_entry 160 0 (''mpv'', OpHit) [] [] False
     (upd_session 0 (\<lambda>se. se\<lparr>se_drain := Flushing 160 [(''mpv'', OpHit)] [] False\<rparr>) counted_once)"

lemma touched_once_fields:
  "dc_touches touched_once = [(0, (''mpv'', OpHit))]"
  "dc_sessions touched_once = [\<lparr>se_cancelled = False, se_counts = [], se_samples = [(''mpv'', (Some [], Some []))],
     se_filtered = [(''mpv'', False)], se_seen = [''mpv''], se_pid_lru = [], se_started_at = 100, se_drain = Waiting\<rparr>]"
  by (simp_all add: touched_once_def log_open_def armed_discovery_fields first_sight_def Let_def player_info_def
      display_name_def outcome_op_def format_process_info_def upd_session_def no_policy_def policy_should_filter_def)

lemma counted_once_sessions:
  "dc_sessions counted_once = [\<lparr>se_cancelled = False, se_counts = [((''mpv'', OpHit), 1)],
     se_samples = [(''mpv'', (Some [], Some []))], se_filtered = [(''mpv'', False)], se_seen = [''mpv''], se_pid_lru = [],
     se_started_at = 100, se_drain = Waiting\<rparr>]"
  by (simp add: counted_once_def bump_def upd_session_def touched_once_fields count_of_def add64_def)

lemma flushed_once_session:
  "dc_sessions flushed_once = [\<lparr>se_cancelled = False, se_counts = [((''mpv'', OpHit), 0)],
     se_samples = [(''mpv'', (Some [], Some []))], se_filtered = [(''mpv'', False)], se_seen = [''mpv''], se_pid_lru = [],
     se_started_at = 100, se_drain = Flushing 160 [] [hit_row] False\<rparr>]"
  by (simp add: flushed_once_def flush_entry_def upd_session_def counted_once_sessions count_of_def op_row_def hit_row_def)

lemma flushed_once_reachable: "discovery_reachable (list_lru 4) no_policy flushed_once"
proof -
  have "discovery_reachable (list_lru 4) no_policy touched_once"
    unfolding touched_once_def by (rule discovery_reachable.stepped [OF armed_reachable discovery_step.opened])
  moreover have "discovery_step (list_lru 4) no_policy touched_once counted_once"
    unfolding counted_once_def using discovery_step.bumped [of touched_once "[]" 0 "(''mpv'', OpHit)" "[]"]
    by (simp add: touched_once_fields)
  moreover have "discovery_step (list_lru 4) no_policy counted_once
      (upd_session 0 (\<lambda>se. se\<lparr>se_drain := Flushing 160 [(''mpv'', OpHit)] [] False\<rparr>) counted_once)"
    using discovery_step.ticked [of 0 counted_once "[(''mpv'', OpHit)]" False "list_lru 4" no_policy 160]
    by (simp add: counted_once_sessions as_i64_def)
  moreover have "discovery_step (list_lru 4) no_policy
      (upd_session 0 (\<lambda>se. se\<lparr>se_drain := Flushing 160 [(''mpv'', OpHit)] [] False\<rparr>) counted_once) flushed_once"
    unfolding flushed_once_def by (rule discovery_step.flushed) (simp_all add: upd_session_def counted_once_sessions)
  ultimately show ?thesis by (blast intro: discovery_reachable.stepped)
qed


text \<open>The formatter undoes the escapes of a quoted text in the wrong order: the two characters of a backslash
  and an n, escaped and taken back, become a line break.\<close>

lemma literal_backslash_n_becomes_newline:
  "unquote (debug_str [CHR 92, CHR ''n'']) = [CHR 10]"
  by (simp add: unquote_def debug_str_def debug_char_def code_of_def)

end
