(* ===== verification/Spec2Isabelle.thy ===== *)
theory Spec2Isabelle
  imports BackingWatch Transparency Telemetry DiscoveryLog
begin

text \<open>
  A verification library for fscache, a FUSE filesystem that overmounts directories and keeps a copy
  of the files in use on a local drive.

  \<^bold>\<open>The program.\<close> The daemon mounts a filesystem over each target directory. A FUSE handler serves a
  path from the cache directory of the mount if it is cached and from the directory underneath
  otherwise, and tells the action engine about opens and closes. The engine holds an access back until
  the file has been open long enough, asks a preset which files to fetch, and submits them to the
  pipeline under a budget. The pipeline is a queue, a dispatcher and workers that copy a file, check it
  against its source, rename it into place and record it in a database. The cache manager evicts, by age
  and by size, and drops what has become stale; a watcher over the directory underneath drops what has
  changed there and tells the kernel. Beside this run the recording of the processes that access files,
  an IPC server, and a client that shows a dashboard and sends commands.

  \<^bold>\<open>Theories.\<close> In the order of their imports:
  \<^item> \<open>Prelude\<close>, \<open>Text\<close>, \<open>Lru\<close>: machine integers and their casts, paths, keyed tables, the string
    functions of the standard library, the contract of an LRU cache;
  \<^item> \<open>Scheduler\<close> (engine/scheduler.rs): the caching window;
  \<^item> \<open>Inode\<close> (fuse/inode.rs): the inode table, and the locale of a table with its inverse;
  \<^item> \<open>Disk\<close> (utils.rs and the std::fs calls of all parts): the cache directory as a tree, the walks;
  \<^item> \<open>BackingStore\<close>, \<open>Syscalls\<close> (backing_store.rs): what the directory underneath answers, and the
    calls that change it as actions of a state monad over an arbitrary kernel;
  \<^item> \<open>CacheDb\<close>, \<open>DbSchema\<close> (cache/db.rs): the tables as lists of rows and every statement as an operation,
    the migrations and connection settings;
  \<^item> \<open>CacheManager\<close> (cache/manager.rs): staleness, eviction, reconciliation, statistics;
  \<^item> \<open>CacheCopy\<close>, \<open>CacheIO\<close> (cache/io.rs): one copy with its failures, and the pipeline as a step
    relation over the queue, the known jobs, the workers and the permits;
  \<^item> \<open>Prediction\<close>, \<open>Process\<close>, \<open>Presets\<close> (prediction_utils.rs, preset.rs, presets): which episode comes next,
    who opens a file, and the two presets behind the locale of what the engine relies on;
  \<^item> \<open>ActionEngine\<close> (engine/action.rs): the access filter and the action loop;
  \<^item> \<open>BackingWatch\<close> (backing_watch.rs): the watches, the debouncing and the dispatch;
  \<^item> \<open>Fuse\<close>, \<open>FuseWrite\<close>, \<open>FuseSpec\<close> (fuse): the handlers, the table of operations, the properties;
  \<^item> \<open>Transparency\<close> (cache/io.rs, fuse/read.rs): the pipeline and the reader together: what is cached is what
    is underneath, and a reader cannot tell;
  \<^item> \<open>Discovery\<close> (discovery.rs): counters, sessions, the drain task, as interleaved steps;
  \<^item> \<open>Config\<close>, \<open>Daemon\<close> (config.rs, utils.rs, main.rs): the configuration as serde reads it, names and
    locks, the mount table, the assembly of a mount;
  \<^item> \<open>Protocol\<close>, \<open>Server\<close> (ipc, main.rs): messages, the layer that makes them, the server's and the client's
    side of a connection, the commands;
  \<^item> \<open>Telemetry\<close> (telemetry.rs and the places that emit): what the daemon reports of itself, and the filesystem
    and the dashboard run together;
  \<^item> \<open>Tui\<close> (tui/app.rs, tui/state.rs): keys, the list of files, polling, what scrolling shows;
  \<^item> \<open>Lifecycle\<close> (main.rs, ipc/server.rs): the start of the daemon, its tasks, the server's socket and clients,
    the shutdown, and the commands of the command line;
  \<^item> \<open>Screen\<close> (tui/ui.rs): every page of the dashboard as the widgets it draws, and the figures on them;
  \<^item> \<open>DiscoveryLog\<close> (discovery.rs): the lines the recording writes to its own log, and their formatter;
  \<^item> this theory: the properties that span components.

  \<^bold>\<open>Conventions.\<close> A \<open>u64\<close> is a natural number whose wrap-around is written out, an \<open>i64\<close> an integer, flags
  are words, an \<open>f64\<close> a rational or one of its special values. A path is the list of its components and
  identified with its text, a file name being valid UTF-8. Locks are not modelled: what a lock guards is
  one step. A hash map is an association list. Errors are values. What the kernel, the clock, user
  regular expressions and third-party crates answer is an argument.

  \<^bold>\<open>What is shown.\<close> For each component the invariant of its state under every operation (the inode table is a
  bijection, the watch tables are inverse to each other, a job is in one place of the pipeline, handles
  and their events are accounted for, no recorded access is lost, locks are exclusive), the behaviour of
  its operations on every branch, and the bounds it promises. Refinements: the ring of log lines and the
  dashboard are functions of the messages so far, and its open handles and bytes read follow the filesystem.
  Across components: over every run of the
  pipeline a cached file holds the bytes of its source, and reads through the mount return them; a key of the
  dashboard to the disk of the daemon, and from the screen to the command a key sends; the separation of the
  mounts. Of the life of a daemon: one that is up is complete, one that has ended holds no lock and can be
  started again, its shutdown is bounded, and its clients are told.

  \<^bold>\<open>Recursion.\<close> Loops over data are structural or have a measure; the walk of a directory is bounded by the
  height of the tree, the search for ancestors by the limit the code has. The only fuel is the number of
  requests with which the kernel reads a directory page by page; one more than the entries left is enough.

  \<^bold>\<open>Not modelled.\<close> The JSON framing, the broadcast and timer tasks of tokio beyond the order of their steps, the log
  subscribers and log text that nobody reads back, and the parsing of the command line. The TOML parser,
  SQLite, inotify, FUSE and the layout of the drawing library are third-party code; what is relied on of the
  last is \<open>library_ok\<close>.
\<close>

section \<open>From a key to the disk\<close>

text \<open>C32. Evicting from the dashboard, end to end: when the user has the list of cached files as the database
  gave it and a key sends an eviction, the server that gets it removes only rows of the mounts the
  dashboard watches, each of which the command names, and a row goes only when its file is gone from the
  disk.\<close>

theorem dashboard_eviction_stays_in_mounts:
  assumes "tui_reachable ui" and "poll_cache_stats free (sv_db s) mount_dirs d0 = Some d"
    and "ui_sent (handle_key now d k ui) = ui_sent ui @ [EvictFiles ts]"
    and "writable (sv_db s)" and "inj_on target_path (set ts)"
  shows "\<exists>s'. handle_frame new_lru t (EvictFiles ts) s = (True, s') \<and>
    (\<forall>rel m. find_row rel m (sv_db s') \<noteq> find_row rel m (sv_db s) \<longrightarrow>
       \<lparr>ft_rel_path = rel, ft_mount_id = m\<rparr> \<in> set ts \<and> m \<in> set mount_dirs \<and> node_at (sv_disk s') (m @ rel) = None)"
proof -
  let ?s = "fold evict_target ts s"
  have "command_ok d k ui (EvictFiles ts)" using key_commands [OF assms(1), of now d k] assms(3) by auto
  then have "set ts \<subseteq> target_of ` set (da_cached_files d)" by (simp add: command_ok_def)
  also have "\<dots> = set (concat (map (listed_targets (sv_db s)) mount_dirs))"
    using poll_targets [OF assms(2)] assms(4) by (metis list.set_map writable_def)
  finally have listed: "x \<in> set ts \<Longrightarrow> ft_mount_id x \<in> set mount_dirs" for x
    by (auto simp: listed_targets_def)
  have "\<lparr>ft_rel_path = rel, ft_mount_id = m\<rparr> \<in> set ts \<and> m \<in> set mount_dirs \<and> node_at (sv_disk ?s) (m @ rel) = None"
    if diff: "find_row rel m (sv_db ?s) \<noteq> find_row rel m (sv_db s)" for rel m
  proof -
    have "\<exists>x \<in> evicted_targets (sv_disk s) ts. rel = ft_rel_path x \<and> m = ft_mount_id x"
      using diff evict_all [OF assms(5,4), of "[]" rel m] by presburger
    then obtain x where x: "x \<in> evicted_targets (sv_disk s) ts" "rel = ft_rel_path x" "m = ft_mount_id x" by blast
    then have mem: "x \<in> set ts" by (simp add: evicted_targets_def)
    have named: "\<lparr>ft_rel_path = rel, ft_mount_id = m\<rparr> \<in> set ts" using x mem by (cases x) simp
    have "m @ rel \<in> target_path ` evicted_targets (sv_disk s) ts" using x by (auto simp: target_path_def)
    then have "node_at (sv_disk ?s) (m @ rel) = None" using evict_all [OF assms(5,4), of "m @ rel" rel m] by simp
    then show ?thesis using named listed [OF mem] x(3) by simp
  qed
  then show ?thesis by simp
qed

section \<open>Mounts do not meet\<close>

text \<open>C36. Two mounts of one daemon never share a file of the cache: unless the lower halves of their targets'
  hashes collide, their cache directories are different children of the configured directory, so no
  cached path of one is a cached path of the other, and their rows in the database have different keys.\<close>

theorem mounts_disjoint:
  assumes "assemble_mount compile is_match hash base capacity c t1 = Inr m1"
    and "assemble_mount compile is_match hash base capacity c t2 = Inr m2"
    and "hash t1 mod 2 ^ 32 \<noteq> hash t2 mod 2 ^ 32"
  shows "cache_path (mt_manager m1) p \<noteq> cache_path (mt_manager m2) q \<and>
    cm_mount_id (mt_manager m1) \<noteq> cm_mount_id (mt_manager m2) \<and> starts_with (cache_path (mt_manager m1) p) base"
proof -
  have dir: "cm_cache_dir (mt_manager m) = base @ [mount_cache_name hash t] \<and> cm_mount_id (mt_manager m) = base @ [mount_cache_name hash t]"
    if "assemble_mount compile is_match hash base capacity c t = Inr m" for t m
    using that by (auto simp: assemble_mount_def Let_def manager_new_def split: sum.splits)
  have "mount_cache_name hash t1 \<noteq> mount_cache_name hash t2" using mount_cache_name_safe [of hash t1 t2] assms(3) by blast
  then show ?thesis using dir [OF assms(1)] dir [OF assms(2)] by (simp add: cache_path_def starts_with_iff)
qed

definition shared_server :: "unit server" where
  "shared_server = sample_server\<lparr>sv_discovery := discovery_new sample_db\<rparr>"

definition polled :: dashboard where
  "polled = the (poll_cache_stats (\<lambda>m. None) sample_db [[''m'']] (dashboard_new minimal_config))"

lemma polled: "poll_cache_stats (\<lambda>m. None) sample_db [[''m'']] (dashboard_new minimal_config) = Some polled"
  by (simp add: polled_def poll_cache_stats_def client_files_for_mount_def mount_rows_def sample_rows time_plus_def max0_u64_def
      dashboard_new_def minimal_config_def eviction_default_def default_expiry_hours_def mul64_def)

lemma polled_files: "map target_of (da_cached_files polled) =
  [\<lparr>ft_rel_path = [''a''], ft_mount_id = [''m'']\<rparr>, \<lparr>ft_rel_path = [''b''], ft_mount_id = [''m'']\<rparr>]"
  using poll_targets [OF polled] by (simp add: listed_targets_def mount_rows_def sample_rows)

definition menu_on_polled :: tui where
  "menu_on_polled = handle_key 0 polled enter_key cache_page"

lemma menu_on_polled: "menu_on_polled = cache_page\<lparr>ui_menu := Some 0\<rparr>"
  using polled_files
  by (auto simp: menu_on_polled_def cache_page_def tui_start_def handle_key_def normal_key_def key_char_def enter_key_def)

lemma menu_on_polled_reachable: "tui_reachable menu_on_polled"
  unfolding menu_on_polled_def cache_page_def
  by (intro tui_reachable.pressed tui_reachable.opened)
    (simp_all add: tui_start_def handle_key_def normal_key_def key_char_def)

lemma newest_of_polled: "sort_refs Newest (da_cached_files polled) ! 0 =
    \<lparr>ci_path = [''b''], ci_size_bytes = 7, ci_cached_at = 20, ci_last_hit_at = 20, ci_evicts_at = 259220, ci_mount_id = [''m'']\<rparr>"
  by (simp add: polled_def poll_cache_stats_def client_files_for_mount_def mount_rows_def sample_rows time_plus_def max0_u64_def
      dashboard_new_def minimal_config_def eviction_default_def default_expiry_hours_def mul64_def)

theorem dashboard_eviction_stays_in_mounts_witness:
  "\<exists>s'. handle_frame () 0 (EvictFiles [\<lparr>ft_rel_path = [''b''], ft_mount_id = [''m'']\<rparr>]) shared_server = (True, s') \<and>
     find_row [''a''] [''m''] (sv_db s') = find_row [''a''] [''m''] (sv_db shared_server)"
proof -
  let ?ts = "[\<lparr>ft_rel_path = [''b''], ft_mount_id = [''m'']\<rparr>]"
  have db: "sv_db shared_server = sample_db" by (simp add: shared_server_def discovery_new_def)
  have w: "writable (sv_db shared_server)"
    unfolding db by (simp add: writable_def) (simp add: sample_db_def db_mark_cached_def execute_def db_empty_def)
  have len: "length (da_cached_files polled) = 2" using arg_cong [OF polled_files, of length] by simp
  have sent: "ui_sent (handle_key 0 polled enter_key menu_on_polled) = ui_sent menu_on_polled @ [EvictFiles ?ts]"
    by (simp add: menu_on_polled handle_key_def menu_key_def menu_enter_def enter_key_def build_targets_def get_at_def
        cache_page_def tui_start_def normal_key_def key_char_def len newest_of_polled [simplified] target_of_def)
  obtain s' where s': "handle_frame () 0 (EvictFiles ?ts) shared_server = (True, s')"
      "\<forall>rel m. find_row rel m (sv_db s') \<noteq> find_row rel m (sv_db shared_server) \<longrightarrow>
         \<lparr>ft_rel_path = rel, ft_mount_id = m\<rparr> \<in> set ?ts \<and> m \<in> set [[''m'']] \<and> node_at (sv_disk s') (m @ rel) = None"
    using dashboard_eviction_stays_in_mounts [OF menu_on_polled_reachable polled [folded db] sent w, of "()" 0] by auto
  then have "find_row [''a''] [''m''] (sv_db s') = find_row [''a''] [''m''] (sv_db shared_server)" by fastforce
  with s' show ?thesis by blast
qed

theorem mounts_disjoint_witness:
  "cache_path (mt_manager (projr (assemble_mount (\<lambda>s. None :: unit option) (\<lambda>r s. False) length [''cache''] None minimal_config [''a'']))) [''f''] \<noteq>
   cache_path (mt_manager (projr (assemble_mount (\<lambda>s. None :: unit option) (\<lambda>r s. False) length [''cache''] None minimal_config [''a'', ''b'']))) [''f'']"
proof -
  obtain m1 m2 where m: "assemble_mount (\<lambda>s. None :: unit option) (\<lambda>r s. False) length [''cache''] None minimal_config [''a''] = Inr m1"
      "assemble_mount (\<lambda>s. None :: unit option) (\<lambda>r s. False) length [''cache''] None minimal_config [''a'', ''b''] = Inr m2"
    using minimal_mount by blast
  from mounts_disjoint [OF m, of "[''f'']" "[''f'']"] m show ?thesis by simp
qed

end
